(* ===== verification/Rust_Prelude.thy ===== *)
theory Rust_Prelude
  imports Main "HOL-Library.Word" "HOL-Library.List_Lexorder" "HOL-Library.Product_Lexorder"
begin

text \<open>
  What every component of the development shares: the machine integers and byte strings of the
  Rust sources, the little-endian codecs of \<open>to_le_bytes\<close> and \<open>from_le_bytes\<close>, the
  two-sided results of \<open>Result\<close> (alone and over a state that survives an error), and the
  generic facts about lists, folds and prefixes that the component proofs use.

  A \<open>Vec<u8>\<close>, a \<open>&[u8]\<close> and a fixed array \<open>[u8; n]\<close> are all a list of bytes; where the
  fixed length matters it is a hypothesis. \<open>List_Lexorder\<close> orders byte lists the way Rust
  orders byte slices, \<open>Product_Lexorder\<close> orders tuples the way Rust does.
\<close>

named_theorems codec_simps \<open>lengths and inverses of the byte codecs\<close>
named_theorems result_simps \<open>case analysis of results and of the state-and-error monad\<close>

section \<open>Machine integers and bytes\<close>

type_synonym byte = "8 word"
type_synonym u16 = "16 word"
type_synonym u32 = "32 word"
type_synonym u64 = "64 word"
type_synonym bytes = "byte list"
type_synonym peer = u64

text \<open>An ASCII byte-string literal, \<open>b"..."\<close> in the sources.\<close>

definition ascii :: "string \<Rightarrow> bytes" where
  "ascii s = map of_char s"

lemma length_ascii [simp]: "length (ascii s) = length s"
  by (simp add: ascii_def)

lemma byte_bound: "unat (b :: byte) < 256"
  using unsigned_less [of b, where 'a = nat] by simp

lemma u16_bound: "unat (w :: u16) < 256 ^ 2"
  using unsigned_less [of w, where 'a = nat] by simp

lemma u32_bound: "unat (w :: u32) < 256 ^ 4"
  using unsigned_less [of w, where 'a = nat] by simp

lemma u64_bound: "unat (w :: u64) < 256 ^ 8"
  using unsigned_less [of w, where 'a = nat] by simp

text \<open>The saturating addition \<open>u64::saturating_add\<close>.\<close>

definition sat_add64 :: "u64 \<Rightarrow> u64 \<Rightarrow> u64" where
  "sat_add64 a b = (if unat a + unat b < 2 ^ 64 then a + b else - 1)"

lemma unat_sat_add64: "unat (sat_add64 a b) = min (unat a + unat b) (2 ^ 64 - 1)"
proof -
  have "unat (- 1 :: u64) = 2 ^ 64 - 1" by (simp add: unsigned_minus_1_eq_mask mask_eq_exp_minus_1)
  then show ?thesis by (auto simp: sat_add64_def unat_word_ariths min_def)
qed

lemma sat_add64_ge: "a \<le> sat_add64 a b"
proof -
  have "unat a < 2 ^ 64" using u64_bound [of a] by simp
  then show ?thesis by (simp add: word_le_nat_alt unat_sat_add64)
qed

section \<open>Little-endian codecs\<close>

text \<open>
  \<open>le_bytes n v\<close> is the low \<open>n\<close> bytes of \<open>v\<close>, least significant first; \<open>of_le\<close> reads a byte
  string back. The typed codecs below fix the width.
\<close>

fun le_bytes :: "nat \<Rightarrow> nat \<Rightarrow> bytes" where
  "le_bytes 0 v = []"
| "le_bytes (Suc n) v = of_nat (v mod 256) # le_bytes n (v div 256)"

fun of_le :: "bytes \<Rightarrow> nat" where
  "of_le [] = 0"
| "of_le (b # bs) = unat b + 256 * of_le bs"

lemma length_le_bytes [simp, codec_simps]: "length (le_bytes n v) = n"
  by (induction n arbitrary: v) auto

lemma unat_of_byte: "unat (of_nat (v mod 256) :: byte) = v mod 256"
  by (simp add: unat_of_nat)

lemma of_le_le_bytes [codec_simps]: "of_le (le_bytes n v) = v mod 256 ^ n"
proof (induction n arbitrary: v)
  case 0
  then show ?case by simp
next
  case (Suc n)
  have "v mod (256 * 256 ^ n) = 256 * (v div 256 mod 256 ^ n) + v mod 256"
    by (rule mod_mult2_eq)
  then show ?case by (simp add: Suc.IH unat_of_byte)
qed

lemma of_le_bound: "of_le bs < 256 ^ length bs"
proof (induction bs)
  case Nil
  then show ?case by simp
next
  case (Cons b bs)
  have "unat b < 256" by (rule byte_bound)
  then have "unat b + 256 * of_le bs < 256 * Suc (of_le bs)" by simp
  also have "\<dots> \<le> 256 * 256 ^ length bs" using Cons.IH by (intro mult_le_mono2) simp
  finally show ?case by simp
qed

lemma le_bytes_of_le: "le_bytes (length bs) (of_le bs) = bs"
proof (induction bs)
  case Nil
  then show ?case by simp
next
  case (Cons b bs)
  have b: "unat b < 256" by (rule byte_bound)
  then have "(unat b + 256 * of_le bs) mod 256 = unat b" by simp
  moreover from b have "(unat b + 256 * of_le bs) div 256 = of_le bs" by simp
  ultimately show ?case by (simp add: Cons.IH)
qed

definition u64_to_le :: "u64 \<Rightarrow> bytes" where
  "u64_to_le w = le_bytes 8 (unat w)"

definition u64_of_le :: "bytes \<Rightarrow> u64" where
  "u64_of_le bs = of_nat (of_le bs)"

definition u32_to_le :: "u32 \<Rightarrow> bytes" where
  "u32_to_le w = le_bytes 4 (unat w)"

definition u32_of_le :: "bytes \<Rightarrow> u32" where
  "u32_of_le bs = of_nat (of_le bs)"

definition u16_to_le :: "u16 \<Rightarrow> bytes" where
  "u16_to_le w = le_bytes 2 (unat w)"

definition u16_of_le :: "bytes \<Rightarrow> u16" where
  "u16_of_le bs = of_nat (of_le bs)"

lemma length_to_le [simp, codec_simps]:
  "length (u64_to_le w) = 8" "length (u32_to_le x) = 4" "length (u16_to_le y) = 2"
  by (simp_all add: u64_to_le_def u32_to_le_def u16_to_le_def)

lemma u64_le_roundtrip [simp, codec_simps]: "u64_of_le (u64_to_le w) = w"
proof -
  have "unat w < 256 ^ 8" by (rule u64_bound)
  then show ?thesis
    by (simp add: u64_to_le_def u64_of_le_def of_le_le_bytes del: le_bytes.simps)
qed

lemma u32_le_roundtrip [simp, codec_simps]: "u32_of_le (u32_to_le w) = w"
proof -
  have "unat w < 256 ^ 4" by (rule u32_bound)
  then show ?thesis
    by (simp add: u32_to_le_def u32_of_le_def of_le_le_bytes del: le_bytes.simps)
qed

lemma u16_le_roundtrip [simp, codec_simps]: "u16_of_le (u16_to_le w) = w"
proof -
  have "unat w < 256 ^ 2" by (rule u16_bound)
  then show ?thesis
    by (simp add: u16_to_le_def u16_of_le_def of_le_le_bytes del: le_bytes.simps)
qed

lemma u64_to_le_inj [simp]: "u64_to_le a = u64_to_le b \<longleftrightarrow> a = b"
  by (metis u64_le_roundtrip)

lemma u32_to_le_inj [simp]: "u32_to_le a = u32_to_le b \<longleftrightarrow> a = b"
  by (metis u32_le_roundtrip)

lemma u64_of_le_inj:
  assumes "length bs = 8" "length cs = 8" "u64_of_le bs = u64_of_le cs"
  shows "bs = cs"
proof -
  have bnd: "of_le bs < 2 ^ 64" "of_le cs < 2 ^ 64"
    using of_le_bound [of bs] of_le_bound [of cs] assms(1,2) by simp_all
  from assms(3) have "of_le bs mod 2 ^ 64 = of_le cs mod 2 ^ 64"
    by (simp add: u64_of_le_def word_of_nat_eq_iff take_bit_eq_mod)
  with bnd have "of_le bs = of_le cs" by simp
  then show ?thesis using le_bytes_of_le assms(1,2) by metis
qed

lemma of_nat_u64_inj: "a < 2 ^ 64 \<Longrightarrow> b < 2 ^ 64 \<Longrightarrow> (of_nat a :: u64) = of_nat b \<longleftrightarrow> a = b"
  by (auto simp: word_unat_eq_iff unat_of_nat take_bit_nat_eq_self)

text \<open>Equal concatenations whose first parts have the same length agree part by part.\<close>

lemma append_eq_same_length:
  "length xs = length ys \<Longrightarrow> xs @ us = ys @ vs \<longleftrightarrow> xs = ys \<and> us = vs"
  by (rule append_eq_append_conv) simp

end
