(* ===== verification/Rust_Text.thy ===== *)
theory Rust_Text
  imports Rust_Prelude
begin

text \<open>
  Rust strings. A \<open>char\<close> is its Unicode scalar value (a natural number), a \<open>String\<close> or
  \<open>&str\<close> the list of its chars, and \<open>as_bytes\<close> the UTF-8 encoding \<open>utf8\<close>;
  \<open>from_utf8\<close> is the validating decoder of the standard library. The rest of the theory is
  the part of \<open>str\<close> the sources use: \<open>lines\<close>, \<open>trim\<close>, \<open>split\<close> and the ASCII case
  operations.
\<close>

type_synonym uchar = nat
type_synonym ustr = "uchar list"

text \<open>A string literal of the sources.\<close>

definition lit :: "string \<Rightarrow> ustr" where
  "lit s = map of_char s"

lemma length_lit [simp]: "length (lit s) = length s"
  by (simp add: lit_def)

text \<open>Unicode scalar values: code points that are not surrogates.\<close>

definition scalar :: "uchar \<Rightarrow> bool" where
  "scalar c \<longleftrightarrow> c < 0xD800 \<or> 0xE000 \<le> c \<and> c < 0x110000"

definition valid_str :: "ustr \<Rightarrow> bool" where
  "valid_str s \<longleftrightarrow> list_all scalar s"

lemma valid_str_simps [simp]:
  "valid_str []" "valid_str (c # s) \<longleftrightarrow> scalar c \<and> valid_str s"
  "valid_str (s @ t) \<longleftrightarrow> valid_str s \<and> valid_str t"
  by (simp_all add: valid_str_def)

section \<open>UTF-8\<close>

definition byte_of :: "nat \<Rightarrow> byte" where
  "byte_of n = of_nat n"

lemma unat_byte_of [simp]: "n < 256 \<Longrightarrow> unat (byte_of n) = n"
  by (simp add: byte_of_def unat_of_nat)

lemma byte_of_unat [simp]: "byte_of (unat b) = b"
  by (simp add: byte_of_def)

fun utf8_char :: "uchar \<Rightarrow> bytes" where
  "utf8_char c =
     (if c < 0x80 then [byte_of c]
      else if c < 0x800 then [byte_of (0xC0 + c div 64), byte_of (0x80 + c mod 64)]
      else if c < 0x10000 then
        [byte_of (0xE0 + c div 4096), byte_of (0x80 + c div 64 mod 64), byte_of (0x80 + c mod 64)]
      else
        [byte_of (0xF0 + c div 262144), byte_of (0x80 + c div 4096 mod 64),
         byte_of (0x80 + c div 64 mod 64), byte_of (0x80 + c mod 64)])"

declare utf8_char.simps [simp del]

definition utf8 :: "ustr \<Rightarrow> bytes" where
  "utf8 s = concat (map utf8_char s)"

lemma utf8_simps [simp]:
  "utf8 [] = []" "utf8 (c # s) = utf8_char c @ utf8 s" "utf8 (s @ t) = utf8 s @ utf8 t"
  by (simp_all add: utf8_def)

definition cont :: "byte \<Rightarrow> bool" where
  "cont b \<longleftrightarrow> 0x80 \<le> unat b \<and> unat b \<le> 0xBF"

definition cbits :: "byte \<Rightarrow> nat" where
  "cbits b = unat b - 0x80"

text \<open>
  One step of the validating decoder: the first char and the bytes after it. The lead-byte
  ranges and the restricted second bytes after E0, ED, F0 and F4 are those of the standard
  library's validator.
\<close>

fun utf8_step :: "bytes \<Rightarrow> (uchar \<times> bytes) option" where
  "utf8_step [] = None"
| "utf8_step (b0 # bs) =
     (let a = unat b0 in
      if a < 0x80 then Some (a, bs)
      else if 0xC2 \<le> a \<and> a \<le> 0xDF then
        (case bs of b1 # r \<Rightarrow>
            if cont b1 then Some ((a - 0xC0) * 64 + cbits b1, r) else None
         | [] \<Rightarrow> None)
      else if 0xE0 \<le> a \<and> a \<le> 0xEF then
        (case bs of b1 # b2 # r \<Rightarrow>
            if cont b1 \<and> cont b2 \<and> (a = 0xE0 \<longrightarrow> 0xA0 \<le> unat b1) \<and> (a = 0xED \<longrightarrow> unat b1 \<le> 0x9F)
            then Some ((a - 0xE0) * 4096 + cbits b1 * 64 + cbits b2, r) else None
         | _ \<Rightarrow> None)
      else if 0xF0 \<le> a \<and> a \<le> 0xF4 then
        (case bs of b1 # b2 # b3 # r \<Rightarrow>
            if cont b1 \<and> cont b2 \<and> cont b3 \<and> (a = 0xF0 \<longrightarrow> 0x90 \<le> unat b1) \<and> (a = 0xF4 \<longrightarrow> unat b1 \<le> 0x8F)
            then Some ((a - 0xF0) * 262144 + cbits b1 * 4096 + cbits b2 * 64 + cbits b3, r) else None
         | _ \<Rightarrow> None)
      else None)"

declare utf8_step.simps(2) [simp del]

lemma utf8_step_shorter: "utf8_step bs = Some (c, r) \<Longrightarrow> length r < length bs"
  by (cases bs) (auto simp: utf8_step.simps(2) Let_def split: if_splits list.splits)

function from_utf8 :: "bytes \<Rightarrow> ustr option" where
  "from_utf8 bs =
     (if bs = [] then Some []
      else case utf8_step bs of
             None \<Rightarrow> None
           | Some (c, r) \<Rightarrow> map_option ((#) c) (from_utf8 r))"
  by pat_completeness auto
termination
  by (relation "measure length") (auto dest: utf8_step_shorter)

declare from_utf8.simps [simp del]

lemma from_utf8_Nil [simp]: "from_utf8 [] = Some []"
  by (simp add: from_utf8.simps)

lemma utf8_char_nonempty [simp]: "utf8_char c \<noteq> []"
  by (simp add: utf8_char.simps)

lemma mod_64_low:
  assumes "m mod 64 = 0" "m \<le> d" "d \<le> m + b" "b < 64"
  shows "d mod 64 \<le> (b::nat)"
proof -
  obtain k where d: "d = m + k" using le_Suc_ex [OF assms(2)] by blast
  have "(m + k) mod 64 = (m mod 64 + k) mod 64" by (simp only: mod_add_left_eq)
  also have "\<dots> = k mod 64" using assms(1) by simp
  finally show ?thesis using assms d by simp
qed

lemma mod_64_le: "c mod 64 \<le> (63::nat)"
  using mod_less_divisor [of 64 c] by linarith

lemma horner_64_3: "x * 64 + y = d \<Longrightarrow> d * 64 + z = c \<Longrightarrow> x * 4096 + y * 64 + z = (c::nat)"
  by linarith

lemma horner_64_4:
  "w * 64 + x = e \<Longrightarrow> e * 4096 + y * 64 + z = c \<Longrightarrow> w * 262144 + x * 4096 + y * 64 + z = (c::nat)"
  by linarith

lemma div_4096: "c div 4096 = c div 64 div (64::nat)"
  by (simp add: div_mult2_eq [symmetric])

lemma div_262144: "c div 262144 = c div 4096 div (64::nat)"
  by (simp add: div_mult2_eq [symmetric])

lemma digits64_3: "c div 4096 * 4096 + c div 64 mod 64 * 64 + c mod 64 = (c::nat)"
  unfolding div_4096
  by (rule horner_64_3 [OF div_mult_mod_eq div_mult_mod_eq])

lemma digits64_4:
  "c div 262144 * 262144 + c div 4096 mod 64 * 4096 + c div 64 mod 64 * 64 + c mod 64 = (c::nat)"
  unfolding div_262144
  by (rule horner_64_4 [OF div_mult_mod_eq digits64_3])

lemma utf8_step_char:
  assumes "scalar c"
  shows "utf8_step (utf8_char c @ r) = Some (c, r)"
proof -
  consider "c < 0x80" | "0x80 \<le> c" "c < 0x800" | "0x800 \<le> c" "c < 0x10000"
    | "0x10000 \<le> c" "c < 0x110000"
    using assms by (fastforce simp: scalar_def)
  then show ?thesis
  proof cases
    case 1
    then show ?thesis by (simp add: utf8_char.simps utf8_step.simps(2) Let_def)
  next
    case 2
    have "2 \<le> c div 64" "c div 64 < 32" using 2 by auto
    then show ?thesis
      using 2 by (simp add: utf8_char.simps utf8_step.simps(2) Let_def cont_def cbits_def mod_64_le
        digits64_3 digits64_4)
  next
    case 3
    have d: "c div 4096 < 16" using 3 by (simp add: div_less_iff_less_mult)
    have e0: "c div 4096 = 0 \<longrightarrow> 32 \<le> c div 64 mod 64"
      using 3 by (simp add: div_4096 div_eq_0_iff less_eq_div_iff_mult_less_eq)
    have ed: "c div 4096 = 13 \<longrightarrow> c div 64 mod 64 \<le> 31"
    proof
      assume "c div 4096 = 13"
      then have "c < 55296" using assms by (auto simp: scalar_def)
      then have "c div 64 < 864" by auto
      moreover have "53248 \<le> c" using \<open>c div 4096 = 13\<close> by linarith
      then have "832 \<le> c div 64" by linarith
      ultimately show "c div 64 mod 64 \<le> 31" by (intro mod_64_low [of 832]) simp_all
    qed
    from d e0 ed show ?thesis
      using 3 by (simp add: utf8_char.simps utf8_step.simps(2) Let_def cont_def cbits_def mod_64_le
        digits64_3 digits64_4)
  next
    case 4
    have "c div 262144 < 5" using 4 by (simp add: div_less_iff_less_mult)
    then have d: "c div 262144 \<le> 4" by linarith
    have f0: "c div 262144 = 0 \<longrightarrow> 16 \<le> c div 4096 mod 64"
      using 4 by (simp add: div_262144 div_eq_0_iff less_eq_div_iff_mult_less_eq)
    have f4: "c div 262144 = 4 \<longrightarrow> c div 4096 mod 64 \<le> 15"
    proof
      assume "c div 262144 = 4"
      then have "1048576 \<le> c" by linarith
      then have "256 \<le> c div 4096" "c div 4096 < 272" using 4 by linarith+
      then show "c div 4096 mod 64 \<le> 15" by (intro mod_64_low [of 256]) simp_all
    qed
    from d f0 f4 show ?thesis
      using 4 by (simp add: utf8_char.simps utf8_step.simps(2) Let_def cont_def cbits_def mod_64_le
        digits64_3 digits64_4)
  qed
qed

text \<open>Decoding an encoded string gives it back.\<close>

lemma from_utf8_utf8 [simp]: "valid_str s \<Longrightarrow> from_utf8 (utf8 s) = Some s"
proof (induction s)
  case Nil
  then show ?case by simp
next
  case (Cons c s)
  then have "utf8_step (utf8_char c @ utf8 s) = Some (c, utf8 s)"
    by (simp add: utf8_step_char)
  with Cons show ?case by (subst from_utf8.simps) simp
qed

lemma utf8_inj: "valid_str s \<Longrightarrow> valid_str t \<Longrightarrow> utf8 s = utf8 t \<Longrightarrow> s = t"
  by (metis from_utf8_utf8 option.inject)

section \<open>Operations of \<open>str\<close>\<close>

definition newline :: uchar where "newline = 10"

text \<open>\<open>char::is_whitespace\<close> (the White_Space property) and \<open>char::is_control\<close> (category Cc).\<close>

definition is_whitespace :: "uchar \<Rightarrow> bool" where
  "is_whitespace c \<longleftrightarrow> 0x09 \<le> c \<and> c \<le> 0x0D \<or> c = 0x20 \<or> c = 0x85 \<or> c = 0xA0 \<or> c = 0x1680
     \<or> 0x2000 \<le> c \<and> c \<le> 0x200A \<or> c = 0x2028 \<or> c = 0x2029 \<or> c = 0x202F \<or> c = 0x205F \<or> c = 0x3000"

definition is_control :: "uchar \<Rightarrow> bool" where
  "is_control c \<longleftrightarrow> c < 0x20 \<or> 0x7F \<le> c \<and> c < 0xA0"

definition trim_start :: "ustr \<Rightarrow> ustr" where
  "trim_start s = dropWhile is_whitespace s"

definition trim_end :: "ustr \<Rightarrow> ustr" where
  "trim_end s = rev (dropWhile is_whitespace (rev s))"

definition trim :: "ustr \<Rightarrow> ustr" where
  "trim s = trim_end (trim_start s)"

definition is_blank :: "ustr \<Rightarrow> bool" where
  "is_blank s \<longleftrightarrow> trim s = []"

lemma is_blank_iff: "is_blank s \<longleftrightarrow> (\<forall>c \<in> set s. is_whitespace c)"
proof
  assume "is_blank s"
  then have "\<forall>c \<in> set (trim_start s). is_whitespace c"
    by (simp add: is_blank_def trim_def trim_end_def)
  then have "trim_start s = []"
    by (metis trim_start_def dropWhile_eq_Nil_conv hd_dropWhile hd_in_set)
  then show "\<forall>c \<in> set s. is_whitespace c" by (simp add: trim_start_def)
next
  assume "\<forall>c \<in> set s. is_whitespace c"
  then have "dropWhile is_whitespace s = []" by (simp only: dropWhile_eq_Nil_conv)
  then show "is_blank s" by (simp only: is_blank_def trim_def trim_start_def trim_end_def) simp
qed

text \<open>
  \<open>str::lines\<close>: the pieces between newlines, without the newline and without a carriage return
  just before it; a text that ends with a newline has no empty last piece.
\<close>

definition strip_cr :: "ustr \<Rightarrow> ustr" where
  "strip_cr l = (if l \<noteq> [] \<and> last l = 13 then butlast l else l)"

fun lines_raw :: "ustr \<Rightarrow> ustr \<Rightarrow> ustr list" where
  "lines_raw acc [] = (if acc = [] then [] else [acc])"
| "lines_raw acc (c # s) =
     (if c = newline then strip_cr acc # lines_raw [] s else lines_raw (acc @ [c]) s)"

definition str_lines :: "ustr \<Rightarrow> ustr list" where
  "str_lines s = lines_raw [] s"

lemma lines_raw_line:
  "newline \<notin> set l \<Longrightarrow> lines_raw acc (l @ newline # s) = strip_cr (acc @ l) # lines_raw [] s"
  by (induction l arbitrary: acc) auto

lemma lines_raw_tail: "newline \<notin> set l \<Longrightarrow> lines_raw acc l = (if acc @ l = [] then [] else [acc @ l])"
  by (induction l arbitrary: acc) auto

lemma str_lines_Nil [simp]: "str_lines [] = []"
  by (simp add: str_lines_def)

lemma str_lines_line: "newline \<notin> set l \<Longrightarrow> str_lines (l @ newline # s) = strip_cr l # str_lines s"
  by (simp add: str_lines_def lines_raw_line)

lemma str_lines_tail: "newline \<notin> set l \<Longrightarrow> l \<noteq> [] \<Longrightarrow> str_lines l = [l]"
  by (simp add: str_lines_def lines_raw_tail)

text \<open>\<open>str::split(c)\<close>: at least one piece.\<close>

fun split_raw :: "uchar \<Rightarrow> ustr \<Rightarrow> ustr \<Rightarrow> ustr list" where
  "split_raw d acc [] = [acc]"
| "split_raw d acc (c # s) = (if c = d then acc # split_raw d [] s else split_raw d (acc @ [c]) s)"

definition str_split :: "uchar \<Rightarrow> ustr \<Rightarrow> ustr list" where
  "str_split d s = split_raw d [] s"

text \<open>The inverse of splitting: the pieces joined by the separator (\<open>[_].join\<close>).\<close>

fun str_join :: "ustr \<Rightarrow> ustr list \<Rightarrow> ustr" where
  "str_join sep [] = []"
| "str_join sep [p] = p"
| "str_join sep (p # q # ps) = p @ sep @ str_join sep (q # ps)"

lemma split_raw_piece: "d \<notin> set p \<Longrightarrow> split_raw d acc (p @ d # s) = (acc @ p) # split_raw d [] s"
  by (induction p arbitrary: acc) auto

lemma split_raw_last: "d \<notin> set p \<Longrightarrow> split_raw d acc p = [acc @ p]"
  by (induction p arbitrary: acc) auto

lemma str_split_join:
  "ps \<noteq> [] \<Longrightarrow> \<forall>p \<in> set ps. d \<notin> set p \<Longrightarrow> str_split d (str_join [d] ps) = ps"
  unfolding str_split_def
  by (induction "[d]" ps rule: str_join.induct) (auto simp: split_raw_piece split_raw_last)

text \<open>ASCII case folding.\<close>

definition to_ascii_lower :: "uchar \<Rightarrow> uchar" where
  "to_ascii_lower c = (if 65 \<le> c \<and> c \<le> 90 then c + 32 else c)"

definition eq_ignore_ascii_case :: "ustr \<Rightarrow> ustr \<Rightarrow> bool" where
  "eq_ignore_ascii_case s t \<longleftrightarrow> map to_ascii_lower s = map to_ascii_lower t"

text \<open>\<open>str::len\<close> counts bytes.\<close>

definition str_len :: "ustr \<Rightarrow> nat" where
  "str_len s = length (utf8 s)"

end
