(* ===== verification/Ordered_Map.thy ===== *)
theory Ordered_Map
  imports Rust_Prelude
begin

text \<open>
  \<open>BTreeMap\<close> and \<open>BTreeSet\<close> of the Rust standard library as strictly sorted association lists,
  with the operations the sources use (\<open>get\<close>, \<open>insert\<close>, \<open>entry().and_modify().or_insert()\<close>,
  \<open>remove\<close>). Two interfaces carry the convergence arguments of the development: \<open>join_map\<close>, a map
  whose slots are merged by a semilattice join, and \<open>select_map\<close>, where the join picks one of its
  arguments; folding any list of contributions into such a map gives a result that depends only
  on the set of contributions.
\<close>

type_synonym ('k, 'v) btree = "('k \<times> 'v) list"

definition bt_ok :: "('k::linorder, 'v) btree \<Rightarrow> bool" where
  "bt_ok m \<longleftrightarrow> sorted_wrt (<) (map fst m)"

definition bt_get :: "('k, 'v) btree \<Rightarrow> 'k \<Rightarrow> 'v option" where
  "bt_get m k = map_of m k"

text \<open>\<open>entry(k).and_modify(f).or_insert(v)\<close>.\<close>

fun bt_upsert :: "'k::linorder \<Rightarrow> ('v \<Rightarrow> 'v) \<Rightarrow> 'v \<Rightarrow> ('k, 'v) btree \<Rightarrow> ('k, 'v) btree" where
  "bt_upsert k f v [] = [(k, v)]"
| "bt_upsert k f v ((a, b) # m) =
     (if k < a then (k, v) # (a, b) # m
      else if k = a then (a, f b) # m
      else (a, b) # bt_upsert k f v m)"

definition bt_insert :: "'k::linorder \<Rightarrow> 'v \<Rightarrow> ('k, 'v) btree \<Rightarrow> ('k, 'v) btree" where
  "bt_insert k v m = bt_upsert k (\<lambda>_. v) v m"

definition bt_remove :: "'k \<Rightarrow> ('k, 'v) btree \<Rightarrow> ('k, 'v) btree" where
  "bt_remove k m = filter (\<lambda>p. fst p \<noteq> k) m"

definition bt_keys :: "('k, 'v) btree \<Rightarrow> 'k list" where
  "bt_keys m = map fst m"

text \<open>\<open>BTreeSet::insert\<close>: a sorted list without repetitions.\<close>

fun bs_insert :: "'k::linorder \<Rightarrow> 'k list \<Rightarrow> 'k list" where
  "bs_insert k [] = [k]"
| "bs_insert k (a # s) = (if k < a then k # a # s else if k = a then a # s else a # bs_insert k s)"

definition bs_of :: "'k::linorder list \<Rightarrow> 'k list" where
  "bs_of xs = fold bs_insert xs []"

text \<open>Folding contributions into a map whose slots are merged by \<open>j\<close>.\<close>

definition bt_join_all :: "('v \<Rightarrow> 'v \<Rightarrow> 'v) \<Rightarrow> ('k::linorder \<times> 'v) list \<Rightarrow> ('k, 'v) btree \<Rightarrow> ('k, 'v) btree" where
  "bt_join_all j xs m = fold (\<lambda>(k, v). bt_upsert k (\<lambda>b. j b v) v) xs m"

section \<open>Laws of the map operations\<close>

named_theorems btree_simps

lemma bt_ok_Nil [btree_simps, simp]: "bt_ok []"
  by (simp add: bt_ok_def)

lemma bt_ok_Cons [btree_simps]:
  "bt_ok ((a, b) # m) \<longleftrightarrow> (\<forall>k \<in> fst ` set m. a < k) \<and> bt_ok m"
  by (auto simp: bt_ok_def)

lemma bt_get_Nil [btree_simps, simp]: "bt_get [] k = None"
  by (simp add: bt_get_def)

lemma bt_get_Cons [btree_simps]: "bt_get ((a, b) # m) k = (if k = a then Some b else bt_get m k)"
  by (simp add: bt_get_def)

lemma bt_get_None: "bt_get m k = None \<longleftrightarrow> k \<notin> fst ` set m"
  by (simp add: bt_get_def map_of_eq_None_iff)

lemma bt_get_mem: "bt_get m k = Some v \<Longrightarrow> (k, v) \<in> set m"
  by (simp add: bt_get_def map_of_SomeD)

lemma bt_ok_distinct: "bt_ok m \<Longrightarrow> distinct (map fst m)"
  by (simp add: bt_ok_def strict_sorted_iff)

lemma bt_get_iff: "bt_ok m \<Longrightarrow> bt_get m k = Some v \<longleftrightarrow> (k, v) \<in> set m"
  by (simp add: bt_get_def bt_ok_distinct)

lemma keys_bt_upsert: "fst ` set (bt_upsert k f v m) = insert k (fst ` set m)"
  by (induction k f v m rule: bt_upsert.induct) auto

lemma bt_ok_upsert [btree_simps, intro]: "bt_ok m \<Longrightarrow> bt_ok (bt_upsert k f v m)"
  by (induction k f v m rule: bt_upsert.induct)
     (auto simp: bt_ok_Cons keys_bt_upsert simp del: bt_upsert.simps(1) split: prod.splits,
      auto simp: bt_ok_Cons)

lemma bt_get_upsert [btree_simps]:
  "bt_ok m \<Longrightarrow> bt_get (bt_upsert k f v m) x =
     (if x = k then Some (case bt_get m k of None \<Rightarrow> v | Some b \<Rightarrow> f b) else bt_get m x)"
proof (induction k f v m rule: bt_upsert.induct)
  case (1 k f v)
  then show ?case by (simp add: bt_get_Cons)
next
  case (2 k f v a b m)
  have "k \<notin> fst ` set m" if "k < a" using 2(2) that by (auto simp: bt_ok_Cons)
  then have "bt_get m k = None" if "k < a" using that by (simp add: bt_get_None)
  with 2 show ?case by (auto simp: bt_ok_Cons bt_get_Cons)
qed

lemma bt_ok_insert [btree_simps, intro]: "bt_ok m \<Longrightarrow> bt_ok (bt_insert k v m)"
  by (simp add: bt_insert_def btree_simps)

lemma bt_get_insert [btree_simps]:
  "bt_ok m \<Longrightarrow> bt_get (bt_insert k v m) x = (if x = k then Some v else bt_get m x)"
  by (simp add: bt_insert_def btree_simps split: option.splits)

lemma bt_get_remove [btree_simps]: "bt_get (bt_remove k m) x = (if x = k then None else bt_get m x)"
  by (induction m) (auto simp: bt_remove_def bt_get_def)

lemma bt_ok_remove [btree_simps, intro]: "bt_ok m \<Longrightarrow> bt_ok (bt_remove k m)"
  by (induction m) (auto simp: bt_remove_def bt_ok_def)

text \<open>Strictly sorted maps with the same lookups are the same list.\<close>

lemma bt_ext:
  assumes ok: "bt_ok m" "bt_ok n" and get: "\<And>k. bt_get m k = bt_get n k"
  shows "m = n"
proof -
  have rebuild: "x = map (\<lambda>k. (k, the (bt_get x k))) (map fst x)" if "bt_ok x" for x :: "('a, 'b) btree"
    using bt_get_iff [OF that, THEN iffD2] by (force simp: comp_def intro!: map_idI [symmetric])
  have "k \<in> fst ` set m \<longleftrightarrow> k \<in> fst ` set n" for k
    using bt_get_None [of m k] bt_get_None [of n k] get [of k] by argo
  then have "fst ` set m = fst ` set n" by (rule set_eqI)
  then have keys: "map fst m = map fst n"
    using ok by (simp add: bt_ok_def strict_sorted_iff sorted_distinct_set_unique)
  have "m = map (\<lambda>k. (k, the (bt_get m k))) (map fst m)" by (rule rebuild [OF ok(1)])
  also have "\<dots> = map (\<lambda>k. (k, the (bt_get n k))) (map fst n)" by (simp only: keys get)
  also have "\<dots> = n" by (rule rebuild [OF ok(2), symmetric])
  finally show ?thesis .
qed

lemma set_bs_insert [simp]: "set (bs_insert k s) = insert k (set s)"
  by (induction k s rule: bs_insert.induct) auto

lemma sorted_bs_insert: "sorted_wrt (<) s \<Longrightarrow> sorted_wrt (<) (bs_insert k s)"
  by (induction k s rule: bs_insert.induct) auto

lemma bs_of_props: "set (bs_of xs) = set xs" "sorted_wrt (<) (bs_of xs)"
proof -
  have "set (fold bs_insert xs s) = set s \<union> set xs" for s
    by (induction xs arbitrary: s) auto
  then show "set (bs_of xs) = set xs" by (simp add: bs_of_def)
  have "sorted_wrt (<) s \<Longrightarrow> sorted_wrt (<) (fold bs_insert xs s)" for s
    by (induction xs arbitrary: s) (auto simp: sorted_bs_insert)
  then show "sorted_wrt (<) (bs_of xs)" by (simp add: bs_of_def)
qed

lemma strict_sorted_ext: "sorted_wrt (<) s \<Longrightarrow> sorted_wrt (<) t \<Longrightarrow> set s = set t \<Longrightarrow> s = (t :: 'k::linorder list)"
  by (simp add: strict_sorted_iff sorted_distinct_set_unique)

section \<open>Maps of joins\<close>

lemma bt_join_all_simps [btree_simps, simp]:
  "bt_join_all j [] m = m"
  "bt_join_all j (xs @ ys) m = bt_join_all j ys (bt_join_all j xs m)"
  "bt_join_all j [(k, v)] m = bt_upsert k (\<lambda>b. j b v) v m"
  by (simp_all add: bt_join_all_def)

lemma bt_ok_join_all [btree_simps, intro]: "bt_ok m \<Longrightarrow> bt_ok (bt_join_all j xs m)"
  by (induction xs arbitrary: m) (auto simp: bt_join_all_def split: prod.splits)

lemma bt_get_join_all_None:
  "bt_get (bt_join_all j xs []) k = None \<longleftrightarrow> k \<notin> fst ` set xs"
proof (induction xs rule: rev_induct)
  case (snoc x xs)
  then show ?case by (cases x) (auto simp: bt_get_upsert bt_ok_join_all split: if_splits)
qed simp

locale join_map =
  fixes join :: "'v \<Rightarrow> 'v \<Rightarrow> 'v"
  assumes join_assoc: "join (join a b) c = join a (join b c)"
    and join_comm: "join a b = join b a"
    and join_idem: "join a a = a"
begin

text \<open>The slot of a key is the least upper bound of the key's contributions.\<close>

lemma slot_is_lub:
  "bt_get (bt_join_all join xs []) k = Some v \<Longrightarrow>
     (\<forall>x. (k, x) \<in> set xs \<longrightarrow> join v x = v)
     \<and> (\<forall>u. (\<forall>x. (k, x) \<in> set xs \<longrightarrow> join u x = u) \<longrightarrow> join u v = u)"
proof (induction xs arbitrary: v rule: rev_induct)
  case Nil
  then show ?case by simp
next
  case (snoc p xs)
  obtain k' y where p: "p = (k', y)" by (cases p)
  show ?case
  proof (cases "k' = k")
    case False
    then have get: "bt_get (bt_join_all join xs []) k = Some v"
      using snoc.prems by (simp add: p bt_get_upsert bt_ok_join_all)
    have "(k, x) \<in> set (xs @ [p]) \<longleftrightarrow> (k, x) \<in> set xs" for x
      using False by (simp add: p)
    then show ?thesis using snoc.IH [OF get] by presburger
  next
    case True
    show ?thesis
    proof (cases "bt_get (bt_join_all join xs []) k")
      case None
      then have "\<nexists>x. (k, x) \<in> set xs" by (force simp: bt_get_join_all_None)
      with None snoc.prems True show ?thesis
        by (auto simp: p bt_get_upsert bt_ok_join_all join_idem)
    next
      case (Some w)
      with snoc.prems True have v: "v = join w y"
        by (simp add: p bt_get_upsert bt_ok_join_all)
      have keep: "join (join w y) x = join w y" if "join w x = w" for x
        by (simp only: join_assoc join_comm [of y x]) (simp only: join_assoc [symmetric] that)
      have last: "join (join w y) y = join w y" by (simp add: join_assoc join_idem)
      have least: "join u (join w y) = u" if "join u w = u" "join u y = u" for u
        by (simp only: join_assoc [symmetric] that)
      have mem: "(k, x) \<in> set (xs @ [p]) \<longleftrightarrow> (k, x) \<in> set xs \<or> x = y" for x
        using True by (auto simp: p)
      show ?thesis
        unfolding v mem using snoc.IH [OF Some] keep last least by blast
    qed
  qed
qed

text \<open>The map depends only on the set of contributions, not on their order or multiplicity.\<close>

lemma order_independent:
  assumes "set xs = set ys"
  shows "bt_join_all join xs [] = bt_join_all join ys []"
proof (rule bt_ext)
  fix k
  show "bt_get (bt_join_all join xs []) k = bt_get (bt_join_all join ys []) k"
  proof (cases "bt_get (bt_join_all join xs []) k")
    case None
    then show ?thesis using assms by (metis bt_get_join_all_None)
  next
    case (Some v)
    then obtain w where w: "bt_get (bt_join_all join ys []) k = Some w"
      using assms by (metis bt_get_join_all_None option.exhaust option.distinct(1))
    have "join v w = v" "join w v = w"
      using slot_is_lub [OF Some] slot_is_lub [OF w] assms by auto
    then have "v = w" using join_comm [of v w] by simp
    then show ?thesis using Some w by simp
  qed
qed auto

end

locale select_map = join_map +
  assumes join_select: "join a b = a \<or> join a b = b"
begin

text \<open>The slot is one of the contributions, and it absorbs every other one.\<close>

lemma slot_mem: "bt_get (bt_join_all join xs []) k = Some v \<Longrightarrow> (k, v) \<in> set xs"
proof (induction xs arbitrary: v rule: rev_induct)
  case (snoc p xs)
  obtain k' y where p: "p = (k', y)" by (cases p)
  have "v = y \<or> bt_get (bt_join_all join xs []) k = Some v" if "k' = k"
  proof (cases "bt_get (bt_join_all join xs []) k")
    case None
    then show ?thesis using snoc.prems that by (simp add: p bt_get_upsert bt_ok_join_all)
  next
    case (Some w)
    then have "v = join w y" using snoc.prems that by (simp add: p bt_get_upsert bt_ok_join_all)
    then show ?thesis using Some join_select [of w y] by auto
  qed
  then show ?case
    using snoc.prems snoc.IH by (auto simp: p bt_get_upsert bt_ok_join_all split: if_splits)
qed simp

lemma slot_iff:
  "bt_get (bt_join_all join xs []) k = Some v \<longleftrightarrow>
     (k, v) \<in> set xs \<and> (\<forall>x. (k, x) \<in> set xs \<longrightarrow> join v x = v)"
proof
  assume "bt_get (bt_join_all join xs []) k = Some v"
  from slot_mem [OF this] slot_is_lub [OF this]
  show "(k, v) \<in> set xs \<and> (\<forall>x. (k, x) \<in> set xs \<longrightarrow> join v x = v)" by simp
next
  assume v: "(k, v) \<in> set xs \<and> (\<forall>x. (k, x) \<in> set xs \<longrightarrow> join v x = v)"
  then have "bt_get (bt_join_all join xs []) k \<noteq> None"
    by (metis bt_get_join_all_None image_eqI fst_conv)
  then obtain w where w: "bt_get (bt_join_all join xs []) k = Some w" by blast
  then have "join w v = w" "join v w = v" using v slot_mem [OF w] slot_is_lub [OF w] by auto
  then have "w = v" using join_comm [of w v] by simp
  with w show "bt_get (bt_join_all join xs []) k = Some v" by simp
qed

end

text \<open>Joins obtained from a linear order by an injective rank.\<close>

locale rank_map =
  fixes join :: "'v \<Rightarrow> 'v \<Rightarrow> 'v" and rank :: "'v \<Rightarrow> 'r::linorder"
  assumes rank_join: "rank (join a b) = max (rank a) (rank b)"
    and rank_inj: "rank a = rank b \<Longrightarrow> a = b"

sublocale rank_map \<subseteq> select_map join
proof
  show "join (join a b) c = join a (join b c)" for a b c
    by (rule rank_inj) (simp add: rank_join max.assoc)
  show "join a b = join b a" for a b
    by (rule rank_inj) (simp add: rank_join max.commute)
  show "join a a = a" for a
    by (rule rank_inj) (simp add: rank_join)
  show "join a b = a \<or> join a b = b" for a b
    using rank_inj [of "join a b" a] rank_inj [of "join a b" b] rank_join [of a b]
    by (auto simp: max_def split: if_splits)
qed

context rank_map
begin

lemma slot_max:
  "bt_get (bt_join_all join xs []) k = Some v \<longleftrightarrow>
     (k, v) \<in> set xs \<and> (\<forall>x. (k, x) \<in> set xs \<longrightarrow> rank x \<le> rank v)"
proof -
  have "join v x = v \<longleftrightarrow> rank x \<le> rank v" for x
    using rank_join [of v x] rank_inj [of "join v x" v] by (auto simp: max_def split: if_splits)
  then show ?thesis by (simp add: slot_iff)
qed

end

end
