(* ===== verification/Storage_Base.thy ===== *)
theory Storage_Base
  imports Rust_Text Ordered_Map
begin

text \<open>
  What every component of \<open>roam-storage\<close> shares: the error type (\<open>error.rs\<close>; an error keeps its
  variant and the peer id it carries, the text of its message is not modelled), the kinds of
  \<open>std::io::Error\<close> the sources distinguish, the result type, and the two ways the sources chain
  fallible calls: \<open>bind_r\<close> for pure code and \<open>bindE\<close> for code that also changes a state, which
  keeps the state reached when an error is returned.
\<close>

datatype io_kind =
    NotFound | AlreadyExists | InvalidInput | InvalidData | StorageFull | Other

datatype storage_error =
    Io io_kind
  | Json
  | Base64
  | MalformedIdentity
  | MalformedEntry
  | BadSignature peer
  | Peer
  | Blob
  | Crdt
  | Keywrap
  | Invalid

type_synonym ('e, 'a) res = "'e + 'a"
type_synonym ('s, 'e, 'a) op = "'s \<Rightarrow> ('e, 'a) res \<times> 's"

section \<open>Chaining fallible calls\<close>

text \<open>The \<open>?\<close> operator on a pure result.\<close>

definition bind_r :: "('e, 'a) res \<Rightarrow> ('a \<Rightarrow> ('e, 'b) res) \<Rightarrow> ('e, 'b) res" where
  "bind_r r f = (case r of Inl e \<Rightarrow> Inl e | Inr a \<Rightarrow> f a)"

definition ok_or :: "'e \<Rightarrow> 'a option \<Rightarrow> ('e, 'a) res" where
  "ok_or e x = (case x of None \<Rightarrow> Inl e | Some a \<Rightarrow> Inr a)"

definition map_err :: "('e \<Rightarrow> 'f) \<Rightarrow> ('e, 'a) res \<Rightarrow> ('f, 'a) res" where
  "map_err g r = (case r of Inl e \<Rightarrow> Inl (g e) | Inr a \<Rightarrow> Inr a)"

text \<open>The \<open>?\<close> operator on a call that changes the state.\<close>

definition bindE :: "('s, 'e, 'a) op \<Rightarrow> ('a \<Rightarrow> ('s, 'e, 'b) op) \<Rightarrow> ('s, 'e, 'b) op" where
  "bindE m f s = (case m s of (Inl e, s') \<Rightarrow> (Inl e, s') | (Inr a, s') \<Rightarrow> f a s')"

definition returnE :: "'a \<Rightarrow> ('s, 'e, 'a) op" where
  "returnE a s = (Inr a, s)"

definition failE :: "'e \<Rightarrow> ('s, 'e, 'a) op" where
  "failE e s = (Inl e, s)"

definition liftE :: "('e, 'a) res \<Rightarrow> ('s, 'e, 'a) op" where
  "liftE r s = (r, s)"

definition errE :: "('e \<Rightarrow> 'f) \<Rightarrow> ('s, 'e, 'a) op \<Rightarrow> ('s, 'f, 'a) op" where
  "errE g m s = (case m s of (r, s') \<Rightarrow> (map_err g r, s'))"

fun eachE :: "('a \<Rightarrow> ('s, 'e, unit) op) \<Rightarrow> 'a list \<Rightarrow> ('s, 'e, unit) op" where
  "eachE f [] = returnE ()"
| "eachE f (x # xs) = bindE (f x) (\<lambda>_. eachE f xs)"

lemma bind_r_simps [simp, result_simps]:
  "bind_r (Inl e) f = Inl e" "bind_r (Inr a) f = f a"
  by (simp_all add: bind_r_def)

lemma bind_r_Inr_iff: "bind_r r f = Inr b \<longleftrightarrow> (\<exists>a. r = Inr a \<and> f a = Inr b)"
  by (cases r) auto

lemma ok_or_simps [simp, result_simps]:
  "ok_or e None = Inl e" "ok_or e (Some a) = Inr a"
  by (simp_all add: ok_or_def)

lemma ok_or_Inr_iff [simp]: "ok_or e x = Inr a \<longleftrightarrow> x = Some a"
  by (cases x) auto

lemma map_err_simps [simp, result_simps]:
  "map_err g (Inl e) = Inl (g e)" "map_err g (Inr a) = Inr a"
  by (simp_all add: map_err_def)

lemma map_err_Inr_iff [simp]: "map_err g r = Inr a \<longleftrightarrow> r = Inr a"
  by (cases r) auto

lemma op_simps [simp, result_simps]:
  "returnE a s = (Inr a, s)" "failE e s = (Inl e, s)" "liftE r s = (r, s)"
  "m s = (Inr a, s') \<Longrightarrow> bindE m f s = f a s'"
  "m s = (Inl e, s') \<Longrightarrow> bindE m f s = (Inl e, s')"
  "m s = (r, s') \<Longrightarrow> errE g m s = (map_err g r, s')"
  by (simp_all add: returnE_def failE_def liftE_def bindE_def errE_def)

lemma bindE_Inr_iff:
  "bindE m f s = (Inr b, s'') \<longleftrightarrow> (\<exists>a s'. m s = (Inr a, s') \<and> f a s' = (Inr b, s''))"
  by (auto simp: bindE_def split: prod.splits sum.splits)

lemma bindE_cong_state: "m s = m' s \<Longrightarrow> bindE m f s = bindE m' f s"
  by (simp add: bindE_def)

end
