(* ===== verification/Paths.thy ===== *)
theory Paths
  imports Storage_Base
begin

text \<open>
  \<open>std::path\<close>: a path is the list of its components (two Rust paths are equal, and ordered, by
  their components), together with its string form. On the target platforms a path separator is
  a slash and there are no prefixes.
\<close>

datatype component = RootDir | CurDir | ParentDir | Normal ustr

type_synonym path = "component list"

text \<open>The derived order of \<open>Component\<close>.\<close>

fun comp_key :: "component \<Rightarrow> nat \<times> nat list" where
  "comp_key RootDir = (0, [])"
| "comp_key CurDir = (1, [])"
| "comp_key ParentDir = (2, [])"
| "comp_key (Normal s) = (3, s)"

lemma comp_key_inj: "comp_key a = comp_key b \<Longrightarrow> a = b"
  by (cases a; cases b) auto

instantiation component :: linorder
begin

definition less_eq_component :: "component \<Rightarrow> component \<Rightarrow> bool" where
  "less_eq_component a b \<longleftrightarrow> comp_key a \<le> comp_key b"

definition less_component :: "component \<Rightarrow> component \<Rightarrow> bool" where
  "less_component a b \<longleftrightarrow> comp_key a < comp_key b"

instance
  by standard (auto simp: less_eq_component_def less_component_def less_le_not_le
      intro: comp_key_inj)

end

definition slash :: uchar where "slash = 47"
definition dot :: uchar where "dot = 46"

fun comp_str :: "component \<Rightarrow> ustr" where
  "comp_str RootDir = []"
| "comp_str CurDir = [dot]"
| "comp_str ParentDir = [dot, dot]"
| "comp_str (Normal s) = s"

fun path_to_str :: "path \<Rightarrow> ustr" where
  "path_to_str (RootDir # p) = slash # str_join [slash] (map comp_str p)"
| "path_to_str p = str_join [slash] (map comp_str p)"

fun comps_of :: "bool \<Rightarrow> ustr list \<Rightarrow> path" where
  "comps_of b [] = []"
| "comps_of b (p # ps) =
     (if p = [] then [] else if p = [dot] then (if b then [CurDir] else [])
      else if p = [dot, dot] then [ParentDir] else [Normal p]) @ comps_of False ps"

definition path_of_str :: "ustr \<Rightarrow> path" where
  "path_of_str s =
     (if s = [] then []
      else if hd s = slash then RootDir # comps_of False (str_split slash (tl s))
      else comps_of True (str_split slash s))"

text \<open>\<open>PathBuf::push\<close> of one component, \<open>Path::join\<close>, \<open>strip_prefix\<close>, \<open>parent\<close>.\<close>

definition path_push :: "path \<Rightarrow> component \<Rightarrow> path" where
  "path_push p c = (if c = RootDir then [RootDir] else if c = CurDir \<and> p \<noteq> [] then p else p @ [c])"

definition path_join :: "path \<Rightarrow> path \<Rightarrow> path" where
  "path_join p q = fold (\<lambda>c p. path_push p c) q p"

fun strip_prefix :: "path \<Rightarrow> path \<Rightarrow> path option" where
  "strip_prefix [] p = Some p"
| "strip_prefix (b # bs) [] = None"
| "strip_prefix (b # bs) (c # cs) = (if b = c then strip_prefix bs cs else None)"

definition path_parent :: "path \<Rightarrow> path option" where
  "path_parent p = (if p = [] \<or> last p = RootDir then None else Some (butlast p))"

text \<open>Component lists that a Rust path can have.\<close>

fun comp_ok :: "component \<Rightarrow> bool" where
  "comp_ok RootDir = False"
| "comp_ok CurDir = False"
| "comp_ok ParentDir = True"
| "comp_ok (Normal s) \<longleftrightarrow> s \<noteq> [] \<and> slash \<notin> set s \<and> s \<noteq> [dot] \<and> s \<noteq> [dot, dot] \<and> valid_str s"

definition path_ok :: "path \<Rightarrow> bool" where
  "path_ok p \<longleftrightarrow> (case p of [] \<Rightarrow> True | c # cs \<Rightarrow> (c = RootDir \<or> c = CurDir \<or> comp_ok c) \<and> list_all comp_ok cs)"

lemma strip_prefix_Some: "strip_prefix b p = Some r \<longleftrightarrow> p = b @ r"
  by (induction b p rule: strip_prefix.induct) auto

lemma comp_str_no_slash: "comp_ok c \<or> c = CurDir \<Longrightarrow> slash \<notin> set (comp_str c) \<and> comp_str c \<noteq> []"
  by (cases c) (auto simp: slash_def dot_def)

lemma comps_of_strs: "list_all comp_ok cs \<Longrightarrow> comps_of b (map comp_str cs) = cs"
proof (induction cs arbitrary: b)
  case (Cons c cs)
  then show ?case by (cases c) auto
qed simp

lemma split_strs:
  assumes "list_all (\<lambda>c. comp_ok c \<or> c = CurDir) cs" "cs \<noteq> []"
  shows "str_split slash (str_join [slash] (map comp_str cs)) = map comp_str cs"
  by (rule str_split_join) (use assms comp_str_no_slash in \<open>auto simp: list_all_iff\<close>)

lemma str_join_Cons_hd: "p \<noteq> [] \<Longrightarrow> str_join sep (p # ps) \<noteq> [] \<and> hd (str_join sep (p # ps)) = hd p"
  by (cases ps) auto

text \<open>The string form determines the path.\<close>

lemma path_of_to_str [simp]:
  assumes "path_ok p"
  shows "path_of_str (path_to_str p) = p"
proof (cases p)
  case Nil
  then show ?thesis by (simp add: path_of_str_def)
next
  case (Cons c cs)
  have cs: "list_all comp_ok cs" using assms by (simp add: path_ok_def Cons)
  show ?thesis
  proof (cases "c = RootDir")
    case True
    have "str_split slash [] = [[]]" by (simp add: str_split_def)
    then show ?thesis
      using True cs Cons split_strs [of cs] comps_of_strs [OF cs]
      by (cases "cs = []") (auto simp: path_of_str_def list_all_iff)
  next
    case False
    then have c: "comp_ok c \<or> c = CurDir" using assms by (auto simp: path_ok_def Cons)
    have str: "path_to_str p = str_join [slash] (map comp_str p)" using False Cons by (cases c) auto
    have ne: "comp_str c \<noteq> []" "hd (comp_str c) \<noteq> slash"
      using comp_str_no_slash [OF c] by (auto dest: hd_in_set)
    have "str_split slash (path_to_str p) = map comp_str p"
      unfolding str by (rule split_strs) (use c cs Cons in \<open>auto simp: list_all_iff\<close>)
    moreover have "path_to_str p \<noteq> []" "hd (path_to_str p) \<noteq> slash"
      using str_join_Cons_hd [OF ne(1), of "[slash]" "map comp_str cs"] ne(2) Cons str by auto
    moreover have "comps_of True (map comp_str p) = p"
      using c comps_of_strs [OF cs] comps_of_strs [of p True] Cons cs by (cases c) auto
    ultimately show ?thesis by (simp add: path_of_str_def)
  qed
qed

lemma path_to_str_inj: "path_ok p \<Longrightarrow> path_ok q \<Longrightarrow> path_to_str p = path_to_str q \<Longrightarrow> p = q"
  by (metis path_of_to_str)

lemma path_to_str_empty: "path_ok p \<Longrightarrow> path_to_str p = [] \<longleftrightarrow> p = []"
  by (metis path_of_to_str path_of_str_def path_to_str.simps(2) str_join.simps(1) list.map(1))

lemma valid_str_join: "valid_str sep \<Longrightarrow> \<forall>p \<in> set ps. valid_str p \<Longrightarrow> valid_str (str_join sep ps)"
  by (induction sep ps rule: str_join.induct) auto

lemma valid_path_str: "path_ok p \<Longrightarrow> valid_str (path_to_str p)"
proof -
  have "valid_str (comp_str c)" if "comp_ok c \<or> c = CurDir" for c
    using that by (cases c) (auto simp: scalar_def dot_def)
  moreover have "valid_str [slash]" by (simp add: scalar_def slash_def)
  moreover assume "path_ok p"
  ultimately show ?thesis
    by (cases p rule: path_to_str.cases)
       (auto simp: path_ok_def list_all_iff scalar_def slash_def dot_def intro!: valid_str_join split: list.splits)
qed

lemma path_of_name:
  assumes "n \<noteq> []" "slash \<notin> set n" "n \<noteq> [dot]" "n \<noteq> [dot, dot]"
  shows "path_of_str n = [Normal n]"
proof -
  have "str_split slash n = [n]" using str_split_join [of "[n]" slash] assms(2) by simp
  moreover have "hd n \<noteq> slash" using assms(1,2) by (cases n) auto
  ultimately show ?thesis using assms by (simp add: path_of_str_def)
qed

end
