(* ===== verification/Vfs.thy ===== *)
theory Vfs
  imports Paths
begin

text \<open>
  The file-system seam (\<open>roam-storage/src/vfs.rs\<close>): the trait \<open>VaultFs\<close> as a record of
  operations on a state, the in-memory backend \<open>MemFs\<close>, and the contract a backend promises as
  the locale \<open>lawful_fs\<close>. Offsets and lengths are natural numbers: no sum of them reaches 2 ^ 64
  for a file that fits a disk. The native backend delegates to the operating system and is not
  modelled.
\<close>

section \<open>Byte-file operations\<close>

definition resize :: "nat \<Rightarrow> bytes \<Rightarrow> bytes" where
  "resize n b = take n b @ replicate (n - length b) 0"

definition patch :: "nat \<Rightarrow> bytes \<Rightarrow> bytes \<Rightarrow> bytes" where
  "patch off bs b =
     (let b' = (if off + length bs > length b then resize (off + length bs) b else b) in
      take off b' @ bs @ drop (off + length bs) b')"

definition byte_range :: "nat \<Rightarrow> nat \<Rightarrow> bytes \<Rightarrow> bytes" where
  "byte_range off n b = take n (drop off b)"

lemma length_resize [simp]: "length (resize n b) = n"
  by (simp add: resize_def)

lemma length_patch [simp]: "length (patch off bs b) = max (length b) (off + length bs)"
  by (auto simp: patch_def Let_def)

lemma patch_in_range: "off + length bs \<le> length b \<Longrightarrow> patch off bs b = take off b @ bs @ drop (off + length bs) b"
  by (simp add: patch_def)

lemma patch_at_end: "patch (length b) bs b = b @ bs"
  by (auto simp: patch_def resize_def)

lemma drop_patch: "h \<le> length b \<Longrightarrow> drop h (patch (h + off) bs b) = patch off bs (drop h b)"
  by (auto simp: patch_def Let_def resize_def drop_take min_def ac_simps)

lemma take_patch: "h \<le> length b \<Longrightarrow> take h (patch (h + off) bs b) = take h b"
  by (auto simp: patch_def Let_def resize_def min_def)

section \<open>The trait\<close>

record 's vault_fs =
  fs_read :: "path \<Rightarrow> ('s, io_kind, bytes) op"
  fs_read_range :: "path \<Rightarrow> nat \<Rightarrow> nat \<Rightarrow> ('s, io_kind, bytes) op"
  fs_write :: "path \<Rightarrow> bytes \<Rightarrow> ('s, io_kind, unit) op"
  fs_append :: "path \<Rightarrow> bytes \<Rightarrow> ('s, io_kind, unit) op"
  fs_append_sync :: "path \<Rightarrow> bytes \<Rightarrow> ('s, io_kind, unit) op"
  fs_create_sized :: "path \<Rightarrow> nat \<Rightarrow> ('s, io_kind, unit) op"
  fs_write_range :: "path \<Rightarrow> nat \<Rightarrow> bytes \<Rightarrow> ('s, io_kind, unit) op"
  fs_create_dir_all :: "path \<Rightarrow> ('s, io_kind, unit) op"
  fs_rename :: "path \<Rightarrow> path \<Rightarrow> ('s, io_kind, unit) op"
  fs_remove_file :: "path \<Rightarrow> ('s, io_kind, unit) op"
  fs_read_dir :: "path \<Rightarrow> ('s, io_kind, path list) op"
  fs_file_len :: "path \<Rightarrow> ('s, io_kind, nat) op"
  fs_exists :: "path \<Rightarrow> 's \<Rightarrow> bool"
  fs_is_dir :: "path \<Rightarrow> 's \<Rightarrow> bool"
  fs_set_owner_only :: "path \<Rightarrow> ('s, io_kind, unit) op"

definition read_to_string :: "'s vault_fs \<Rightarrow> path \<Rightarrow> ('s, io_kind, ustr) op" where
  "read_to_string fs p = bindE (fs_read fs p) (\<lambda>b. liftE (ok_or InvalidData (from_utf8 b)))"

section \<open>The in-memory backend\<close>

record mem_state =
  mem_files :: "(path, bytes) btree"
  mem_dirs :: "path list"
  mem_owner_only :: "path list"

definition mem_new :: mem_state where
  "mem_new = \<lparr>mem_files = [], mem_dirs = [], mem_owner_only = []\<rparr>"

definition mem_read :: "path \<Rightarrow> (mem_state, io_kind, bytes) op" where
  "mem_read p s = (ok_or NotFound (bt_get (mem_files s) p), s)"

definition mem_read_range :: "path \<Rightarrow> nat \<Rightarrow> nat \<Rightarrow> (mem_state, io_kind, bytes) op" where
  "mem_read_range p off n s =
     (case bt_get (mem_files s) p of
        None \<Rightarrow> (Inl NotFound, s)
      | Some b \<Rightarrow>
          let start = min off (length b); stop = min (start + n) (length b) in
          (Inr (drop start (take stop b)), s))"

definition mem_write :: "path \<Rightarrow> bytes \<Rightarrow> (mem_state, io_kind, unit) op" where
  "mem_write p b s = (Inr (), s\<lparr>mem_files := bt_insert p b (mem_files s)\<rparr>)"

definition mem_append :: "path \<Rightarrow> bytes \<Rightarrow> (mem_state, io_kind, unit) op" where
  "mem_append p b s = (Inr (), s\<lparr>mem_files := bt_upsert p (\<lambda>o'. o' @ b) ([] @ b) (mem_files s)\<rparr>)"

definition mem_append_sync :: "path \<Rightarrow> bytes \<Rightarrow> (mem_state, io_kind, unit) op" where
  "mem_append_sync p b = mem_append p b"

definition mem_create_sized :: "path \<Rightarrow> nat \<Rightarrow> (mem_state, io_kind, unit) op" where
  "mem_create_sized p n s = (Inr (), s\<lparr>mem_files := bt_insert p (replicate n 0) (mem_files s)\<rparr>)"

definition mem_write_range :: "path \<Rightarrow> nat \<Rightarrow> bytes \<Rightarrow> (mem_state, io_kind, unit) op" where
  "mem_write_range p off bs s =
     (case bt_get (mem_files s) p of
        None \<Rightarrow> (Inl NotFound, s)
      | Some b \<Rightarrow> (Inr (), s\<lparr>mem_files := bt_insert p (patch off bs b) (mem_files s)\<rparr>))"

text \<open>Every prefix of the path becomes a directory.\<close>

definition dir_prefixes :: "path \<Rightarrow> path list" where
  "dir_prefixes p = snd (fold (\<lambda>c (cur, ds). let cur' = path_push cur c in (cur', ds @ [cur'])) p ([], []))"

definition mem_create_dir_all :: "path \<Rightarrow> (mem_state, io_kind, unit) op" where
  "mem_create_dir_all p s = (Inr (), s\<lparr>mem_dirs := fold bs_insert (dir_prefixes p) (mem_dirs s)\<rparr>)"

definition mem_rename :: "path \<Rightarrow> path \<Rightarrow> (mem_state, io_kind, unit) op" where
  "mem_rename from to s =
     (case bt_get (mem_files s) from of
        None \<Rightarrow> (Inl NotFound, s)
      | Some b \<Rightarrow>
          let s' = s\<lparr>mem_files := bt_insert to b (bt_remove from (mem_files s))\<rparr> in
          (Inr (),
           if from \<in> set (mem_owner_only s')
           then s'\<lparr>mem_owner_only := bs_insert to (removeAll from (mem_owner_only s'))\<rparr> else s'))"

definition mem_remove_file :: "path \<Rightarrow> (mem_state, io_kind, unit) op" where
  "mem_remove_file p s =
     (case bt_get (mem_files s) p of
        None \<Rightarrow> (Inl NotFound, s)
      | Some _ \<Rightarrow> (Inr (), s\<lparr>mem_files := bt_remove p (mem_files s)\<rparr>))"

text \<open>The direct children of a directory among the known paths.\<close>

definition child_of :: "path \<Rightarrow> path \<Rightarrow> path option" where
  "child_of d p =
     (case strip_prefix d p of
        Some (c # _) \<Rightarrow> (let child = path_join d [c] in if child \<noteq> d then Some child else None)
      | _ \<Rightarrow> None)"

definition mem_read_dir :: "path \<Rightarrow> (mem_state, io_kind, path list) op" where
  "mem_read_dir d s =
     (if d \<notin> set (mem_dirs s) then (Inl NotFound, s)
      else (Inr (bs_of (List.map_filter (child_of d) (bt_keys (mem_files s) @ mem_dirs s))), s))"

definition mem_file_len :: "path \<Rightarrow> (mem_state, io_kind, nat) op" where
  "mem_file_len p s = (ok_or NotFound (map_option length (bt_get (mem_files s) p)), s)"

definition mem_exists :: "path \<Rightarrow> mem_state \<Rightarrow> bool" where
  "mem_exists p s \<longleftrightarrow> bt_get (mem_files s) p \<noteq> None \<or> p \<in> set (mem_dirs s)"

definition mem_is_dir :: "path \<Rightarrow> mem_state \<Rightarrow> bool" where
  "mem_is_dir p s \<longleftrightarrow> p \<in> set (mem_dirs s)"

definition mem_set_owner_only :: "path \<Rightarrow> (mem_state, io_kind, unit) op" where
  "mem_set_owner_only p s =
     (if bt_get (mem_files s) p = None then (Inl NotFound, s)
      else (Inr (), s\<lparr>mem_owner_only := bs_insert p (mem_owner_only s)\<rparr>))"

definition mem_is_owner_only :: "mem_state \<Rightarrow> path \<Rightarrow> bool" where
  "mem_is_owner_only s p \<longleftrightarrow> p \<in> set (mem_owner_only s)"

definition mem_paths :: "mem_state \<Rightarrow> path list" where
  "mem_paths s = bt_keys (mem_files s)"

definition mem_fs :: "mem_state vault_fs" where
  "mem_fs = \<lparr>fs_read = mem_read, fs_read_range = mem_read_range, fs_write = mem_write,
     fs_append = mem_append, fs_append_sync = mem_append_sync, fs_create_sized = mem_create_sized,
     fs_write_range = mem_write_range, fs_create_dir_all = mem_create_dir_all, fs_rename = mem_rename,
     fs_remove_file = mem_remove_file, fs_read_dir = mem_read_dir, fs_file_len = mem_file_len,
     fs_exists = mem_exists, fs_is_dir = mem_is_dir, fs_set_owner_only = mem_set_owner_only\<rparr>"

lemmas mem_defs = mem_read_def mem_read_range_def mem_write_def mem_append_def mem_append_sync_def
  mem_create_sized_def mem_write_range_def mem_create_dir_all_def mem_rename_def mem_remove_file_def
  mem_read_dir_def mem_file_len_def mem_exists_def mem_is_dir_def mem_set_owner_only_def

section \<open>The contract of a backend\<close>

text \<open>
  A backend stores files (\<open>files\<close>) and directories (\<open>dir\<close>). A write to an acceptable path succeeds
  when the backend has room for it, which it always has for a path that already holds a file.
\<close>

definition ok_step ::
  "('s \<Rightarrow> bool) \<Rightarrow> ('s \<Rightarrow> path \<Rightarrow> bytes option) \<Rightarrow> ('s \<Rightarrow> path \<Rightarrow> bool) \<Rightarrow> ('s, io_kind, unit) op
     \<Rightarrow> 's \<Rightarrow> (path \<Rightarrow> bytes option) \<Rightarrow> (path \<Rightarrow> bool) \<Rightarrow> bool" where
  "ok_step ok files dir m s F D \<longleftrightarrow> (\<exists>s'. m s = (Inr (), s') \<and> ok s' \<and> files s' = F \<and> dir s' = D)"

definition contents :: "bytes option \<Rightarrow> bytes" where
  "contents x = (case x of None \<Rightarrow> [] | Some b \<Rightarrow> b)"

lemma contents_simps [simp]: "contents None = []" "contents (Some b) = b"
  by (simp_all add: contents_def)

text \<open>The mutating calls of the trait, what they do to a backend and what they mean.\<close>

datatype fs_call =
    Write path bytes
  | Append path bytes
  | AppendSync path bytes
  | CreateSized path nat
  | WriteRange path nat bytes
  | CreateDirAll path
  | Rename path path
  | RemoveFile path

fun run_call :: "'s vault_fs \<Rightarrow> fs_call \<Rightarrow> ('s, io_kind, unit) op" where
  "run_call fs (Write p b) = fs_write fs p b"
| "run_call fs (Append p b) = fs_append fs p b"
| "run_call fs (AppendSync p b) = fs_append_sync fs p b"
| "run_call fs (CreateSized p n) = fs_create_sized fs p n"
| "run_call fs (WriteRange p off b) = fs_write_range fs p off b"
| "run_call fs (CreateDirAll p) = fs_create_dir_all fs p"
| "run_call fs (Rename p q) = fs_rename fs p q"
| "run_call fs (RemoveFile p) = fs_remove_file fs p"

fun run_calls :: "'s vault_fs \<Rightarrow> fs_call list \<Rightarrow> 's \<Rightarrow> (io_kind, unit) res list \<times> 's" where
  "run_calls fs [] s = ([], s)"
| "run_calls fs (c # cs) s =
     (let (r, s1) = run_call fs c s; (rs, s2) = run_calls fs cs s1 in (r # rs, s2))"

fun spec_call :: "fs_call \<Rightarrow> (path \<rightharpoonup> bytes) \<Rightarrow> (path \<rightharpoonup> bytes) option" where
  "spec_call (Write p b) F = Some (F(p \<mapsto> b))"
| "spec_call (Append p b) F = Some (F(p \<mapsto> contents (F p) @ b))"
| "spec_call (AppendSync p b) F = Some (F(p \<mapsto> contents (F p) @ b))"
| "spec_call (CreateSized p n) F = Some (F(p \<mapsto> replicate n 0))"
| "spec_call (WriteRange p off bs) F = map_option (\<lambda>b. F(p \<mapsto> patch off bs b)) (F p)"
| "spec_call (CreateDirAll p) F = Some F"
| "spec_call (Rename p q) F = map_option (\<lambda>b. F(p := None, q \<mapsto> b)) (F p)"
| "spec_call (RemoveFile p) F = map_option (\<lambda>b. F(p := None)) (F p)"

fun call_ok :: "(path \<Rightarrow> bool) \<Rightarrow> fs_call \<Rightarrow> bool" where
  "call_ok okp (Rename p q) \<longleftrightarrow> okp q \<and> p \<noteq> q"
| "call_ok okp (Write p b) \<longleftrightarrow> okp p"
| "call_ok okp (Append p b) \<longleftrightarrow> okp p"
| "call_ok okp (AppendSync p b) \<longleftrightarrow> okp p"
| "call_ok okp (CreateSized p n) \<longleftrightarrow> okp p"
| "call_ok okp _ \<longleftrightarrow> True"

locale lawful_fs =
  fixes fs :: "'s vault_fs"
    and ok :: "'s \<Rightarrow> bool"
    and files :: "'s \<Rightarrow> path \<Rightarrow> bytes option"
    and dir :: "'s \<Rightarrow> path \<Rightarrow> bool"
    and okp :: "path \<Rightarrow> bool"
    and room :: "'s \<Rightarrow> path \<Rightarrow> bool"
  assumes read_law: "ok s \<Longrightarrow> fs_read fs p s = (ok_or NotFound (files s p), s)"
    and read_range_law: "ok s \<Longrightarrow> fs_read_range fs p off n s = (ok_or NotFound (map_option (byte_range off n) (files s p)), s)"
    and file_len_law: "ok s \<Longrightarrow> fs_file_len fs p s = (ok_or NotFound (map_option length (files s p)), s)"
    and exists_law: "ok s \<Longrightarrow> fs_exists fs p s \<longleftrightarrow> files s p \<noteq> None \<or> dir s p"
    and write_law: "ok s \<Longrightarrow> okp p \<Longrightarrow> room s p \<Longrightarrow>
      ok_step ok files dir (fs_write fs p b) s ((files s)(p \<mapsto> b)) (dir s)"
    and append_law: "ok s \<Longrightarrow> okp p \<Longrightarrow> room s p \<Longrightarrow>
      ok_step ok files dir (fs_append fs p b) s ((files s)(p \<mapsto> contents (files s p) @ b)) (dir s)"
    and append_sync_law: "ok s \<Longrightarrow> okp p \<Longrightarrow> room s p \<Longrightarrow>
      ok_step ok files dir (fs_append_sync fs p b) s ((files s)(p \<mapsto> contents (files s p) @ b)) (dir s)"
    and create_sized_law: "ok s \<Longrightarrow> okp p \<Longrightarrow> room s p \<Longrightarrow>
      ok_step ok files dir (fs_create_sized fs p n) s ((files s)(p \<mapsto> replicate n 0)) (dir s)"
    and write_range_law: "ok s \<Longrightarrow> files s p = Some b \<Longrightarrow>
      ok_step ok files dir (fs_write_range fs p off bs) s ((files s)(p \<mapsto> patch off bs b)) (dir s)"
    and write_range_missing: "ok s \<Longrightarrow> files s p = None \<Longrightarrow> fs_write_range fs p off bs s = (Inl NotFound, s)"
    and create_dir_all_law: "ok s \<Longrightarrow>
      ok_step ok files dir (fs_create_dir_all fs p) s (files s) (\<lambda>q. dir s q \<or> q \<in> set (dir_prefixes p))"
    and rename_law: "ok s \<Longrightarrow> files s from = Some b \<Longrightarrow> okp to \<Longrightarrow> from \<noteq> to \<Longrightarrow>
      ok_step ok files dir (fs_rename fs from to) s ((files s)(from := None, to \<mapsto> b)) (dir s)"
    and rename_missing: "ok s \<Longrightarrow> files s from = None \<Longrightarrow> fs_rename fs from to s = (Inl NotFound, s)"
    and remove_file_law: "ok s \<Longrightarrow> files s p = Some b \<Longrightarrow>
      ok_step ok files dir (fs_remove_file fs p) s ((files s)(p := None)) (dir s)"
    and remove_missing: "ok s \<Longrightarrow> files s p = None \<Longrightarrow> fs_remove_file fs p s = (Inl NotFound, s)"
    and full: "ok s \<Longrightarrow> okp p \<Longrightarrow> \<not> room s p \<Longrightarrow>
      fs_write fs p b s = (Inl StorageFull, s) \<and> fs_append fs p b s = (Inl StorageFull, s)
      \<and> fs_append_sync fs p b s = (Inl StorageFull, s) \<and> fs_create_sized fs p n s = (Inl StorageFull, s)"
    and room_file: "ok s \<Longrightarrow> files s p \<noteq> None \<Longrightarrow> room s p"
    and room_dirs: "ok s \<Longrightarrow> fs_create_dir_all fs q s = (Inr (), s') \<Longrightarrow> room s p \<Longrightarrow> room s' p"
begin

lemma read_to_string_ok:
  assumes "ok s"
  shows "read_to_string fs p s =
    ((case files s p of None \<Rightarrow> Inl NotFound | Some b \<Rightarrow> ok_or InvalidData (from_utf8 b)), s)"
  using read_law [OF assms, of p] by (cases "files s p") (simp_all add: read_to_string_def)

text \<open>What was written is what is read.\<close>

lemma write_then_read:
  assumes "ok s" "okp p" "room s p"
  shows "\<exists>s'. fs_write fs p b s = (Inr (), s') \<and> ok s' \<and> fs_read fs p s' = (Inr b, s')
    \<and> (\<forall>q. q \<noteq> p \<longrightarrow> fs_read fs q s' = (fst (fs_read fs q s), s'))"
  using write_law [OF assms, of b] assms(1) by (auto simp: ok_step_def read_law)

text \<open>Every call either does what it means, or fails and leaves the files alone.\<close>

lemma call_refines:
  assumes ok: "ok s" and c: "call_ok okp c"
  shows "\<exists>r s'. run_call fs c s = (r, s') \<and> ok s' \<and>
    (case spec_call c (files s) of
       None \<Rightarrow> r = Inl NotFound \<and> files s' = files s
     | Some F \<Rightarrow> (r = Inr () \<and> files s' = F) \<or> (r = Inl StorageFull \<and> files s' = files s))"
proof (cases c)
  case (Write p b)
  then show ?thesis using ok c write_law [of s p b] full [of s p b] by (cases "room s p") (auto simp: ok_step_def)
next
  case (Append p b)
  then show ?thesis using ok c append_law [of s p b] full [of s p b] by (cases "room s p") (auto simp: ok_step_def)
next
  case (AppendSync p b)
  then show ?thesis using ok c append_sync_law [of s p b] full [of s p b] by (cases "room s p") (auto simp: ok_step_def)
next
  case (CreateSized p n)
  then show ?thesis using ok c create_sized_law [of s p n] full [of s p] by (cases "room s p") (auto simp: ok_step_def)
next
  case (WriteRange p off b)
  then show ?thesis
    using ok c write_range_law [of s p _ off b] write_range_missing [of s p off b]
    by (cases "files s p") (auto simp: ok_step_def)
next
  case (CreateDirAll p)
  then show ?thesis using create_dir_all_law [OF ok, of p] by (auto simp: ok_step_def)
next
  case (Rename p q)
  then show ?thesis
    using ok c rename_law [of s p _ q] rename_missing [of s p q] by (cases "files s p") (auto simp: ok_step_def)
next
  case (RemoveFile p)
  then show ?thesis
    using ok remove_file_law [of s p] remove_missing [of s p] by (cases "files s p") (auto simp: ok_step_def)
qed

end

section \<open>The in-memory backend keeps the contract\<close>

definition mem_ok :: "mem_state \<Rightarrow> bool" where
  "mem_ok s \<longleftrightarrow> bt_ok (mem_files s)"

definition mem_file :: "mem_state \<Rightarrow> path \<Rightarrow> bytes option" where
  "mem_file s p = bt_get (mem_files s) p"

lemma set_fold_bs_insert: "set (fold bs_insert xs ys) = set xs \<union> set ys"
  by (induction xs arbitrary: ys) auto

lemma mem_range_eq: "drop (min off (length b)) (take (min (min off (length b) + n) (length b)) b) = byte_range off n b"
  by (cases "off \<le> length b") (auto simp: byte_range_def drop_take min_def)

lemma mem_files_update: "ok_step mem_ok mem_file (\<lambda>s p. p \<in> set (mem_dirs s)) m s F D"
  if "m s = (Inr (), s\<lparr>mem_files := fl\<rparr>)" "bt_ok fl" "bt_get fl = F" "D = (\<lambda>p. p \<in> set (mem_dirs s))"
  using that by (auto simp: ok_step_def mem_ok_def mem_file_def)

lemma mem_rename_step:
  assumes "mem_ok s" "mem_file s from = Some b" "from \<noteq> to"
  shows "ok_step mem_ok mem_file (\<lambda>s p. p \<in> set (mem_dirs s)) (mem_rename from to) s
    ((mem_file s)(from := None, to \<mapsto> b)) (\<lambda>p. p \<in> set (mem_dirs s))"
  using assms
  by (auto simp: ok_step_def mem_ok_def mem_file_def mem_rename_def Let_def btree_simps fun_eq_iff)

interpretation mem: lawful_fs mem_fs mem_ok mem_file "\<lambda>s p. p \<in> set (mem_dirs s)" "\<lambda>_. True" "\<lambda>_ _. True"
proof (unfold_locales, goal_cases)
  case (1 s p) then show ?case by (simp add: mem_fs_def mem_defs mem_file_def)
next
  case (2 s p off n)
  then show ?case
    by (cases "bt_get (mem_files s) p") (simp_all add: mem_fs_def mem_defs mem_file_def Let_def mem_range_eq)
next
  case (3 s p) then show ?case by (simp add: mem_fs_def mem_defs mem_file_def)
next
  case (4 s p) then show ?case by (simp add: mem_fs_def mem_defs mem_file_def)
next
  case (5 s p b)
  then show ?case
    by (intro mem_files_update [where fl = "bt_insert p b (mem_files s)"]) (auto simp: mem_fs_def mem_defs mem_ok_def mem_file_def btree_simps fun_eq_iff)
next
  case (6 s p b)
  then show ?case
    by (intro mem_files_update [where fl = "bt_upsert p (\<lambda>x. x @ b) ([] @ b) (mem_files s)"])
       (auto simp: mem_fs_def mem_defs mem_ok_def mem_file_def btree_simps fun_eq_iff split: option.splits)
next
  case (7 s p b)
  then show ?case
    by (intro mem_files_update [where fl = "bt_upsert p (\<lambda>x. x @ b) ([] @ b) (mem_files s)"])
       (auto simp: mem_fs_def mem_defs mem_ok_def mem_file_def btree_simps fun_eq_iff split: option.splits)
next
  case (8 s p n)
  then show ?case
    by (intro mem_files_update [where fl = "bt_insert p (replicate n 0) (mem_files s)"]) (auto simp: mem_fs_def mem_defs mem_ok_def mem_file_def btree_simps fun_eq_iff)
next
  case (9 s p b off bs)
  then show ?case
    by (intro mem_files_update [where fl = "bt_insert p (patch off bs b) (mem_files s)"]) (auto simp: mem_fs_def mem_defs mem_ok_def mem_file_def btree_simps fun_eq_iff)
next
  case (10 s p off bs) then show ?case by (simp add: mem_fs_def mem_defs mem_file_def)
next
  case (11 s p)
  then show ?case
    by (auto simp: ok_step_def mem_fs_def mem_defs mem_ok_def mem_file_def set_fold_bs_insert fun_eq_iff)
next
  case (12 s src b to) then show ?case using mem_rename_step by (simp add: mem_fs_def)
next
  case (13 s src to) then show ?case by (simp add: mem_fs_def mem_defs mem_file_def)
next
  case (14 s p b)
  then show ?case
    by (intro mem_files_update [where fl = "bt_remove p (mem_files s)"]) (auto simp: mem_fs_def mem_defs mem_ok_def mem_file_def btree_simps fun_eq_iff)
next
  case (15 s p) then show ?case by (simp add: mem_fs_def mem_defs mem_file_def)
qed auto

end
