(* ===== verification/Slot_Pool.thy ===== *)
theory Slot_Pool
  imports Vfs
begin

text \<open>
  The slot pool (\<open>roam-storage/src/vfs_pool.rs\<close>): a \<open>VaultFs\<close> over a fixed set of pre-opened
  backing files. A slot is its byte contents, with the operations the trait \<open>Slot\<close> documents
  (reads stop at the end, growth is zero-filled); I/O failures of a slot are not modelled. The
  theory shows that the pool keeps the contract \<open>lawful_fs\<close>, that every slot is either free or
  holds exactly one file, and that mounting the slots again rebuilds the same path map.
\<close>

section \<open>Slots and headers\<close>

type_synonym slot = bytes

definition slot_read_at :: "nat \<Rightarrow> nat \<Rightarrow> slot \<Rightarrow> bytes" where
  "slot_read_at at n sl = take n (drop at sl)"

definition slot_truncate :: "nat \<Rightarrow> slot \<Rightarrow> slot" where
  "slot_truncate n sl = resize n sl"

definition slot_write_at :: "nat \<Rightarrow> bytes \<Rightarrow> slot \<Rightarrow> slot" where
  "slot_write_at at bs sl = patch at bs sl"

definition HEADER_LEN :: nat where "HEADER_LEN = 1024"
definition MAGIC :: bytes where "MAGIC = ascii ''ROAMSAH1''"
definition FLAG_OWNER_ONLY :: byte where "FLAG_OWNER_ONLY = 1"
definition MAX_NAME :: nat where "MAX_NAME = HEADER_LEN - 11"

record header =
  h_name :: ustr
  h_owner_only :: bool

definition header_default :: header where
  "header_default = \<lparr>h_name = [], h_owner_only = False\<rparr>"

definition header_encode :: "header \<Rightarrow> bytes" where
  "header_encode h =
     (let name = utf8 (h_name h) in
      MAGIC @ [if h_owner_only h then FLAG_OWNER_ONLY else 0] @ u16_to_le (of_nat (length name))
      @ name @ replicate (HEADER_LEN - 11 - length name) 0)"

unbundle bit_operations_syntax

definition header_decode :: "bytes \<Rightarrow> header option" where
  "header_decode b =
     (if length b < 11 \<or> take 8 b \<noteq> MAGIC then None
      else let len = unat (u16_of_le [b ! 9, b ! 10]) in
           if length b < 11 + len then None
           else case from_utf8 (take len (drop 11 b)) of
                  None \<Rightarrow> None
                | Some name \<Rightarrow> Some \<lparr>h_name = name, h_owner_only = (b ! 8) AND FLAG_OWNER_ONLY \<noteq> 0\<rparr>)"


definition read_header :: "slot \<Rightarrow> header" where
  "read_header sl =
     (case header_decode (slot_read_at 0 HEADER_LEN sl) of None \<Rightarrow> header_default | Some h \<Rightarrow> h)"

definition write_header :: "slot \<Rightarrow> header \<Rightarrow> (io_kind, slot) res" where
  "write_header sl h =
     (if str_len (h_name h) > MAX_NAME then Inl InvalidInput
      else Inr (slot_write_at 0 (header_encode h) sl))"

section \<open>The pool\<close>

record pool =
  sp_slots :: "slot list"
  sp_names :: "(path, nat) btree"
  sp_dirs :: "path list"
  sp_free :: "nat list"

text \<open>Mounting: the path map is rebuilt from the headers.\<close>

fun adopt_slots :: "nat \<Rightarrow> slot list \<Rightarrow> (path, nat) btree \<Rightarrow> nat list
    \<Rightarrow> (io_kind, (path, nat) btree \<times> nat list) res" where
  "adopt_slots i [] names free = Inr (names, free)"
| "adopt_slots i (sl # sls) names free =
     (case header_decode (slot_read_at 0 HEADER_LEN sl) of
        Some h \<Rightarrow>
          if h_name h \<noteq> [] then
            if bt_get names (path_of_str (h_name h)) \<noteq> None then Inl InvalidData
            else adopt_slots (Suc i) sls (bt_insert (path_of_str (h_name h)) i names) free
          else adopt_slots (Suc i) sls names (free @ [i])
      | None \<Rightarrow> adopt_slots (Suc i) sls names (free @ [i]))"

definition adopt :: "slot list \<Rightarrow> (io_kind, pool) res" where
  "adopt slots =
     bind_r (adopt_slots 0 slots [] [])
       (\<lambda>(names, free). Inr \<lparr>sp_slots = slots, sp_names = names, sp_dirs = [], sp_free = free\<rparr>)"

definition free_slots :: "pool \<Rightarrow> nat" where "free_slots s = length (sp_free s)"
definition capacity :: "pool \<Rightarrow> nat" where "capacity s = length (sp_slots s)"

definition add_slot :: "slot \<Rightarrow> (pool, io_kind, unit) op" where
  "add_slot sl s =
     (let h = read_header sl;
          i = length (sp_slots s);
          s1 = s\<lparr>sp_slots := sp_slots s @ [sl]\<rparr> in
      if h_name h = [] then (Inr (), s1\<lparr>sp_free := sp_free s1 @ [i]\<rparr>)
      else let s2 = s1\<lparr>sp_names := bt_insert (path_of_str (h_name h)) i (sp_names s1)\<rparr> in
           if bt_get (sp_names s1) (path_of_str (h_name h)) \<noteq> None then (Inl InvalidData, s2)
           else (Inr (), s2))"

definition pool_is_owner_only :: "pool \<Rightarrow> path \<Rightarrow> bool" where
  "pool_is_owner_only s p =
     (case bt_get (sp_names s) p of None \<Rightarrow> False | Some i \<Rightarrow> h_owner_only (read_header (sp_slots s ! i)))"

definition index_of :: "path \<Rightarrow> (pool, io_kind, nat) op" where
  "index_of p s = (ok_or NotFound (bt_get (sp_names s) p), s)"

definition index_or_claim :: "path \<Rightarrow> (pool, io_kind, nat) op" where
  "index_or_claim p s =
     (case bt_get (sp_names s) p of
        Some i \<Rightarrow> (Inr i, s)
      | None \<Rightarrow>
          if sp_free s = [] then (Inl StorageFull, s)
          else let i = last (sp_free s); s1 = s\<lparr>sp_free := butlast (sp_free s)\<rparr> in
               (case write_header (sp_slots s1 ! i) \<lparr>h_name = path_to_str p, h_owner_only = False\<rparr> of
                  Inl e \<Rightarrow> (Inl e, s1\<lparr>sp_free := sp_free s1 @ [i]\<rparr>)
                | Inr sl \<Rightarrow>
                    (Inr i, s1\<lparr>sp_slots := (sp_slots s1)[i := slot_truncate HEADER_LEN sl],
                               sp_names := bt_insert p i (sp_names s1)\<rparr>)))"

definition len_of :: "pool \<Rightarrow> nat \<Rightarrow> nat" where
  "len_of s i = length (sp_slots s ! i) - HEADER_LEN"

definition set_slot :: "nat \<Rightarrow> slot \<Rightarrow> pool \<Rightarrow> pool" where
  "set_slot i sl s = s\<lparr>sp_slots := (sp_slots s)[i := sl]\<rparr>"

section \<open>The trait operations\<close>

definition pool_read :: "path \<Rightarrow> (pool, io_kind, bytes) op" where
  "pool_read p = bindE (index_of p) (\<lambda>i s. (Inr (slot_read_at HEADER_LEN (len_of s i) (sp_slots s ! i)), s))"

definition pool_read_range :: "path \<Rightarrow> nat \<Rightarrow> nat \<Rightarrow> (pool, io_kind, bytes) op" where
  "pool_read_range p off n = bindE (index_of p) (\<lambda>i s.
     let size = len_of s i; start = min off size; want = min n (size - start) in
     (Inr (slot_read_at (HEADER_LEN + start) want (sp_slots s ! i)), s))"

definition pool_write :: "path \<Rightarrow> bytes \<Rightarrow> (pool, io_kind, unit) op" where
  "pool_write p b = bindE (index_or_claim p) (\<lambda>i s.
     (Inr (), set_slot i (slot_write_at HEADER_LEN b (slot_truncate HEADER_LEN (sp_slots s ! i))) s))"

definition pool_append :: "path \<Rightarrow> bytes \<Rightarrow> (pool, io_kind, unit) op" where
  "pool_append p b = bindE (index_or_claim p) (\<lambda>i s.
     let stop = max (length (sp_slots s ! i)) HEADER_LEN in
     (Inr (), set_slot i (slot_write_at stop b (sp_slots s ! i)) s))"

definition pool_append_sync :: "path \<Rightarrow> bytes \<Rightarrow> (pool, io_kind, unit) op" where
  "pool_append_sync p b = bindE (pool_append p b) (\<lambda>_. bindE (index_of p) (\<lambda>i s. (Inr (), s)))"

definition pool_create_sized :: "path \<Rightarrow> nat \<Rightarrow> (pool, io_kind, unit) op" where
  "pool_create_sized p n = bindE (index_or_claim p) (\<lambda>i s.
     (Inr (), set_slot i (slot_truncate (HEADER_LEN + n) (slot_truncate HEADER_LEN (sp_slots s ! i))) s))"

definition pool_write_range :: "path \<Rightarrow> nat \<Rightarrow> bytes \<Rightarrow> (pool, io_kind, unit) op" where
  "pool_write_range p off bs = bindE (index_of p) (\<lambda>i s.
     (Inr (), set_slot i (slot_write_at (HEADER_LEN + off) bs (sp_slots s ! i)) s))"

definition pool_create_dir_all :: "path \<Rightarrow> (pool, io_kind, unit) op" where
  "pool_create_dir_all p s = (Inr (), s\<lparr>sp_dirs := fold bs_insert (dir_prefixes p) (sp_dirs s)\<rparr>)"

text \<open>Clearing a slot's header and contents, and returning it to the pool.\<close>

definition release_slot :: "nat \<Rightarrow> (pool, io_kind, unit) op" where
  "release_slot i s =
     (case write_header (sp_slots s ! i) header_default of
        Inl e \<Rightarrow> (Inl e, s)
      | Inr sl \<Rightarrow> (Inr (), set_slot i (slot_truncate HEADER_LEN sl) s))"

text \<open>Freeing the slot of a displaced destination.\<close>

definition displace :: "path \<Rightarrow> (pool, io_kind, unit) op" where
  "displace to s = (case bt_get (sp_names s) to of
      None \<Rightarrow> (Inr (), s)
    | Some d \<Rightarrow> bindE (release_slot d) (\<lambda>_ s. (Inr (), s\<lparr>sp_free := sp_free s @ [d]\<rparr>))
        (s\<lparr>sp_names := bt_remove to (sp_names s)\<rparr>))"

definition pool_rename :: "path \<Rightarrow> path \<Rightarrow> (pool, io_kind, unit) op" where
  "pool_rename src to = bindE (index_of src) (\<lambda>i.
     bindE (displace to)
       (\<lambda>_ s.
          case write_header (sp_slots s ! i) (read_header (sp_slots s ! i)\<lparr>h_name := path_to_str to\<rparr>) of
            Inl e \<Rightarrow> (Inl e, s)
          | Inr sl \<Rightarrow>
              (Inr (), (set_slot i sl s)\<lparr>sp_names := bt_insert to i (bt_remove src (sp_names s))\<rparr>)))"

definition pool_remove_file :: "path \<Rightarrow> (pool, io_kind, unit) op" where
  "pool_remove_file p = bindE (index_of p) (\<lambda>i. bindE (release_slot i) (\<lambda>_ s.
     (Inr (), s\<lparr>sp_names := bt_remove p (sp_names s), sp_free := sp_free s @ [i]\<rparr>)))"

definition pool_read_dir :: "path \<Rightarrow> (pool, io_kind, path list) op" where
  "pool_read_dir d s =
     (let known = bt_keys (sp_names s) @ sp_dirs s;
          found = (d \<in> set (sp_dirs s) \<or> list_ex (\<lambda>p. case strip_prefix d p of Some (_ # _) \<Rightarrow> True | _ \<Rightarrow> False) known) in
      if \<not> found then (Inl NotFound, s)
      else (Inr (bs_of (List.map_filter (child_of d) known)), s))"

definition pool_file_len :: "path \<Rightarrow> (pool, io_kind, nat) op" where
  "pool_file_len p = bindE (index_of p) (\<lambda>i s. (Inr (len_of s i), s))"

definition pool_exists :: "path \<Rightarrow> pool \<Rightarrow> bool" where
  "pool_exists p s \<longleftrightarrow> bt_get (sp_names s) p \<noteq> None \<or> p \<in> set (sp_dirs s)"

definition pool_is_dir :: "path \<Rightarrow> pool \<Rightarrow> bool" where
  "pool_is_dir d s \<longleftrightarrow> d \<in> set (sp_dirs s)
     \<or> list_ex (\<lambda>p. case strip_prefix d p of Some r \<Rightarrow> r \<noteq> [] | None \<Rightarrow> False) (bt_keys (sp_names s))"

definition pool_set_owner_only :: "path \<Rightarrow> (pool, io_kind, unit) op" where
  "pool_set_owner_only p = bindE (index_of p) (\<lambda>i s.
     case write_header (sp_slots s ! i) (read_header (sp_slots s ! i)\<lparr>h_owner_only := True\<rparr>) of
       Inl e \<Rightarrow> (Inl e, s)
     | Inr sl \<Rightarrow> (Inr (), set_slot i sl s))"

definition pool_fs :: "pool vault_fs" where
  "pool_fs = \<lparr>fs_read = pool_read, fs_read_range = pool_read_range, fs_write = pool_write,
     fs_append = pool_append, fs_append_sync = pool_append_sync, fs_create_sized = pool_create_sized,
     fs_write_range = pool_write_range, fs_create_dir_all = pool_create_dir_all, fs_rename = pool_rename,
     fs_remove_file = pool_remove_file, fs_read_dir = pool_read_dir, fs_file_len = pool_file_len,
     fs_exists = pool_exists, fs_is_dir = pool_is_dir, fs_set_owner_only = pool_set_owner_only\<rparr>"

section \<open>Headers\<close>

lemma header_len_simps [simp]: "length MAGIC = 8" "MAX_NAME = 1013" "HEADER_LEN = 1024"
  by (simp_all add: MAGIC_def MAX_NAME_def HEADER_LEN_def)

lemma length_header_encode: "str_len (h_name h) \<le> MAX_NAME \<Longrightarrow> length (header_encode h) = HEADER_LEN"
  by (simp add: header_encode_def str_len_def Let_def)

text \<open>A header that fits its slot is read back as written.\<close>

lemma header_roundtrip:
  assumes "valid_str (h_name h)" "str_len (h_name h) \<le> MAX_NAME"
  shows "header_decode (header_encode h) = Some h"
proof -
  let ?n = "utf8 (h_name h)"
  define rest where "rest = ?n @ replicate (1013 - length ?n) 0"
  have enc: "header_encode h = MAGIC @ [if h_owner_only h then FLAG_OWNER_ONLY else 0]
      @ u16_to_le (of_nat (length ?n)) @ rest"
    by (simp add: header_encode_def Let_def rest_def)
  have "\<exists>a b. xs = [a, b]" if "length xs = 2" for xs :: bytes
    using that by (cases xs; cases "tl xs") auto
  then obtain a b where ab: "u16_to_le (of_nat (length ?n)) = [a, b]" using length_to_le(3) by blast
  have small: "length ?n < 65536" using assms(2) by (simp add: str_len_def)
  then have len: "unat (u16_of_le [a, b]) = length ?n"
    unfolding ab [symmetric] by (simp add: unat_of_nat)
  have at: "header_encode h ! 8 = (if h_owner_only h then FLAG_OWNER_ONLY else 0)"
    "header_encode h ! 9 = a" "header_encode h ! 10 = b" "take 8 (header_encode h) = MAGIC"
    "drop 11 (header_encode h) = rest"
    by (simp_all add: enc ab nth_append)
  have "from_utf8 (take (length ?n) rest) = Some (h_name h)" using assms(1) by (simp add: rest_def)
  moreover have "11 + length ?n \<le> length (header_encode h)"
    using assms(2) length_header_encode [of h] by (simp add: str_len_def)
  ultimately show ?thesis
    by (simp add: header_decode_def at len Let_def FLAG_OWNER_ONLY_def)
qed

lemma slot_read_head [simp]: "slot_read_at 0 n sl = take n sl"
  by (simp add: slot_read_at_def)

lemma write_header_ok:
  assumes "str_len (h_name h) \<le> MAX_NAME"
  shows "\<exists>sl'. write_header sl h = Inr sl' \<and> take HEADER_LEN sl' = header_encode h
     \<and> HEADER_LEN \<le> length sl' \<and> drop HEADER_LEN sl' = drop HEADER_LEN sl"
  using assms length_header_encode [OF assms]
  by (auto simp: write_header_def slot_write_at_def patch_def Let_def resize_def)

section \<open>The invariant\<close>

text \<open>Paths a slot can name.\<close>

definition pool_path :: "path \<Rightarrow> bool" where
  "pool_path p \<longleftrightarrow> path_ok p \<and> p \<noteq> [] \<and> str_len (path_to_str p) \<le> MAX_NAME"

definition names_slot :: "slot \<Rightarrow> path \<Rightarrow> bool" where
  "names_slot sl p \<longleftrightarrow> pool_path p \<and> HEADER_LEN \<le> length sl
     \<and> (\<exists>h. header_decode (take HEADER_LEN sl) = Some h \<and> h_name h = path_to_str p)"

definition free_slot :: "slot \<Rightarrow> bool" where
  "free_slot sl \<longleftrightarrow> (case header_decode (take HEADER_LEN sl) of None \<Rightarrow> True | Some h \<Rightarrow> h_name h = [])"

definition pool_ok :: "pool \<Rightarrow> bool" where
  "pool_ok s \<longleftrightarrow>
     bt_ok (sp_names s) \<and> distinct (sp_free s)
     \<and> (\<forall>p i. bt_get (sp_names s) p = Some i \<longrightarrow>
           i < length (sp_slots s) \<and> i \<notin> set (sp_free s) \<and> names_slot (sp_slots s ! i) p)
     \<and> (\<forall>p q i. bt_get (sp_names s) p = Some i \<and> bt_get (sp_names s) q = Some i \<longrightarrow> p = q)
     \<and> (\<forall>i \<in> set (sp_free s). i < length (sp_slots s) \<and> free_slot (sp_slots s ! i))
     \<and> (\<forall>i < length (sp_slots s). i \<in> set (sp_free s) \<or> (\<exists>p. bt_get (sp_names s) p = Some i))"

definition pool_file :: "pool \<Rightarrow> path \<Rightarrow> bytes option" where
  "pool_file s p = map_option (\<lambda>i. drop HEADER_LEN (sp_slots s ! i)) (bt_get (sp_names s) p)"

definition pool_dir :: "pool \<Rightarrow> path \<Rightarrow> bool" where
  "pool_dir s p \<longleftrightarrow> p \<in> set (sp_dirs s)"

definition pool_room :: "pool \<Rightarrow> path \<Rightarrow> bool" where
  "pool_room s p \<longleftrightarrow> bt_get (sp_names s) p \<noteq> None \<or> sp_free s \<noteq> []"

lemma pool_okD:
  assumes "pool_ok s" "bt_get (sp_names s) p = Some i"
  shows "i < length (sp_slots s)" "i \<notin> set (sp_free s)" "names_slot (sp_slots s ! i) p"
  using assms by (auto simp: pool_ok_def)

text \<open>Replacing the data of a named slot.\<close>

lemma set_slot_data:
  assumes ok: "pool_ok s" and i: "bt_get (sp_names s) p = Some i"
    and sl: "take HEADER_LEN sl = take HEADER_LEN (sp_slots s ! i)" "HEADER_LEN \<le> length sl"
  shows "pool_ok (set_slot i sl s) \<and> pool_file (set_slot i sl s) = (pool_file s)(p \<mapsto> drop HEADER_LEN sl)
    \<and> pool_dir (set_slot i sl s) = pool_dir s"
proof -
  note d = pool_okD [OF ok i]
  have other: "j \<noteq> i" if "bt_get (sp_names s) q = Some j" "q \<noteq> p" for q j
    using ok i that unfolding pool_ok_def by metis
  have named: "names_slot ((sp_slots s)[i := sl] ! j) q" if "bt_get (sp_names s) q = Some j" for q j
    using pool_okD(3) [OF ok that] sl d(1) by (cases "j = i") (auto simp: names_slot_def)
  have "(sp_slots s)[i := sl] ! j = sp_slots s ! j" if "j \<in> set (sp_free s)" for j
    using that d(2) by (metis nth_list_update_neq)
  then have "pool_ok (set_slot i sl s)"
    using ok named unfolding pool_ok_def by (simp add: set_slot_def)
  moreover have "pool_file (set_slot i sl s) q = ((pool_file s)(p \<mapsto> drop HEADER_LEN sl)) q" for q
    using i d(1) other [of q] by (cases "bt_get (sp_names s) q") (auto simp: pool_file_def set_slot_def)
  ultimately show ?thesis by (auto simp: pool_dir_def set_slot_def fun_eq_iff)
qed

text \<open>Claiming a slot for a new path.\<close>

lemma claim_new:
  assumes ok: "pool_ok s" and p: "pool_path p" "bt_get (sp_names s) p = None" and free: "sp_free s \<noteq> []"
  shows "\<exists>i s'. index_or_claim p s = (Inr i, s') \<and> pool_ok s' \<and> bt_get (sp_names s') p = Some i
    \<and> pool_file s' = (pool_file s)(p \<mapsto> []) \<and> pool_dir s' = pool_dir s"
proof -
  let ?i = "last (sp_free s)" and ?h = "\<lparr>h_name = path_to_str p, h_owner_only = False\<rparr>"
  have h: "valid_str (h_name ?h)" "str_len (h_name ?h) \<le> MAX_NAME"
    using p(1) valid_path_str by (auto simp: pool_path_def)
  obtain sl where sl: "write_header (sp_slots s ! ?i) ?h = Inr sl" "take HEADER_LEN sl = header_encode ?h"
    "HEADER_LEN \<le> length sl"
    using write_header_ok [OF h(2)] by blast
  define s' where "s' = s\<lparr>sp_free := butlast (sp_free s), sp_slots := (sp_slots s)[?i := take HEADER_LEN sl],
    sp_names := bt_insert p ?i (sp_names s)\<rparr>"
  have claim: "index_or_claim p s = (Inr ?i, s')"
    using p(2) free sl by (simp add: index_or_claim_def s'_def slot_truncate_def resize_def Let_def)
  have i: "?i < length (sp_slots s)" "?i \<in> set (sp_free s)" "?i \<notin> set (butlast (sp_free s))"
    using ok free by (auto simp: pool_ok_def) (metis append_butlast_last_id distinct_append disjoint_iff list.set_intros(1))
  have free': "set (sp_free s) = insert ?i (set (butlast (sp_free s)))"
    using free by (metis append_butlast_last_id list.simps(15) set_append Un_insert_right sup_bot_right list.set(1))
  have used: "j \<noteq> ?i" if "bt_get (sp_names s) q = Some j" for q j
    using pool_okD(2) [OF ok that] i(2) by auto
  have new: "names_slot (take HEADER_LEN sl) p"
    using sl(2) length_header_encode [OF h(2)] header_roundtrip [OF h] p(1) by (auto simp: names_slot_def)
  have bt: "bt_ok (sp_names s)" and dist: "distinct (sp_free s)" using ok by (simp_all add: pool_ok_def)
  have get': "bt_get (sp_names s') q = (if q = p then Some ?i else bt_get (sp_names s) q)" for q
    by (simp add: s'_def bt_get_insert bt)
  have "pool_ok s'"
    unfolding pool_ok_def get'
  proof (intro conjI allI impI ballI)
    show "bt_ok (sp_names s')" "distinct (sp_free s')" using bt dist by (auto simp: s'_def distinct_butlast)
  next
    fix q j assume j: "(if q = p then Some ?i else bt_get (sp_names s) q) = Some j"
    show "j < length (sp_slots s')" "j \<notin> set (sp_free s')" "names_slot (sp_slots s' ! j) q"
      using j i new pool_okD [OF ok, of q j] used [of q j] free'
      by (auto simp: s'_def split: if_splits)
  next
    fix q r j assume "(if q = p then Some ?i else bt_get (sp_names s) q) = Some j
      \<and> (if r = p then Some ?i else bt_get (sp_names s) r) = Some j"
    then show "q = r" using ok used unfolding pool_ok_def by (auto split: if_splits)
  next
    fix j assume "j \<in> set (sp_free s')"
    then show "j < length (sp_slots s')" "free_slot (sp_slots s' ! j)"
      using ok i(3) free' by (auto simp: s'_def pool_ok_def nth_list_update)
  next
    fix j assume "j < length (sp_slots s')"
    then consider "j = ?i" | "j \<in> set (sp_free s')" | q where "bt_get (sp_names s) q = Some j"
      using ok free' by (auto simp: s'_def pool_ok_def)
    then show "j \<in> set (sp_free s') \<or> (\<exists>q. (if q = p then Some ?i else bt_get (sp_names s) q) = Some j)"
    proof cases
      case 1
      then have "(if p = p then Some ?i else bt_get (sp_names s) p) = Some j" by simp
      then show ?thesis by blast
    next
      case (3 q)
      then have "(if q = p then Some ?i else bt_get (sp_names s) q) = Some j" using p(2) by auto
      then show ?thesis by blast
    qed simp
  qed
  moreover have "pool_file s' q = ((pool_file s)(p \<mapsto> [])) q" for q
    using i(1) used [of q] by (cases "bt_get (sp_names s) q") (auto simp: pool_file_def get', auto simp: s'_def)
  moreover have "pool_dir s' = pool_dir s" by (simp add: pool_dir_def s'_def fun_eq_iff)
  ultimately show ?thesis
    using claim get' [of p] by (intro exI [of _ ?i] exI [of _ s']) (simp add: fun_eq_iff)
qed

lemma claim:
  assumes "pool_ok s" "pool_path p" "pool_room s p"
  shows "\<exists>i s'. index_or_claim p s = (Inr i, s') \<and> pool_ok s' \<and> bt_get (sp_names s') p = Some i
    \<and> pool_file s' = (pool_file s)(p \<mapsto> contents (pool_file s p)) \<and> pool_dir s' = pool_dir s"
proof (cases "bt_get (sp_names s) p")
  case None
  then show ?thesis using claim_new [OF assms(1,2) None] assms(3) by (auto simp: pool_room_def pool_file_def)
next
  case (Some i)
  then show ?thesis using assms(1) by (auto simp: index_or_claim_def pool_file_def fun_eq_iff)
qed

text \<open>Giving up the slot of a path.\<close>

definition drop_file :: "path \<Rightarrow> nat \<Rightarrow> slot \<Rightarrow> pool \<Rightarrow> pool" where
  "drop_file p i sl s = s\<lparr>sp_slots := (sp_slots s)[i := sl], sp_names := bt_remove p (sp_names s),
     sp_free := sp_free s @ [i]\<rparr>"

lemma release_slot_eq:
  "\<exists>sl. release_slot i s = (Inr (), set_slot i sl s) \<and> free_slot sl \<and> length sl = HEADER_LEN"
proof -
  have h: "valid_str (h_name header_default)" "str_len (h_name header_default) \<le> MAX_NAME"
    by (simp_all add: header_default_def str_len_def)
  obtain sl where sl: "write_header (sp_slots s ! i) header_default = Inr sl"
    "take HEADER_LEN sl = header_encode header_default" "HEADER_LEN \<le> length sl"
    using write_header_ok [OF h(2)] by blast
  then have "release_slot i s = (Inr (), set_slot i (take HEADER_LEN sl) s)"
    by (simp add: release_slot_def slot_truncate_def resize_def)
  moreover have "free_slot (take HEADER_LEN sl)"
    using sl(2) length_header_encode [OF h(2)] header_roundtrip [OF h] by (simp add: free_slot_def header_default_def)
  moreover have "length (take HEADER_LEN sl) = HEADER_LEN" using sl(3) by simp
  ultimately show ?thesis by blast
qed

lemma drop_file_ok:
  assumes ok: "pool_ok s" and i: "bt_get (sp_names s) p = Some i" and sl: "free_slot sl"
  shows "pool_ok (drop_file p i sl s) \<and> pool_file (drop_file p i sl s) = (pool_file s)(p := None)
    \<and> pool_dir (drop_file p i sl s) = pool_dir s"
proof -
  let ?s = "drop_file p i sl s"
  note d = pool_okD [OF ok i]
  have get: "bt_get (sp_names ?s) q = (if q = p then None else bt_get (sp_names s) q)" for q
    by (simp add: drop_file_def bt_get_remove)
  have other: "j \<noteq> i" if "bt_get (sp_names s) q = Some j" "q \<noteq> p" for q j
    using ok i that unfolding pool_ok_def by metis
  have slots: "sp_slots ?s ! j = (if j = i then sl else sp_slots s ! j)" "length (sp_slots ?s) = length (sp_slots s)"
    "set (sp_free ?s) = insert i (set (sp_free s))" for j
    using d(1) by (auto simp: drop_file_def)
  have "pool_ok ?s"
    unfolding pool_ok_def get slots
  proof (intro conjI allI impI ballI)
    show "bt_ok (sp_names ?s)" "distinct (sp_free ?s)"
      using ok d(2) by (auto simp: drop_file_def pool_ok_def bt_ok_remove)
  next
    fix q j assume "(if q = p then None else bt_get (sp_names s) q) = Some j"
    then show "j < length (sp_slots s)" "j \<notin> insert i (set (sp_free s))"
      "names_slot (if j = i then sl else sp_slots s ! j) q"
      using pool_okD [OF ok, of q j] other [of q j] by (auto split: if_splits)
  next
    fix q r j assume "(if q = p then None else bt_get (sp_names s) q) = Some j
      \<and> (if r = p then None else bt_get (sp_names s) r) = Some j"
    then show "q = r" using ok unfolding pool_ok_def by (auto split: if_splits)
  next
    fix j assume "j \<in> insert i (set (sp_free s))"
    then show "j < length (sp_slots s)" "free_slot (if j = i then sl else sp_slots s ! j)"
      using ok d(1) sl by (auto simp: pool_ok_def)
  next
    fix j assume "j < length (sp_slots s)"
    then consider "j \<in> set (sp_free s)" | q where "bt_get (sp_names s) q = Some j" using ok by (auto simp: pool_ok_def)
    then show "j \<in> insert i (set (sp_free s)) \<or> (\<exists>q. (if q = p then None else bt_get (sp_names s) q) = Some j)"
    proof cases
      case (2 q)
      have "j = i \<or> (if q = p then None else bt_get (sp_names s) q) = Some j" using 2 i by auto
      then show ?thesis by blast
    qed simp
  qed
  moreover have "pool_file ?s q = ((pool_file s)(p := None)) q" for q
    using other [of q] by (cases "bt_get (sp_names s) q") (auto simp: pool_file_def get slots)
  ultimately show ?thesis by (auto simp: fun_eq_iff pool_dir_def drop_file_def)
qed

text \<open>Renaming in place: only the header changes.\<close>

lemma rename_slot:
  assumes ok: "pool_ok s" and i: "bt_get (sp_names s) src = Some i" and to: "bt_get (sp_names s) to = None" "pool_path to"
    and sl: "take HEADER_LEN sl = header_encode h" "h_name h = path_to_str to" "HEADER_LEN \<le> length sl"
      "drop HEADER_LEN sl = drop HEADER_LEN (sp_slots s ! i)"
    and s': "s' = (set_slot i sl s)\<lparr>sp_names := bt_insert to i (bt_remove src (sp_names s))\<rparr>"
  shows "pool_ok s' \<and> pool_file s' = (pool_file s)(src := None, to \<mapsto> drop HEADER_LEN (sp_slots s ! i))
    \<and> pool_dir s' = pool_dir s"
proof -
  note d = pool_okD [OF ok i]
  have ne: "src \<noteq> to" using i to by auto
  have bt: "bt_ok (sp_names s)" using ok by (simp add: pool_ok_def)
  have get: "bt_get (sp_names s') q = (if q = to then Some i else if q = src then None else bt_get (sp_names s) q)" for q
    by (simp add: s' bt_get_insert bt_get_remove bt bt_ok_remove)
  have other: "j \<noteq> i" if "bt_get (sp_names s) q = Some j" "q \<noteq> src" for q j
    using ok i that unfolding pool_ok_def by metis
  have slots: "sp_slots s' ! j = (if j = i then sl else sp_slots s ! j)" "length (sp_slots s') = length (sp_slots s)"
    "sp_free s' = sp_free s" for j
    using d(1) by (auto simp: s' set_slot_def)
  have named: "names_slot sl to"
    using to(2) sl header_roundtrip [of h] valid_path_str [of to]
    by (auto simp: names_slot_def pool_path_def)
  have "pool_ok s'"
    unfolding pool_ok_def get slots
  proof (intro conjI allI impI ballI)
    show "bt_ok (sp_names s')" "distinct (sp_free s)"
      using ok by (auto simp: s' pool_ok_def bt_ok_remove bt_ok_insert)
  next
    fix q j assume "(if q = to then Some i else if q = src then None else bt_get (sp_names s) q) = Some j"
    then show "j < length (sp_slots s)" "j \<notin> set (sp_free s)" "names_slot (if j = i then sl else sp_slots s ! j) q"
      using pool_okD [OF ok, of q j] other [of q j] d named by (auto split: if_splits)
  next
    fix q r j assume "(if q = to then Some i else if q = src then None else bt_get (sp_names s) q) = Some j
      \<and> (if r = to then Some i else if r = src then None else bt_get (sp_names s) r) = Some j"
    then show "q = r" using ok other unfolding pool_ok_def by (auto split: if_splits)
  next
    fix j assume "j \<in> set (sp_free s)"
    then show "j < length (sp_slots s)" "free_slot (if j = i then sl else sp_slots s ! j)"
      using ok d(2) by (auto simp: pool_ok_def)
  next
    fix j assume "j < length (sp_slots s)"
    then consider "j \<in> set (sp_free s)" | q where "bt_get (sp_names s) q = Some j" using ok by (auto simp: pool_ok_def)
    then show "j \<in> set (sp_free s) \<or>
        (\<exists>q. (if q = to then Some i else if q = src then None else bt_get (sp_names s) q) = Some j)"
    proof cases
      case (2 q)
      have "(if to = to then Some i else if to = src then None else bt_get (sp_names s) to) = Some j \<or>
        (if q = to then Some i else if q = src then None else bt_get (sp_names s) q) = Some j"
        using 2 i to by auto
      then show ?thesis by blast
    qed simp
  qed
  moreover have "pool_file s' q = ((pool_file s)(src := None, to \<mapsto> drop HEADER_LEN (sp_slots s ! i))) q" for q
    using other [of q] sl(4) ne by (cases "bt_get (sp_names s) q") (auto simp: pool_file_def get slots)
  ultimately show ?thesis by (auto simp: fun_eq_iff pool_dir_def s' set_slot_def)
qed

section \<open>The pool keeps the contract of a backend\<close>

lemma index_of_simps:
  "bt_get (sp_names s) p = Some i \<Longrightarrow> bindE (index_of p) f s = f i s"
  "bt_get (sp_names s) p = None \<Longrightarrow> bindE (index_of p) f s = (Inl NotFound, s)"
  by (simp_all add: bindE_def index_of_def)

lemma pool_file_Some: "pool_file s p = Some b \<longleftrightarrow> (\<exists>i. bt_get (sp_names s) p = Some i \<and> b = drop HEADER_LEN (sp_slots s ! i))"
  by (auto simp: pool_file_def)

lemma pool_file_None [simp]: "pool_file s p = None \<longleftrightarrow> bt_get (sp_names s) p = None"
  by (simp add: pool_file_def)

text \<open>An operation that finds or claims the slot and then replaces its data.\<close>

lemma claim_then_data:
  assumes ok: "pool_ok s" "pool_path p" "pool_room s p"
    and data: "\<And>i s. pool_ok s \<Longrightarrow> bt_get (sp_names s) p = Some i \<Longrightarrow>
      take HEADER_LEN (g s i) = take HEADER_LEN (sp_slots s ! i) \<and> HEADER_LEN \<le> length (g s i)
      \<and> drop HEADER_LEN (g s i) = f (drop HEADER_LEN (sp_slots s ! i))"
  shows "ok_step pool_ok pool_file pool_dir (bindE (index_or_claim p) (\<lambda>i s. (Inr (), set_slot i (g s i) s))) s
    ((pool_file s)(p \<mapsto> f (contents (pool_file s p)))) (pool_dir s)"
proof -
  obtain i s1 where s1: "index_or_claim p s = (Inr i, s1)" "pool_ok s1" "bt_get (sp_names s1) p = Some i"
    "pool_file s1 = (pool_file s)(p \<mapsto> contents (pool_file s p))" "pool_dir s1 = pool_dir s"
    using claim [OF ok] by blast
  have "drop HEADER_LEN (sp_slots s1 ! i) = contents (pool_file s p)"
    using s1(3,4) pool_file_Some [of s1 p "contents (pool_file s p)"] by auto
  then show ?thesis
    using set_slot_data [OF s1(2,3), of "g s1 i"] data [OF s1(2,3)] s1
    by (auto simp: ok_step_def)
qed

lemma named_length: "pool_ok s \<Longrightarrow> bt_get (sp_names s) p = Some i \<Longrightarrow> HEADER_LEN \<le> length (sp_slots s ! i)"
  using pool_okD(3) by (simp add: names_slot_def)

lemma pool_write_step:
  assumes "pool_ok s" "pool_path p" "pool_room s p"
  shows "ok_step pool_ok pool_file pool_dir (pool_write p b) s ((pool_file s)(p \<mapsto> b)) (pool_dir s)"
  unfolding pool_write_def
  by (rule claim_then_data [OF assms, where f = "\<lambda>_. b"])
     (auto simp: slot_write_at_def slot_truncate_def resize_def patch_def dest: named_length)

lemma pool_append_step:
  assumes "pool_ok s" "pool_path p" "pool_room s p"
  shows "ok_step pool_ok pool_file pool_dir (pool_append p b) s
    ((pool_file s)(p \<mapsto> contents (pool_file s p) @ b)) (pool_dir s)"
  unfolding pool_append_def Let_def
  by (rule claim_then_data [OF assms, where f = "\<lambda>x. x @ b"])
     (auto simp: slot_write_at_def max_absorb1 patch_at_end dest!: named_length)

lemma pool_create_sized_step:
  assumes "pool_ok s" "pool_path p" "pool_room s p"
  shows "ok_step pool_ok pool_file pool_dir (pool_create_sized p n) s ((pool_file s)(p \<mapsto> replicate n 0)) (pool_dir s)"
  unfolding pool_create_sized_def
  by (rule claim_then_data [OF assms, where f = "\<lambda>_. replicate n 0"])
     (auto simp: slot_truncate_def resize_def dest!: named_length)

lemma pool_append_sync_step:
  assumes "pool_ok s" "pool_path p" "pool_room s p"
  shows "ok_step pool_ok pool_file pool_dir (pool_append_sync p b) s
    ((pool_file s)(p \<mapsto> contents (pool_file s p) @ b)) (pool_dir s)"
proof -
  obtain s' where s': "pool_append p b s = (Inr (), s')" "pool_ok s'"
    "pool_file s' = (pool_file s)(p \<mapsto> contents (pool_file s p) @ b)" "pool_dir s' = pool_dir s"
    using pool_append_step [OF assms, of b] by (auto simp: ok_step_def)
  then obtain i where "bt_get (sp_names s') p = Some i"
    using pool_file_Some [of s' p "contents (pool_file s p) @ b"] by auto
  then show ?thesis using s' by (simp add: ok_step_def pool_append_sync_def index_of_simps)
qed

lemma pool_write_range_step:
  assumes "pool_ok s" "pool_file s p = Some b"
  shows "ok_step pool_ok pool_file pool_dir (pool_write_range p off bs) s ((pool_file s)(p \<mapsto> patch off bs b)) (pool_dir s)"
proof -
  obtain i where i: "bt_get (sp_names s) p = Some i" "b = drop HEADER_LEN (sp_slots s ! i)"
    using assms(2) pool_file_Some by blast
  note len = named_length [OF assms(1) i(1)]
  have "take HEADER_LEN (patch (HEADER_LEN + off) bs (sp_slots s ! i)) = take HEADER_LEN (sp_slots s ! i)"
    "drop HEADER_LEN (patch (HEADER_LEN + off) bs (sp_slots s ! i)) = patch off bs b"
    using take_patch [OF len] drop_patch [OF len] i(2) by auto
  then show ?thesis
    using set_slot_data [OF assms(1) i(1), of "patch (HEADER_LEN + off) bs (sp_slots s ! i)"] len i(1)
    by (simp add: ok_step_def pool_write_range_def slot_write_at_def index_of_simps)
qed

lemma pool_remove_step:
  assumes "pool_ok s" "pool_file s p = Some b"
  shows "ok_step pool_ok pool_file pool_dir (pool_remove_file p) s ((pool_file s)(p := None)) (pool_dir s)"
proof -
  obtain i where i: "bt_get (sp_names s) p = Some i" using assms(2) pool_file_Some by blast
  obtain sl where sl: "release_slot i s = (Inr (), set_slot i sl s)" "free_slot sl" using release_slot_eq by blast
  then have "pool_remove_file p s = (Inr (), drop_file p i sl s)"
    using i by (simp add: pool_remove_file_def index_of_simps drop_file_def set_slot_def)
  then show ?thesis using drop_file_ok [OF assms(1) i sl(2)] by (auto simp: ok_step_def)
qed

lemma displace_ok:
  assumes ok: "pool_ok s"
  shows "\<exists>s'. displace to s = (Inr (), s') \<and> pool_ok s' \<and> pool_file s' = (pool_file s)(to := None) \<and> pool_dir s' = pool_dir s"
proof (cases "bt_get (sp_names s) to")
  case None
  then show ?thesis using ok by (auto simp: displace_def fun_eq_iff)
next
  case (Some d)
  let ?s = "s\<lparr>sp_names := bt_remove to (sp_names s)\<rparr>"
  obtain sl where sl: "release_slot d ?s = (Inr (), set_slot d sl ?s)" "free_slot sl" using release_slot_eq by blast
  have "displace to s = (Inr (), drop_file to d sl s)"
    using Some sl(1) by (simp add: displace_def drop_file_def set_slot_def)
  then show ?thesis using drop_file_ok [OF ok Some sl(2)] by auto
qed

lemma pool_rename_step:
  assumes ok: "pool_ok s" and b: "pool_file s src = Some b" and to: "pool_path to" and ne: "src \<noteq> to"
  shows "ok_step pool_ok pool_file pool_dir (pool_rename src to) s ((pool_file s)(src := None, to \<mapsto> b)) (pool_dir s)"
proof -
  obtain i where i: "bt_get (sp_names s) src = Some i" using b pool_file_Some by blast
  obtain s1 where s1: "displace to s = (Inr (), s1)" "pool_ok s1" "pool_file s1 = (pool_file s)(to := None)" "pool_dir s1 = pool_dir s"
    using displace_ok [OF ok] by blast
  have names: "bt_get (sp_names s1) q = (if q = to then None else bt_get (sp_names s) q)" for q
    using s1(1) release_slot_eq
    by (auto simp: displace_def bt_get_remove bindE_def release_slot_def set_slot_def split: option.splits sum.splits)
  let ?h = "read_header (sp_slots s1 ! i)\<lparr>h_name := path_to_str to\<rparr>"
  have "str_len (h_name ?h) \<le> MAX_NAME" using to by (simp add: pool_path_def)
  then obtain sl where sl: "write_header (sp_slots s1 ! i) ?h = Inr sl" "take HEADER_LEN sl = header_encode ?h"
    "HEADER_LEN \<le> length sl" "drop HEADER_LEN sl = drop HEADER_LEN (sp_slots s1 ! i)"
    using write_header_ok by blast
  have i1: "bt_get (sp_names s1) src = Some i" "bt_get (sp_names s1) to = None" using names i ne by auto
  then have data: "drop HEADER_LEN (sp_slots s1 ! i) = b"
    using s1(3) ne b pool_file_Some [of s1 src b] by auto
  have run: "pool_rename src to s =
      (Inr (), (set_slot i sl s1)\<lparr>sp_names := bt_insert to i (bt_remove src (sp_names s1))\<rparr>)"
    using s1(1) sl(1) i by (simp add: pool_rename_def index_of_simps)
  show ?thesis
    using rename_slot [OF s1(2) i1 to sl(2) _ sl(3,4) refl] run data s1(3,4) by (simp add: ok_step_def)
qed

interpretation slots: lawful_fs pool_fs pool_ok pool_file pool_dir pool_path pool_room
proof (unfold_locales, goal_cases)
  case (1 s p)
  then show ?case
    by (cases "bt_get (sp_names s) p")
       (simp_all add: pool_fs_def pool_read_def index_of_simps pool_file_def slot_read_at_def len_of_def)
next
  case (2 s p off n)
  have clamp: "take (min n (length x - min off (length x))) (drop (min off (length x)) x) = byte_range off n x" for x :: bytes
    by (auto simp: byte_range_def min_def)
  show ?case
    using clamp [of "drop HEADER_LEN (sp_slots s ! the (bt_get (sp_names s) p))"]
    by (cases "bt_get (sp_names s) p")
       (simp_all add: pool_fs_def pool_read_range_def index_of_simps pool_file_def slot_read_at_def len_of_def
         Let_def drop_drop add.commute)
next
  case (3 s p)
  then show ?case
    by (cases "bt_get (sp_names s) p") (simp_all add: pool_fs_def pool_file_len_def index_of_simps pool_file_def len_of_def)
next
  case (4 s p) then show ?case by (simp add: pool_fs_def pool_exists_def pool_dir_def)
next
  case (5 s p b) then show ?case by (simp add: pool_fs_def pool_write_step)
next
  case (6 s p b) then show ?case by (simp add: pool_fs_def pool_append_step)
next
  case (7 s p b) then show ?case by (simp add: pool_fs_def pool_append_sync_step)
next
  case (8 s p n) then show ?case by (simp add: pool_fs_def pool_create_sized_step)
next
  case (9 s p b off bs) then show ?case by (simp add: pool_fs_def pool_write_range_step)
next
  case (10 s p off bs) then show ?case by (simp add: pool_fs_def pool_write_range_def index_of_simps)
next
  case (11 s p)
  then show ?case
    by (auto simp: ok_step_def pool_fs_def pool_create_dir_all_def pool_ok_def pool_file_def pool_dir_def
        set_fold_bs_insert fun_eq_iff)
next
  case (12 s src b to) then show ?case by (simp add: pool_fs_def pool_rename_step)
next
  case (13 s src to) then show ?case by (simp add: pool_fs_def pool_rename_def index_of_simps)
next
  case (14 s p b) then show ?case by (simp add: pool_fs_def pool_remove_step)
next
  case (15 s p) then show ?case by (simp add: pool_fs_def pool_remove_file_def index_of_simps)
next
  case (16 s p b n)
  then have "index_or_claim p s = (Inl StorageFull, s)" by (simp add: pool_room_def index_or_claim_def)
  then show ?case
    by (simp add: pool_fs_def pool_write_def pool_append_def pool_append_sync_def pool_create_sized_def)
next
  case (17 s p) then show ?case by (simp add: pool_room_def)
next
  case (18 s q s' p) then show ?case by (auto simp: pool_fs_def pool_create_dir_all_def pool_room_def)
qed

section \<open>Mounting again\<close>

text \<open>The map and free list that adopting the slots from number \<open>k\<close> on adds.\<close>

lemma adopt_slots_ok:
  assumes "\<forall>p i. bt_get names0 p = Some i \<longrightarrow> i < length sls \<and> names_slot (sls ! i) p"
    and "\<forall>p q i. bt_get names0 p = Some i \<and> bt_get names0 q = Some i \<longrightarrow> p = q"
    and "\<forall>i < length sls. free_slot (sls ! i) \<or> (\<exists>p. bt_get names0 p = Some i)"
    and "bt_ok names0" "k \<le> length sls" "bt_ok names"
    and "\<forall>p. bt_get names p = (case bt_get names0 p of Some i \<Rightarrow> if i < k then Some i else None | None \<Rightarrow> None)"
  shows "\<exists>free'. adopt_slots k (drop k sls) names free = Inr (names0, free')
    \<and> set free' = set free \<union> {i. k \<le> i \<and> i < length sls \<and> (\<nexists>p. bt_get names0 p = Some i)}"
  using assms(5-7)
proof (induction "length sls - k" arbitrary: k names free)
  case 0
  then have "names = names0"
    using assms(1,4) by (intro bt_ext) (auto split: option.splits)
  then show ?case using 0 by auto
next
  case (Suc n)
  then have k: "k < length sls" and n: "n = length sls - Suc k" by simp_all
  then have drop: "drop k sls = sls ! k # drop (Suc k) sls" by (simp add: Cons_nth_drop_Suc)
  show ?case
  proof (cases "\<exists>p. bt_get names0 p = Some k")
    case True
    then obtain p where p: "bt_get names0 p = Some k" by blast
    then obtain h where h: "header_decode (take HEADER_LEN (sls ! k)) = Some h" "h_name h = path_to_str p" "pool_path p"
      using assms(1) by (auto simp: names_slot_def)
    then have h': "path_of_str (h_name h) = p" "h_name h \<noteq> []" by (auto simp: pool_path_def path_to_str_empty)
    have "bt_get names p = None" using Suc.prems(3) p by simp
    then have step: "adopt_slots k (drop k sls) names free = adopt_slots (Suc k) (drop (Suc k) sls) (bt_insert p k names) free"
      using drop h h' by simp
    have "\<forall>q. bt_get (bt_insert p k names) q =
        (case bt_get names0 q of Some i \<Rightarrow> if i < Suc k then Some i else None | None \<Rightarrow> None)"
      using Suc.prems(2,3) p assms(2) by (auto simp: bt_get_insert less_Suc_eq split: option.splits)
    then obtain free' where "adopt_slots (Suc k) (drop (Suc k) sls) (bt_insert p k names) free = Inr (names0, free')"
      "set free' = set free \<union> {i. Suc k \<le> i \<and> i < length sls \<and> (\<nexists>p. bt_get names0 p = Some i)}"
      using Suc.hyps(1) [OF n, of "bt_insert p k names" free] Suc.prems(2) k by (auto simp: bt_ok_insert)
    moreover have "{i. k \<le> i \<and> i < length sls \<and> (\<nexists>p. bt_get names0 p = Some i)} =
        {i. Suc k \<le> i \<and> i < length sls \<and> (\<nexists>p. bt_get names0 p = Some i)}"
      using True by (auto simp: Suc_le_eq order.order_iff_strict)
    ultimately show ?thesis using step by auto
  next
    case False
    then have "free_slot (sls ! k)" using assms(3) k by blast
    then have step: "adopt_slots k (drop k sls) names free = adopt_slots (Suc k) (drop (Suc k) sls) names (free @ [k])"
      using drop by (auto simp: free_slot_def split: option.splits)
    have "\<forall>q. bt_get names q = (case bt_get names0 q of Some i \<Rightarrow> if i < Suc k then Some i else None | None \<Rightarrow> None)"
      using Suc.prems(3) False by (auto simp: less_Suc_eq split: option.splits)
    then obtain free' where "adopt_slots (Suc k) (drop (Suc k) sls) names (free @ [k]) = Inr (names0, free')"
      "set free' = set (free @ [k]) \<union> {i. Suc k \<le> i \<and> i < length sls \<and> (\<nexists>p. bt_get names0 p = Some i)}"
      using Suc.hyps(1) [OF n, of names "free @ [k]"] Suc.prems(2) k by auto
    moreover have "{i. k \<le> i \<and> i < length sls \<and> (\<nexists>p. bt_get names0 p = Some i)} =
        insert k {i. Suc k \<le> i \<and> i < length sls \<and> (\<nexists>p. bt_get names0 p = Some i)}"
      using False k by (auto simp: Suc_le_eq order.order_iff_strict)
    ultimately show ?thesis using step by auto
  qed
qed

lemma adopt_remount:
  assumes ok: "pool_ok s"
  shows "\<exists>s'. adopt (sp_slots s) = Inr s' \<and> sp_slots s' = sp_slots s \<and> sp_names s' = sp_names s
    \<and> set (sp_free s') = set (sp_free s)"
proof -
  have "i \<in> set (sp_free s) \<longleftrightarrow> i < length (sp_slots s) \<and> (\<nexists>p. bt_get (sp_names s) p = Some i)" for i
    using ok by (auto simp: pool_ok_def)
  moreover have "\<exists>free'. adopt_slots 0 (drop 0 (sp_slots s)) [] [] = Inr (sp_names s, free')
      \<and> set free' = set [] \<union> {i. 0 \<le> i \<and> i < length (sp_slots s) \<and> (\<nexists>p. bt_get (sp_names s) p = Some i)}"
    by (rule adopt_slots_ok) (use ok in \<open>auto simp: pool_ok_def split: option.splits\<close>)
  ultimately show ?thesis by (auto simp: adopt_def)
qed

lemma adopt_slots_free:
  "list_all (\<lambda>sl. header_decode (take HEADER_LEN sl) = None) sls \<Longrightarrow>
     adopt_slots k sls names free = Inr (names, free @ [k..<k + length sls])"
  by (induction sls arbitrary: k free) (simp_all add: upt_rec)

text \<open>A pool of never initialised slots.\<close>

lemma adopt_fresh: "adopt (replicate n []) =
    Inr \<lparr>sp_slots = replicate n [], sp_names = [], sp_dirs = [], sp_free = [0..<n]\<rparr>"
  using adopt_slots_free [of "replicate n []" 0 "[]" "[]"]
  by (simp add: adopt_def list_all_iff header_decode_def)

lemma fresh_ok: "pool_ok \<lparr>sp_slots = replicate n [], sp_names = [], sp_dirs = [], sp_free = [0..<n]\<rparr>"
  by (simp add: pool_ok_def free_slot_def header_decode_def)

lemma run_calls_conform:
  assumes "pool_ok s" "mem_ok m" "pool_file s = mem_file m" "list_all (call_ok pool_path) cs"
    "Inl StorageFull \<notin> set (fst (run_calls pool_fs cs s))"
  shows "fst (run_calls pool_fs cs s) = fst (run_calls mem_fs cs m)
    \<and> pool_file (snd (run_calls pool_fs cs s)) = mem_file (snd (run_calls mem_fs cs m))
    \<and> pool_ok (snd (run_calls pool_fs cs s))"
  using assms
proof (induction cs arbitrary: s m)
  case (Cons c cs)
  have "call_ok (\<lambda>_. True) c" if "call_ok pool_path c" using that by (cases c) auto
  then have c: "call_ok pool_path c" "call_ok (\<lambda>_. True) c" using Cons.prems(4) by auto
  obtain r s1 where s1: "run_call pool_fs c s = (r, s1)" "pool_ok s1"
    "case spec_call c (pool_file s) of None \<Rightarrow> r = Inl NotFound \<and> pool_file s1 = pool_file s
       | Some F \<Rightarrow> (r = Inr () \<and> pool_file s1 = F) \<or> (r = Inl StorageFull \<and> pool_file s1 = pool_file s)"
    using slots.call_refines [OF Cons.prems(1) c(1)] by blast
  obtain r' m1 where m1: "run_call mem_fs c m = (r', m1)" "mem_ok m1"
    "case spec_call c (mem_file m) of None \<Rightarrow> r' = Inl NotFound \<and> mem_file m1 = mem_file m
       | Some F \<Rightarrow> (r' = Inr () \<and> mem_file m1 = F) \<or> (r' = Inl StorageFull \<and> mem_file m1 = mem_file m)"
    using mem.call_refines [OF Cons.prems(2) c(2)] by blast
  have "r \<noteq> Inl StorageFull" using Cons.prems(5) s1(1) by (auto simp: Let_def split: prod.splits)
  moreover have "r' \<noteq> Inl StorageFull"
    using m1(1) by (cases c) (auto simp: mem_fs_def mem_defs Let_def split: option.splits if_splits)
  ultimately have same: "r = r'" "pool_file s1 = mem_file m1"
    using s1(3) m1(3) Cons.prems(3) by (auto split: option.splits)
  have "Inl StorageFull \<notin> set (fst (run_calls pool_fs cs s1))"
    using Cons.prems(5) s1(1) by (auto simp: Let_def split: prod.splits)
  then show ?case
    using Cons.IH [OF s1(2) m1(2) same(2)] Cons.prems(4) s1(1) m1(1) same(1)
    by (auto simp: Let_def split: prod.splits)
qed simp

text \<open>Every slot is free or holds one file.\<close>

lemma pool_ok_count:
  assumes ok: "pool_ok s"
  shows "free_slots s + length (sp_names s) = capacity s"
proof -
  have bt: "bt_ok (sp_names s)" and dist: "distinct (sp_free s)" using ok by (simp_all add: pool_ok_def)
  have "inj_on snd (set (sp_names s))"
  proof (rule inj_onI)
    fix x y assume xy: "x \<in> set (sp_names s)" "y \<in> set (sp_names s)" "snd x = snd y"
    have "bt_get (sp_names s) (fst x) = Some (snd x)" "bt_get (sp_names s) (fst y) = Some (snd y)"
      unfolding bt_get_iff [OF bt] prod.collapse by (fact xy)+
    then have "fst x = fst y" using ok xy(3) unfolding pool_ok_def by metis
    then show "x = y" using xy(3) by (rule prod_eqI)
  qed
  moreover have "distinct (sp_names s)" using bt_ok_distinct [OF bt] by (simp add: distinct_map)
  ultimately have idx: "distinct (map snd (sp_names s))" by (simp add: distinct_map)
  have mem: "i \<in> snd ` set (sp_names s) \<longleftrightarrow> (\<exists>p. bt_get (sp_names s) p = Some i)" for i
    using bt_get_iff [OF bt] by force
  have "set (sp_free s) \<inter> snd ` set (sp_names s) = {}" "set (sp_free s) \<union> snd ` set (sp_names s) = {..<length (sp_slots s)}"
    using ok mem unfolding pool_ok_def by (auto simp: set_eq_iff)
  moreover have "card (set (sp_free s)) = length (sp_free s)" using dist by (rule distinct_card)
  moreover have "card (snd ` set (sp_names s)) = length (sp_names s)"
    using distinct_card [OF idx] by simp
  ultimately show ?thesis
    unfolding free_slots_def capacity_def
    by (metis List.finite_set card_Un_disjoint card_lessThan finite_imageI)
qed

lemma run_calls_ok:
  "pool_ok s \<Longrightarrow> list_all (call_ok pool_path) cs \<Longrightarrow> pool_ok (snd (run_calls pool_fs cs s))"
proof (induction cs arbitrary: s)
  case (Cons c cs)
  obtain r s1 where "run_call pool_fs c s = (r, s1)" "pool_ok s1"
    using slots.call_refines [OF Cons.prems(1), of c] Cons.prems(2) by auto
  then show ?case using Cons by (simp add: Let_def case_prod_beta)
qed simp

section \<open>The guarantees\<close>

definition ex_path :: "string \<Rightarrow> path" where
  "ex_path s = [Normal (lit s)]"

definition ex_calls :: "fs_call list" where
  "ex_calls = [Append (ex_path ''a'') [1, 2], RemoveFile (ex_path ''b'')]"

definition ex_pool :: pool where
  "ex_pool = \<lparr>sp_slots = replicate 2 [], sp_names = [], sp_dirs = [], sp_free = [0..<2]\<rparr>"

lemma ex_pool_path: "pool_path (ex_path ''a'')"
  by (simp add: pool_path_def path_ok_def ex_path_def lit_def slash_def dot_def scalar_def str_len_def utf8_char.simps)

lemma ex_calls_ok: "list_all (call_ok pool_path) ex_calls"
  by (simp add: ex_calls_def ex_pool_path)

lemma ex_pool_ok: "pool_ok ex_pool"
  using fresh_ok [of 2] by (simp add: ex_pool_def)

lemma ex_pool_files: "pool_file ex_pool p = None"
  by (simp add: ex_pool_def)

lemma ex_run:
  "\<exists>s1. run_calls pool_fs ex_calls ex_pool = ([Inr (), Inl NotFound], s1) \<and> pool_ok s1
     \<and> pool_file s1 (ex_path ''a'') = Some [1, 2]"
proof -
  have "pool_room ex_pool (ex_path ''a'')" by (simp add: pool_room_def ex_pool_def)
  then obtain s1 where s1: "pool_append (ex_path ''a'') [1, 2] ex_pool = (Inr (), s1)" "pool_ok s1"
    "pool_file s1 = (pool_file ex_pool)(ex_path ''a'' \<mapsto> [1, 2])"
    using pool_append_step [OF ex_pool_ok ex_pool_path, of "[1, 2]"] by (auto simp: ok_step_def ex_pool_files)
  then have "pool_file s1 (ex_path ''b'') = None"
    by (simp add: ex_pool_files ex_path_def lit_def del: pool_file_None)
  then have "pool_remove_file (ex_path ''b'') s1 = (Inl NotFound, s1)"
    using slots.remove_missing [OF s1(2)] by (simp add: pool_fs_def)
  then show ?thesis using s1 by (simp add: ex_calls_def pool_fs_def)
qed



text \<open>
  C7: nothing is lost by closing the tab. Mounting the slots of a pool again succeeds and gives
  the same files, the same path map and the same free slots.
\<close>

theorem remount_restores_pool:
  assumes "pool_ok s"
  shows "\<exists>s'. adopt (sp_slots s) = Inr s' \<and> pool_file s' = pool_file s
    \<and> sp_names s' = sp_names s \<and> set (sp_free s') = set (sp_free s)"
  using adopt_remount [OF assms] by (auto simp: pool_file_def fun_eq_iff)

theorem remount_restores_pool_witness:
  "\<exists>s'. adopt (sp_slots (snd (run_calls pool_fs ex_calls ex_pool))) = Inr s'
     \<and> pool_file s' (ex_path ''a'') = Some [1, 2]"
proof -
  obtain s1 where "run_calls pool_fs ex_calls ex_pool = ([Inr (), Inl NotFound], s1)" "pool_ok s1"
    "pool_file s1 (ex_path ''a'') = Some [1, 2]" using ex_run by blast
  then show ?thesis using remount_restores_pool [of s1] by auto
qed

text \<open>
  Slots are neither leaked nor shared. After any sequence of acceptable calls on a pool of
  fresh slots, the free slots and the files together account for every slot.
\<close>

theorem pool_accounts_for_slots:
  assumes "adopt (replicate n []) = Inr s" "list_all (call_ok pool_path) cs"
  shows "free_slots (snd (run_calls pool_fs cs s)) + length (sp_names (snd (run_calls pool_fs cs s)))
    = capacity (snd (run_calls pool_fs cs s))"
  using assms fresh_ok [of n] by (auto simp: adopt_fresh intro!: pool_ok_count run_calls_ok)

text \<open>
  Renaming a file onto itself: the displaced destination is the file's own slot, so its contents
  are gone and the slot is in the free list while it still holds the name.
\<close>

lemma rename_onto_itself_loses_file:
  assumes ok: "pool_ok s" and p: "pool_path p" "bt_get (sp_names s) p = Some i"
  shows "\<exists>s'. pool_rename p p s = (Inr (), s') \<and> pool_file s' p = Some []
    \<and> bt_get (sp_names s') p = Some i \<and> i \<in> set (sp_free s')"
proof -
  let ?s = "s\<lparr>sp_names := bt_remove p (sp_names s)\<rparr>"
  obtain sl where sl: "release_slot i ?s = (Inr (), set_slot i sl ?s)" "length sl = HEADER_LEN"
    using release_slot_eq by blast
  define s1 where "s1 = drop_file p i sl s"
  have d: "displace p s = (Inr (), s1)"
    using p(2) sl(1) by (simp add: displace_def s1_def drop_file_def set_slot_def)
  have i: "i < length (sp_slots s)" "bt_ok (sp_names s)" using ok pool_okD(1) [OF ok p(2)] by (auto simp: pool_ok_def)
  have "str_len (h_name (read_header (sp_slots s1 ! i)\<lparr>h_name := path_to_str p\<rparr>)) \<le> MAX_NAME"
    using p(1) by (simp add: pool_path_def)
  then obtain sl' where sl': "write_header (sp_slots s1 ! i) (read_header (sp_slots s1 ! i)\<lparr>h_name := path_to_str p\<rparr>) = Inr sl'"
    "drop HEADER_LEN sl' = drop HEADER_LEN (sp_slots s1 ! i)"
    using write_header_ok by blast
  have "sp_slots s1 ! i = sl" using i by (simp add: s1_def drop_file_def)
  then show ?thesis
    using d sl' sl(2) p(2) i
    by (simp add: pool_rename_def index_of_simps pool_file_def bt_get_insert bt_ok_remove)
       (auto simp: s1_def drop_file_def set_slot_def bt_get_insert bt_ok_remove pool_file_def)
qed

end
