(* ===== verification/Blob_Store.thy ===== *)
theory Blob_Store
  imports Slot_Pool
begin

text \<open>
  The content-addressed blob store (\<open>roam-storage/src/blob.rs\<close>) over any \<open>VaultFs\<close>. The hex
  digest of blake3 is a parameter \<open>H\<close>. The client lemmas are proved once for every lawful backend;
  the guarantees are stated for the slot pool, the backend the browser build runs on.
\<close>

definition HASH_HEX_LEN :: nat where "HASH_HEX_LEN = 64"

definition hex_byte :: "byte \<Rightarrow> bool" where
  "hex_byte b \<longleftrightarrow> 48 \<le> unat b \<and> unat b \<le> 57 \<or> 97 \<le> unat b \<and> unat b \<le> 102"

definition is_valid_hash :: "ustr \<Rightarrow> bool" where
  "is_valid_hash h \<longleftrightarrow> str_len h = HASH_HEX_LEN \<and> list_all hex_byte (utf8 h)"

record 's blob_store =
  bs_root :: path
  bs_fs :: "'s vault_fs"

definition blob_open :: "path \<Rightarrow> 's vault_fs \<Rightarrow> ('s, storage_error, 's blob_store) op" where
  "blob_open root fs = bindE (errE Io (fs_create_dir_all fs root)) (\<lambda>_. returnE \<lparr>bs_root = root, bs_fs = fs\<rparr>)"

definition blob_path :: "'s blob_store \<Rightarrow> ustr \<Rightarrow> (storage_error, path) res" where
  "blob_path bs h =
     (if \<not> is_valid_hash h then Inl Blob else Inr (path_join (bs_root bs) (path_of_str h)))"

definition incoming_dir :: "'s blob_store \<Rightarrow> path" where
  "incoming_dir bs = path_join (bs_root bs) (path_of_str (lit ''incoming''))"

definition part_path :: "'s blob_store \<Rightarrow> ustr \<Rightarrow> path" where
  "part_path bs h = path_join (incoming_dir bs) (path_of_str (h @ lit ''.part''))"

definition blob_put :: "(bytes \<Rightarrow> ustr) \<Rightarrow> 's blob_store \<Rightarrow> bytes \<Rightarrow> ('s, storage_error, ustr) op" where
  "blob_put H bs b s =
     (let fs = bs_fs bs; hash = H b; p = path_join (bs_root bs) (path_of_str hash) in
      if fs_exists fs p s then (Inr hash, s)
      else let temp = path_join (bs_root bs) (path_of_str (hash @ lit ''.tmp'')) in
           bindE (errE Io (fs_write fs temp b)) (\<lambda>_ s.
             case fs_rename fs temp p s of
               (Inr _, s') \<Rightarrow> (Inr hash, s')
             | (Inl e, s') \<Rightarrow> (Inl (Io e), snd (fs_remove_file fs temp s'))) s)"

definition blob_get :: "(bytes \<Rightarrow> ustr) \<Rightarrow> 's blob_store \<Rightarrow> ustr \<Rightarrow> ('s, storage_error, bytes option) op" where
  "blob_get H bs h = bindE (liftE (blob_path bs h)) (\<lambda>p s.
     case fs_read (bs_fs bs) p s of
       (Inl NotFound, s') \<Rightarrow> (Inr None, s')
     | (Inl e, s') \<Rightarrow> (Inl (Io e), s')
     | (Inr b, s') \<Rightarrow> if H b \<noteq> h then (Inl Blob, s') else (Inr (Some b), s'))"

definition blob_has :: "'s blob_store \<Rightarrow> ustr \<Rightarrow> 's \<Rightarrow> bool" where
  "blob_has bs h s = (case blob_path bs h of Inr p \<Rightarrow> fs_exists (bs_fs bs) p s | Inl _ \<Rightarrow> False)"

text \<open>Removing a file that may be absent.\<close>

definition remove_tolerant :: "'s vault_fs \<Rightarrow> path \<Rightarrow> ('s, storage_error, unit) op" where
  "remove_tolerant fs p s =
     (case fs_remove_file fs p s of
        (Inr _, s') \<Rightarrow> (Inr (), s')
      | (Inl NotFound, s') \<Rightarrow> (Inr (), s')
      | (Inl e, s') \<Rightarrow> (Inl (Io e), s'))"

definition blob_remove :: "'s blob_store \<Rightarrow> ustr \<Rightarrow> ('s, storage_error, unit) op" where
  "blob_remove bs h = bindE (liftE (blob_path bs h)) (remove_tolerant (bs_fs bs))"

definition file_name :: "path \<Rightarrow> ustr option" where
  "file_name p = (if p = [] then None else case last p of Normal n \<Rightarrow> Some n | _ \<Rightarrow> None)"

definition blob_list :: "'s blob_store \<Rightarrow> ('s, storage_error, ustr list) op" where
  "blob_list bs = bindE (errE Io (fs_read_dir (bs_fs bs) (bs_root bs)))
     (\<lambda>entries. returnE (filter is_valid_hash (List.map_filter file_name entries)))"

definition blob_size :: "'s blob_store \<Rightarrow> ustr \<Rightarrow> ('s, storage_error, nat option) op" where
  "blob_size bs h = bindE (liftE (blob_path bs h)) (\<lambda>p s.
     case fs_file_len (bs_fs bs) p s of
       (Inr n, s') \<Rightarrow> (Inr (Some n), s')
     | (Inl NotFound, s') \<Rightarrow> (Inr None, s')
     | (Inl e, s') \<Rightarrow> (Inl (Io e), s'))"

definition blob_read_range :: "'s blob_store \<Rightarrow> ustr \<Rightarrow> u64 \<Rightarrow> nat \<Rightarrow> ('s, storage_error, bytes) op" where
  "blob_read_range bs h off n = bindE (liftE (blob_path bs h)) (\<lambda>p.
     errE Io (fs_read_range (bs_fs bs) p (unat off) n))"

text \<open>\<open>u64::checked_add\<close> of an offset and a slice length.\<close>

definition checked_add :: "u64 \<Rightarrow> nat \<Rightarrow> u64 option" where
  "checked_add a n = (if unat a + n < 2 ^ 64 then Some (a + of_nat n) else None)"

definition write_incoming_chunk :: "'s blob_store \<Rightarrow> ustr \<Rightarrow> u64 \<Rightarrow> u64 \<Rightarrow> bytes \<Rightarrow> ('s, storage_error, unit) op" where
  "write_incoming_chunk bs h off tlen b =
     (if \<not> is_valid_hash h then failE Blob
      else case checked_add off (length b) of
             None \<Rightarrow> failE Blob
           | Some stop \<Rightarrow>
               if stop > tlen then failE Blob
               else let fs = bs_fs bs; part = part_path bs h in
                    bindE (errE Io (fs_create_dir_all fs (incoming_dir bs))) (\<lambda>_.
                    bindE (\<lambda>s. if fs_exists fs part s
                               then bindE (errE Io (fs_file_len fs part)) (\<lambda>pinned.
                                      if pinned \<noteq> unat tlen then failE Blob else returnE ()) s
                               else errE Io (fs_create_sized fs part (unat tlen)) s) (\<lambda>_.
                    errE Io (fs_write_range fs part (unat off) b))))"

definition finalize_incoming :: "(bytes \<Rightarrow> ustr) \<Rightarrow> 's blob_store \<Rightarrow> ustr \<Rightarrow> ('s, storage_error, bool) op" where
  "finalize_incoming H bs h s =
     (let fs = bs_fs bs; part = part_path bs h in
      if \<not> is_valid_hash h then (Inl Blob, s)
      else case fs_read fs part s of
             (Inl NotFound, s1) \<Rightarrow> (Inr False, s1)
           | (Inl e, s1) \<Rightarrow> (Inl (Io e), s1)
           | (Inr b, s1) \<Rightarrow>
               if H b \<noteq> h then (Inr False, snd (fs_remove_file fs part s1))
               else let final = path_join (bs_root bs) (path_of_str h) in
                    (case fs_rename fs part final s1 of
                       (Inr _, s2) \<Rightarrow> (Inr True, s2)
                     | (Inl _, s2) \<Rightarrow>
                         (case fs_write fs final b s2 of
                            (written, s3) \<Rightarrow>
                              (bind_r (map_err Io written) (\<lambda>_. Inr True), snd (fs_remove_file fs part s3)))))"

definition discard_incoming :: "'s blob_store \<Rightarrow> ustr \<Rightarrow> ('s, storage_error, unit) op" where
  "discard_incoming bs h =
     (if \<not> is_valid_hash h then failE Blob else remove_tolerant (bs_fs bs) (part_path bs h))"

section \<open>Hashes and paths\<close>

definition hex_char :: "uchar \<Rightarrow> bool" where
  "hex_char c \<longleftrightarrow> 48 \<le> c \<and> c \<le> 57 \<or> 97 \<le> c \<and> c \<le> 102"

lemma utf8_char_high:
  assumes "128 \<le> c" "c < 0x110000"
  shows "\<exists>b bs. utf8_char c = b # bs \<and> 128 \<le> unat b"
  using assms by (auto simp: utf8_char.simps Let_def div_less_iff_less_mult)

text \<open>A valid hash is 64 hex characters, whatever its encoding.\<close>

lemma valid_hash_chars:
  assumes "is_valid_hash h" "valid_str h"
  shows "list_all hex_char h"
proof -
  have "hex_char c" if "c \<in> set h" for c
  proof -
    have c: "scalar c" "set (utf8_char c) \<subseteq> set (utf8 h)"
      using that assms(2) by (auto simp: valid_str_def list_all_iff utf8_def)
    then have hex: "\<forall>b \<in> set (utf8_char c). hex_byte b"
      using assms(1) by (auto simp: is_valid_hash_def list_all_iff)
    have "c < 128"
    proof (rule ccontr)
      assume "\<not> c < 128"
      then obtain b bs where "utf8_char c = b # bs" "128 \<le> unat b"
        using utf8_char_high [of c] c(1) by (auto simp: scalar_def)
      then show False using hex by (auto simp: hex_byte_def)
    qed
    then show ?thesis using hex by (simp add: utf8_char.simps hex_byte_def hex_char_def)
  qed
  then show ?thesis by (simp add: list_all_iff)
qed

lemma hash_names:
  assumes h: "is_valid_hash h" "valid_str h"
  shows "path_of_str h = [Normal h]" "path_of_str (h @ lit ''.part'') = [Normal (h @ lit ''.part'')]"
    "path_of_str (h @ lit ''.tmp'') = [Normal (h @ lit ''.tmp'')]" "slash \<notin> set h" "dot \<notin> set h" "h \<noteq> []"
proof -
  show hex: "slash \<notin> set h" "dot \<notin> set h"
    using valid_hash_chars [OF h] by (auto simp: list_all_iff hex_char_def slash_def dot_def)
  show "h \<noteq> []" using h(1) by (auto simp: is_valid_hash_def HASH_HEX_LEN_def str_len_def)
  then show "path_of_str h = [Normal h]" "path_of_str (h @ lit ''.part'') = [Normal (h @ lit ''.part'')]"
    "path_of_str (h @ lit ''.tmp'') = [Normal (h @ lit ''.tmp'')]"
    using hex by (auto intro!: path_of_name simp: lit_def slash_def dot_def append_eq_Cons_conv)
qed

lemma incoming_name: "path_of_str (lit ''incoming'') = [Normal (lit ''incoming'')]"
  by (rule path_of_name) (simp_all add: lit_def slash_def dot_def)

lemma path_join_name: "path_join p [Normal n] = p @ [Normal n]"
  by (simp add: path_join_def path_push_def)

text \<open>Where the store keeps a blob, its temporary file and its partial file.\<close>

lemma blob_paths:
  assumes "is_valid_hash h" "valid_str h"
  shows "path_join (bs_root bs) (path_of_str h) = bs_root bs @ [Normal h]"
    "path_join (bs_root bs) (path_of_str (h @ lit ''.tmp'')) = bs_root bs @ [Normal (h @ lit ''.tmp'')]"
    "incoming_dir bs = bs_root bs @ [Normal (lit ''incoming'')]"
    "part_path bs h = bs_root bs @ [Normal (lit ''incoming''), Normal (h @ lit ''.part'')]"
  by (simp_all add: hash_names [OF assms] incoming_name path_join_name incoming_dir_def part_path_def)

lemma dir_prefixes_short: "q \<in> set (dir_prefixes p) \<Longrightarrow> length q \<le> length p"
proof -
  have "\<forall>q \<in> set (snd (fold (\<lambda>c (cur, ds). let cur' = path_push cur c in (cur', ds @ [cur'])) p (cur, ds))).
      q \<in> set ds \<or> length q \<le> length cur + length p" for cur ds
  proof (induction p arbitrary: cur ds)
    case (Cons c p)
    have "length (path_push cur c) \<le> Suc (length cur)" by (simp add: path_push_def)
    then show ?case using Cons.IH [of "path_push cur c" "ds @ [path_push cur c]"] by (fastforce simp: Let_def)
  qed simp
  from this [of "[]" "[]"] show "q \<in> set (dir_prefixes p) \<Longrightarrow> ?thesis" by (auto simp: dir_prefixes_def)
qed

section \<open>Slices\<close>

lemma patch_nth:
  assumes "off + length b \<le> length P" "i < length P"
  shows "patch off b P ! i = (if off \<le> i \<and> i < off + length b then b ! (i - off) else P ! i)"
  using assms by (auto simp: patch_in_range nth_append)

lemma byte_range_nth: "j < n \<Longrightarrow> off + n \<le> length c \<Longrightarrow> byte_range off n c ! j = c ! (off + j)"
  by (simp add: byte_range_def)

lemma length_byte_range: "off + n \<le> length c \<Longrightarrow> length (byte_range off n c) = n"
  by (simp add: byte_range_def)

definition chunk_fits :: "bytes \<Rightarrow> u64 \<times> nat \<Rightarrow> bool" where
  "chunk_fits c ch \<longleftrightarrow> unat (fst ch) + snd ch \<le> length c"

definition covered :: "(u64 \<times> nat) list \<Rightarrow> nat set" where
  "covered chs = (\<Union>ch \<in> set chs. {unat (fst ch)..<unat (fst ch) + snd ch})"

text \<open>The partial file agrees with the content on the positions received so far.\<close>

definition agrees :: "bytes \<Rightarrow> nat set \<Rightarrow> bytes \<Rightarrow> bool" where
  "agrees c I P \<longleftrightarrow> length P = length c \<and> (\<forall>i \<in> I. i < length c \<longrightarrow> P ! i = c ! i)"

lemma agrees_patch:
  assumes "agrees c I P" "chunk_fits c (off, n)"
  shows "agrees c (I \<union> {unat off..<unat off + n}) (patch (unat off) (byte_range (unat off) n c) P)"
proof -
  have n: "length (byte_range (unat off) n c) = n" using assms(2) by (simp add: chunk_fits_def length_byte_range)
  then have "patch (unat off) (byte_range (unat off) n c) P ! i = c ! i"
    if "i \<in> I \<or> unat off \<le> i \<and> i < unat off + n" "i < length c" for i
    using that assms byte_range_nth [of "i - unat off" n "unat off" c]
    by (auto simp: agrees_def chunk_fits_def patch_nth)
  then show ?thesis using assms n by (auto simp: agrees_def chunk_fits_def)
qed

section \<open>Client lemmas over any lawful backend\<close>

context lawful_fs
begin

lemma blob_get_eq:
  assumes "ok s" "bs_fs bs = fs" "is_valid_hash h" "valid_str h"
  shows "blob_get H bs h s =
    ((case files s (bs_root bs @ [Normal h]) of
        None \<Rightarrow> Inr None
      | Some b \<Rightarrow> if H b \<noteq> h then Inl Blob else Inr (Some b)), s)"
  using read_law [OF assms(1), of "bs_root bs @ [Normal h]"] assms(2-4)
  by (cases "files s (bs_root bs @ [Normal h])")
     (simp_all add: blob_get_def blob_path_def blob_paths bindE_def)

lemma blob_put_fresh:
  assumes "ok s" "bs_fs bs = fs" and h: "is_valid_hash (H b)" "valid_str (H b)"
    and p: "p = bs_root bs @ [Normal (H b)]" "okp p" "files s p = None" "\<not> dir s p"
    and t: "t = bs_root bs @ [Normal (H b @ lit ''.tmp'')]" "okp t" "room s t"
  shows "\<exists>s'. blob_put H bs b s = (Inr (H b), s') \<and> ok s' \<and> files s' = (files s)(t := None, p \<mapsto> b)"
proof -
  have "t \<noteq> p" by (simp add: p(1) t(1) lit_def)
  obtain s1 where s1: "fs_write fs t b s = (Inr (), s1)" "ok s1" "files s1 = (files s)(t \<mapsto> b)"
    using write_law [OF assms(1) t(2,3), of b] by (auto simp: ok_step_def)
  then obtain s2 where s2: "fs_rename fs t p s1 = (Inr (), s2)" "ok s2" "files s2 = (files s1)(t := None, p \<mapsto> b)"
    using rename_law [OF s1(2) _ p(2) \<open>t \<noteq> p\<close>, of b] by (auto simp: ok_step_def)
  have "\<not> fs_exists fs p s" using p(3,4) exists_law [OF assms(1)] by simp
  then have "blob_put H bs b s = (Inr (H b), s2)"
    using s1(1) s2(1) assms(2) by (simp add: blob_put_def Let_def blob_paths [OF h] p(1) t(1))
  then show ?thesis using s2 s1(3) by (auto simp: fun_eq_iff)
qed

lemma chunk_step:
  assumes s: "ok s" "bs_fs bs = fs" and h: "is_valid_hash h" "valid_str h"
    and part: "p = part_path bs h" "okp p" "room s p" "\<not> dir s p"
    and b: "unat off + length b \<le> unat tlen"
    and pre: "files s p = None \<and> P = replicate (unat tlen) 0 \<or> files s p = Some P \<and> length P = unat tlen"
  shows "\<exists>s'. write_incoming_chunk bs h off tlen b s = (Inr (), s') \<and> ok s' \<and> \<not> dir s' p
    \<and> files s' = (files s)(p \<mapsto> patch (unat off) b P)
    \<and> dir s' = (\<lambda>q. dir s q \<or> q \<in> set (dir_prefixes (incoming_dir bs)))"
proof -
  have bound: "unat off + length b < 2 ^ 64" using b unsigned_less [of tlen, where 'a = nat] by simp
  then have "unat (off + of_nat (length b)) = unat off + length b"
    by (simp add: unat_word_ariths(1) unat_of_nat)
  then have fits: "checked_add off (length b) = Some (off + of_nat (length b))" "\<not> off + of_nat (length b) > tlen"
    using b bound by (simp_all add: checked_add_def word_less_nat_alt)
  obtain s1 where s1: "fs_create_dir_all fs (incoming_dir bs) s = (Inr (), s1)" "ok s1" "files s1 = files s"
    "dir s1 = (\<lambda>q. dir s q \<or> q \<in> set (dir_prefixes (incoming_dir bs)))"
    using create_dir_all_law [OF s(1)] by (auto simp: ok_step_def)
  have "p \<notin> set (dir_prefixes (incoming_dir bs))"
    using dir_prefixes_short [of p "incoming_dir bs"] blob_paths [OF h, of bs] part(1) by auto
  then have nodir: "\<not> dir s1 p" using s1(4) part(4) by simp
  have room1: "room s1 p" using room_dirs [OF s(1) s1(1) part(3)] .
  obtain s2 where s2: "(if fs_exists fs p s1
        then bindE (errE Io (fs_file_len fs p)) (\<lambda>pinned. if pinned \<noteq> unat tlen then failE Blob else returnE ()) s1
        else errE Io (fs_create_sized fs p (unat tlen)) s1) = (Inr (), s2)"
    "ok s2" "files s2 = (files s)(p \<mapsto> P)" "dir s2 = dir s1"
  proof (cases "files s p")
    case None
    then show ?thesis
      using that pre s1(3) nodir create_sized_law [OF s1(2) part(2) room1, of "unat tlen"] exists_law [OF s1(2), of p]
      by (auto simp: ok_step_def)
  next
    case (Some x)
    then show ?thesis
      using that [of s1] pre s1(2,3) exists_law [OF s1(2), of p] file_len_law [OF s1(2), of p]
      by (auto simp: bindE_def errE_def fun_eq_iff)
  qed
  obtain s3 where s3: "fs_write_range fs p (unat off) b s2 = (Inr (), s3)" "ok s3" "dir s3 = dir s2"
    "files s3 = (files s2)(p \<mapsto> patch (unat off) b P)"
    using write_range_law [OF s2(2), of p P "unat off" b] s2(3) by (auto simp: ok_step_def)
  have "write_incoming_chunk bs h off tlen b s = (Inr (), s3)"
    using fits h s(2) s1(1) s2(1) s3(1)
    by (simp add: write_incoming_chunk_def Let_def part(1) [symmetric] bindE_def errE_def)
  then show ?thesis using s3 s2(3,4) nodir s1(4) by auto
qed

text \<open>All chunks of a content, in any order and with repetitions.\<close>

lemma chunks_run:
  assumes "ok s" "bs_fs bs = fs" and h: "is_valid_hash h" "valid_str h"
    and p: "p = part_path bs h" "okp p" "room s p" "\<not> dir s p" "length c < 2 ^ 64"
    and chs: "list_all (chunk_fits c) chs"
    and pre: "files s p = None \<and> P = replicate (length c) 0 \<or> files s p = Some P" "agrees c I P"
  shows "\<exists>s' Q. eachE (\<lambda>ch. write_incoming_chunk bs h (fst ch) (of_nat (length c)) (byte_range (unat (fst ch)) (snd ch) c)) chs s
      = (Inr (), s') \<and> ok s' \<and> agrees c (I \<union> covered chs) Q
      \<and> (chs = [] \<and> s' = s \<and> Q = P \<or> files s' = (files s)(p \<mapsto> Q))"
  using assms(1) p(3,4) chs pre
proof (induction chs arbitrary: s I P)
  case Nil
  then show ?case by (auto simp: covered_def)
next
  case (Cons ch chs)
  have tl: "unat (of_nat (length c) :: u64) = length c" using p(5) by (simp add: unat_of_nat)
  have fits: "chunk_fits c ch" "list_all (chunk_fits c) chs" using Cons.prems(4) by auto
  let ?b = "byte_range (unat (fst ch)) (snd ch) c" and ?Q = "patch (unat (fst ch)) (byte_range (unat (fst ch)) (snd ch) c) P"
  have len: "length ?b = snd ch" using fits(1) by (simp add: chunk_fits_def length_byte_range)
  obtain s1 where s1: "write_incoming_chunk bs h (fst ch) (of_nat (length c)) ?b s = (Inr (), s1)" "ok s1" "\<not> dir s1 p"
    "files s1 = (files s)(p \<mapsto> ?Q)"
    using chunk_step [OF Cons.prems(1) assms(2) h p(1,2) Cons.prems(2,3), of "fst ch" ?b "of_nat (length c)" P]
      Cons.prems(5,6) fits(1) len tl by (auto simp: agrees_def chunk_fits_def)
  have ag: "agrees c (I \<union> {unat (fst ch)..<unat (fst ch) + snd ch}) ?Q"
    using agrees_patch [OF Cons.prems(6), of "fst ch" "snd ch"] fits(1) by simp
  have f1: "files s1 p = Some ?Q" using s1(4) by simp
  then have room: "room s1 p" using room_file [OF s1(2), of p] by simp
  obtain s' Q where "eachE (\<lambda>ch. write_incoming_chunk bs h (fst ch) (of_nat (length c))
        (byte_range (unat (fst ch)) (snd ch) c)) chs s1 = (Inr (), s')" "ok s'"
    "agrees c (I \<union> {unat (fst ch)..<unat (fst ch) + snd ch} \<union> covered chs) Q"
    "chs = [] \<and> s' = s1 \<and> Q = ?Q \<or> files s' = (files s1)(p \<mapsto> Q)"
    using Cons.IH [OF s1(2) room s1(3) fits(2) disjI2 [OF f1] ag] by blast
  then show ?case
    using s1(1,4) by (intro exI [of _ s'] exI [of _ Q]) (auto simp: covered_def Un_assoc)
qed

lemma finalize_eq:
  assumes s: "ok s" "bs_fs bs = fs" and h: "is_valid_hash h" "valid_str h"
    and p: "files s (part_path bs h) = Some b" "okp (bs_root bs @ [Normal h])"
  shows "\<exists>s'. ok s' \<and> finalize_incoming H bs h s = (Inr (H b = h), s')
    \<and> files s' = (if H b = h then (files s)(part_path bs h := None, bs_root bs @ [Normal h] \<mapsto> b)
                    else (files s)(part_path bs h := None))"
proof (cases "H b = h")
  case True
  have "part_path bs h \<noteq> bs_root bs @ [Normal h]" by (simp add: blob_paths [OF h])
  then obtain s' where "fs_rename fs (part_path bs h) (bs_root bs @ [Normal h]) s = (Inr (), s')" "ok s'"
    "files s' = (files s)(part_path bs h := None, bs_root bs @ [Normal h] \<mapsto> b)"
    using rename_law [OF s(1) p] by (auto simp: ok_step_def)
  then show ?thesis
    using True h s(2) read_law [OF s(1), of "part_path bs h"] p(1)
    by (auto simp: finalize_incoming_def Let_def blob_paths(1) [OF h])
next
  case False
  obtain s' where "fs_remove_file fs (part_path bs h) s = (Inr (), s')" "ok s'" "files s' = (files s)(part_path bs h := None)"
    using remove_file_law [OF s(1) p(1)] by (auto simp: ok_step_def)
  then show ?thesis
    using False h s(2) read_law [OF s(1), of "part_path bs h"] p(1) by (auto simp: finalize_incoming_def Let_def)
qed

text \<open>Receiving every byte of a blob and finalizing installs exactly that blob.\<close>

lemma transfer_complete:
  assumes s: "ok s" "bs_fs bs = fs" and h: "is_valid_hash (H c)" "valid_str (H c)"
    and p: "p = part_path bs (H c)" "okp p" "room s p" "\<not> dir s p" "files s p = None"
    and q: "okp (bs_root bs @ [Normal (H c)])"
    and chs: "length c < 2 ^ 64" "list_all (chunk_fits c) chs" "chs \<noteq> []" "{..<length c} \<subseteq> covered chs"
  shows "\<exists>s1 s2. eachE (\<lambda>ch. write_incoming_chunk bs (H c) (fst ch) (of_nat (length c))
        (byte_range (unat (fst ch)) (snd ch) c)) chs s = (Inr (), s1)
    \<and> finalize_incoming H bs (H c) s1 = (Inr True, s2) \<and> ok s2
    \<and> files s2 = (files s)(bs_root bs @ [Normal (H c)] \<mapsto> c)"
proof -
  have z: "agrees c {} (replicate (length c) 0)" by (simp add: agrees_def)
  have pre: "files s p = None \<and> replicate (length c) 0 = replicate (length c) (0::byte)
      \<or> files s p = Some (replicate (length c) 0)" using p(5) by simp
  obtain s1 Q where s1: "eachE (\<lambda>ch. write_incoming_chunk bs (H c) (fst ch) (of_nat (length c))
        (byte_range (unat (fst ch)) (snd ch) c)) chs s = (Inr (), s1)" "ok s1"
    "agrees c (covered chs) Q" "files s1 = (files s)(p \<mapsto> Q)"
    using chunks_run [OF s h p(1-4) chs(1,2) pre z] chs(3) by auto
  then have "Q = c" using chs(4) by (intro nth_equalityI) (auto simp: agrees_def)
  then have part: "files s1 (part_path bs (H c)) = Some c" using s1(4) p(1) by simp
  obtain s2 where "ok s2" "finalize_incoming H bs (H c) s1 = (Inr True, s2)"
    "files s2 = (files s1)(part_path bs (H c) := None, bs_root bs @ [Normal (H c)] \<mapsto> c)"
    using finalize_eq [OF s1(2) s(2) h part q, of H] by auto
  moreover have "(files s1)(part_path bs (H c) := None) = files s" using s1(4) p by (auto simp: fun_eq_iff)
  ultimately show ?thesis using s1(1) by (intro exI [of _ s1] exI [of _ s2]) simp
qed

end

section \<open>The guarantees\<close>

definition ex_blobs :: "pool blob_store" where
  "ex_blobs = \<lparr>bs_root = [Normal (lit ''assets'')], bs_fs = pool_fs\<rparr>"

definition ex_hash :: ustr where "ex_hash = replicate 64 48"

lemma ex_hash_valid: "is_valid_hash ex_hash" "valid_str ex_hash"
  by (simp_all add: is_valid_hash_def ex_hash_def HASH_HEX_LEN_def str_len_def utf8_def utf8_char.simps
      hex_byte_def valid_str_def scalar_def list_all_iff)

lemma ex_hash_len: "length (utf8 ex_hash) = 64"
  using ex_hash_valid(1) by (simp add: is_valid_hash_def str_len_def HASH_HEX_LEN_def)

lemma hash_comps:
  assumes "is_valid_hash h" "valid_str h"
  shows "comp_ok (Normal h)" "comp_ok (Normal (h @ lit ''.part''))" "comp_ok (Normal (h @ lit ''.tmp''))"
  using hash_names(4-6) [OF assms] assms(2)
  by (auto simp: lit_def slash_def dot_def scalar_def append_eq_Cons_conv)

lemma ex_root_comps: "comp_ok (Normal (lit ''assets''))" "comp_ok (Normal (lit ''incoming''))"
  by (simp_all add: lit_def slash_def dot_def scalar_def)

lemma ex_root: "bs_root ex_blobs = [Normal (lit ''assets'')]" "bs_fs ex_blobs = pool_fs"
  by (simp_all add: ex_blobs_def)

lemma ex_pool_simps: "pool_room ex_pool p" "\<not> pool_dir ex_pool p" "\<not> pool_exists p ex_pool"
  by (simp_all add: pool_room_def pool_dir_def pool_exists_def ex_pool_def)

lemma ex_lit_len: "length (utf8 (lit ''assets'')) = 6" "length (utf8 (lit ''incoming'')) = 8"
  "length (utf8 (lit ''.part'')) = 5" "length (utf8 (lit ''.tmp'')) = 4" "length (utf8_char slash) = 1"
  by (simp_all add: lit_def utf8_char.simps slash_def)

lemma ex_blob_paths:
  "pool_path (part_path ex_blobs ex_hash)" "pool_path (bs_root ex_blobs @ [Normal ex_hash])"
  "pool_path (bs_root ex_blobs @ [Normal (ex_hash @ lit ''.tmp'')])"
  unfolding blob_paths(4) [OF ex_hash_valid] ex_root
  using hash_comps [OF ex_hash_valid] ex_root_comps
  by (simp_all add: pool_path_def path_ok_def str_len_def ex_hash_len ex_lit_len del: comp_ok.simps)

text \<open>
  C3: chunked transfer. When the chunks a peer sends cover the blob, in any order and with any
  repetitions or overlaps, every chunk is accepted, finalizing reports success, the blob reads
  back as sent and the partial file is gone.
\<close>

theorem blob_transfer_any_order:
  assumes "pool_ok s" "bs_fs bs = pool_fs" "is_valid_hash (H c)" "valid_str (H c)"
    "pool_path (part_path bs (H c))" "pool_path (bs_root bs @ [Normal (H c)])"
    "pool_room s (part_path bs (H c))" "\<not> pool_dir s (part_path bs (H c))" "pool_file s (part_path bs (H c)) = None"
    "length c < 2 ^ 64" "list_all (chunk_fits c) chs" "chs \<noteq> []" "{..<length c} \<subseteq> covered chs"
  shows "\<exists>s1 s2. eachE (\<lambda>ch. write_incoming_chunk bs (H c) (fst ch) (of_nat (length c))
        (byte_range (unat (fst ch)) (snd ch) c)) chs s = (Inr (), s1)
    \<and> finalize_incoming H bs (H c) s1 = (Inr True, s2)
    \<and> blob_get H bs (H c) s2 = (Inr (Some c), s2)
    \<and> pool_file s2 (part_path bs (H c)) = None"
proof -
  obtain s1 s2 where run: "eachE (\<lambda>ch. write_incoming_chunk bs (H c) (fst ch) (of_nat (length c))
        (byte_range (unat (fst ch)) (snd ch) c)) chs s = (Inr (), s1)"
      "finalize_incoming H bs (H c) s1 = (Inr True, s2)" "pool_ok s2"
      "pool_file s2 = (pool_file s)(bs_root bs @ [Normal (H c)] \<mapsto> c)"
    using slots.transfer_complete [where H = H and c = c, OF assms(1-4) refl assms(5,7-9) assms(6,10-13)] by blast
  have "part_path bs (H c) \<noteq> bs_root bs @ [Normal (H c)]" by (simp add: blob_paths [OF assms(3,4)])
  then have "pool_file s2 (part_path bs (H c)) = None" using run(4) assms(9) by (simp del: pool_file_None)
  moreover have "blob_get H bs (H c) s2 = (Inr (Some c), s2)"
    using slots.blob_get_eq [OF run(3) assms(2-4)] run(4) by simp
  ultimately show ?thesis using run(1,2) by blast
qed

theorem blob_transfer_any_order_witness:
  "\<exists>s1 s2. eachE (\<lambda>ch. write_incoming_chunk ex_blobs ex_hash (fst ch) (of_nat (length [7, 8 :: byte]))
        (byte_range (unat (fst ch)) (snd ch) [7, 8])) [(1, 1), (0, 1), (1, 1)] ex_pool = (Inr (), s1)
    \<and> finalize_incoming (\<lambda>_. ex_hash) ex_blobs ex_hash s1 = (Inr True, s2)
    \<and> blob_get (\<lambda>_. ex_hash) ex_blobs ex_hash s2 = (Inr (Some [7, 8]), s2)
    \<and> pool_file s2 (part_path ex_blobs ex_hash) = None"
  by (rule blob_transfer_any_order [of ex_pool ex_blobs "\<lambda>_. ex_hash" "[7, 8]" "[(1, 1), (0, 1), (1, 1)]"])
     (auto simp: ex_pool_ok ex_hash_valid ex_blob_paths ex_root(2)
        ex_pool_simps ex_pool_files chunk_fits_def covered_def simp del: pool_file_None)

text \<open>
  The store never hands back wrong bytes. Whatever the backend holds, a read that returns
  bytes returns bytes with the requested hash, and only for a well-formed hash.
\<close>

theorem blob_get_verified:
  assumes "blob_get H bs h s = (Inr (Some b), s')"
  shows "H b = h \<and> is_valid_hash h"
  using assms
  by (auto simp: blob_get_def bindE_def blob_path_def split: if_splits sum.splits prod.splits io_kind.splits)

text \<open>
  A chunk outside the declared blob is refused. A chunk that is accepted lies wholly within
  the announced length, also at the edge of the 64-bit range, and a refused one changes nothing.
\<close>

theorem chunk_out_of_range_refused:
  assumes "unat tlen < unat off + length b"
  shows "write_incoming_chunk bs h off tlen b s = (Inl Blob, s)"
proof (cases "checked_add off (length b)")
  case None
  then show ?thesis by (simp add: write_incoming_chunk_def)
next
  case (Some stop)
  then have "unat stop = unat off + length b"
    by (auto simp: checked_add_def unat_word_ariths(1) unat_of_nat split: if_splits)
  then show ?thesis using Some assms by (simp add: write_incoming_chunk_def word_less_nat_alt)
qed

text \<open>
  Hashes cannot escape the store. A path the store resolves is the root followed by one
  plain component without separators or dots; every other string is refused.
\<close>

theorem blob_path_confined:
  assumes "valid_str h"
  shows "blob_path bs h = (if is_valid_hash h then Inr (bs_root bs @ [Normal h]) else Inl Blob)
    \<and> (is_valid_hash h \<longrightarrow> slash \<notin> set h \<and> dot \<notin> set h \<and> length h = 64)"
proof -
  have "length h = 64" if "is_valid_hash h"
  proof -
    have "\<forall>c \<in> set h. utf8_char c = [byte_of c]"
      using valid_hash_chars [OF that assms] by (auto simp: list_all_iff hex_char_def utf8_char.simps)
    then have "length (utf8 h) = length h" by (induction h) auto
    then show ?thesis using that by (simp add: is_valid_hash_def str_len_def HASH_HEX_LEN_def)
  qed
  then show ?thesis using blob_paths(1) [OF _ assms, of bs] hash_names(4,5) [OF _ assms] by (simp add: blob_path_def)
qed

text \<open>
  Put then get. Storing bytes that are not yet present returns their hash, and reading that
  hash gives the bytes back.
\<close>

theorem blob_put_get:
  assumes "pool_ok s" "bs_fs bs = pool_fs" "is_valid_hash (H b)" "valid_str (H b)"
    "pool_path (bs_root bs @ [Normal (H b)])" "pool_path (bs_root bs @ [Normal (H b @ lit ''.tmp'')])"
    "\<not> pool_exists (bs_root bs @ [Normal (H b)]) s" "pool_room s (bs_root bs @ [Normal (H b @ lit ''.tmp'')])"
  shows "\<exists>s'. blob_put H bs b s = (Inr (H b), s') \<and> blob_get H bs (H b) s' = (Inr (Some b), s') \<and> pool_ok s'"
proof -
  have "pool_file s (bs_root bs @ [Normal (H b)]) = None" "\<not> pool_dir s (bs_root bs @ [Normal (H b)])"
    using assms(7) by (auto simp: pool_exists_def pool_dir_def)
  then obtain s' where s': "blob_put H bs b s = (Inr (H b), s')" "pool_ok s'"
      "pool_file s' = (pool_file s)(bs_root bs @ [Normal (H b @ lit ''.tmp'')] := None, bs_root bs @ [Normal (H b)] \<mapsto> b)"
    using slots.blob_put_fresh [where H = H and b = b, OF assms(1-4) refl assms(5) _ _ refl assms(6,8)] by blast
  then show ?thesis using slots.blob_get_eq [OF s'(2) assms(2-4)] by simp
qed

end
