(* ===== verification/Roster.thy ===== *)
theory Roster
  imports Storage_Base
begin

text \<open>
  The membership roster (\<open>roam-storage/src/roster.rs\<close>): roles, signed roster entries with their
  canonical bytes, and \<open>merge_roster\<close>, the fold of all entries into the current peer set. The
  theory shows that the admin set computed by the loop is the least closure of the grants, that
  the result depends only on the set of entries, and which entry decides each field of a record.
\<close>

section \<open>Roles, operations and entries\<close>

datatype role = Reader | Writer | Admin

fun role_byte :: "role \<Rightarrow> byte" where
  "role_byte Reader = 0"
| "role_byte Writer = 1"
| "role_byte Admin = 2"

text \<open>The derived order: ascending privilege.\<close>

instantiation role :: linorder
begin

definition less_eq_role :: "role \<Rightarrow> role \<Rightarrow> bool" where
  "less_eq_role a b \<longleftrightarrow> role_byte a \<le> role_byte b"

definition less_role :: "role \<Rightarrow> role \<Rightarrow> bool" where
  "less_role a b \<longleftrightarrow> role_byte a < role_byte b"

instance
proof
  fix a b c :: role
  show "a < b \<longleftrightarrow> a \<le> b \<and> \<not> b \<le> a" by (auto simp: less_role_def less_eq_role_def)
  show "a \<le> a" by (simp add: less_eq_role_def)
  show "a \<le> b \<Longrightarrow> b \<le> c \<Longrightarrow> a \<le> c" by (simp add: less_eq_role_def)
  show "a \<le> b \<Longrightarrow> b \<le> a \<Longrightarrow> a = b"
    by (cases a; cases b) (simp_all add: less_eq_role_def word_le_nat_alt)
  show "a \<le> b \<or> b \<le> a" by (auto simp: less_eq_role_def)
qed

end

definition role_from_str :: "ustr \<Rightarrow> (storage_error, role) res" where
  "role_from_str s =
     (let t = map to_ascii_lower (trim s) in
      if t = lit ''reader'' then Inr Reader
      else if t = lit ''writer'' then Inr Writer
      else if t = lit ''admin'' then Inr Admin
      else Inl Invalid)"

fun role_display :: "role \<Rightarrow> ustr" where
  "role_display Reader = lit ''reader''"
| "role_display Writer = lit ''writer''"
| "role_display Admin = lit ''admin''"

definition MAX_NAME_LEN :: nat where "MAX_NAME_LEN = 64"

datatype roster_op = Add role | SetRole role | Revoke | SetName ustr

record roster_entry =
  re_seq :: u64
  re_lamport :: u64
  re_op :: roster_op
  re_subject_peer :: peer
  re_subject_key :: bytes
  re_added_by :: peer

text \<open>The bytes an entry's signature covers.\<close>

fun op_tags :: "roster_op \<Rightarrow> byte \<times> byte" where
  "op_tags (Add r) = (0, role_byte r)"
| "op_tags (SetRole r) = (2, role_byte r)"
| "op_tags Revoke = (1, 0xFF)"
| "op_tags (SetName n) = (3, 0xFF)"

definition roster_canonical_bytes :: "roster_entry \<Rightarrow> bytes" where
  "roster_canonical_bytes e =
     ascii ''roam.roster.v3''
     @ u64_to_le (re_seq e)
     @ u64_to_le (re_lamport e)
     @ [fst (op_tags (re_op e)), snd (op_tags (re_op e))]
     @ u64_to_le (re_subject_peer e)
     @ re_subject_key e
     @ u64_to_le (re_added_by e)
     @ (case re_op e of SetName n \<Rightarrow> u32_to_le (of_nat (str_len n)) @ utf8 n | _ \<Rightarrow> [])"

datatype peer_status = Active | Revoked

record peer_record =
  pr_peer_id :: peer
  pr_verifying_key :: bytes
  pr_status :: peer_status
  pr_role :: role
  pr_name :: "ustr option"

section \<open>The merge\<close>

definition key_peer :: "bytes \<Rightarrow> peer" where
  "key_peer k = u64_of_le (take 8 k)"

definition valid_entry :: "roster_entry \<Rightarrow> bool" where
  "valid_entry e \<longleftrightarrow> re_subject_peer e = key_peer (re_subject_key e)"

definition grants_admin :: "roster_entry \<Rightarrow> bool" where
  "grants_admin e \<longleftrightarrow> re_op e = Add Admin \<or> re_op e = SetRole Admin"

text \<open>One pass of the closure loop over the valid entries; the hash set is a list of members.\<close>

definition admin_step :: "roster_entry \<Rightarrow> peer list \<Rightarrow> peer list" where
  "admin_step e A =
     (if grants_admin e \<and> re_added_by e \<in> set A then List.insert (re_subject_peer e) A else A)"

definition admin_pass :: "roster_entry list \<Rightarrow> peer list \<Rightarrow> peer list" where
  "admin_pass es A = fold admin_step es A"

lemma admin_pass_grows:
  "admin_pass es A = A
   \<or> length A < length (admin_pass es A) \<and> set A \<subset> set (admin_pass es A)
     \<and> set (admin_pass es A) \<subseteq> set A \<union> re_subject_peer ` set es"
proof (induction es arbitrary: A)
  case Nil
  then show ?case by (simp add: admin_pass_def)
next
  case (Cons e es)
  have "admin_step e A = A
    \<or> length A < length (admin_step e A) \<and> set A \<subset> set (admin_step e A)
      \<and> set (admin_step e A) \<subseteq> insert (re_subject_peer e) (set A)"
    by (auto simp: admin_step_def List.insert_def)
  moreover have "admin_pass (e # es) A = admin_pass es (admin_step e A)" by (simp add: admin_pass_def)
  ultimately show ?case using Cons.IH [of "admin_step e A"] by auto
qed

function ever_admin_loop :: "roster_entry list \<Rightarrow> peer list \<Rightarrow> peer list" where
  "ever_admin_loop es A =
     (let A' = admin_pass es A in
      if length A' = length A then A' else ever_admin_loop es A')"
  by pat_completeness auto
termination
proof (relation "measure (\<lambda>(es, A). card (re_subject_peer ` set es - set A))")
  fix es A and A' :: "peer list"
  assume A': "A' = admin_pass es A" and grown: "length A' \<noteq> length A"
  then have "set A \<subset> set A'" "set A' \<subseteq> set A \<union> re_subject_peer ` set es"
    using admin_pass_grows [of es A] by auto
  then have "re_subject_peer ` set es - set A' \<subset> re_subject_peer ` set es - set A" by blast
  then show "((es, A'), (es, A)) \<in> measure (\<lambda>(es, A). card (re_subject_peer ` set es - set A))"
    by (simp add: psubset_card_mono)
qed simp

declare ever_admin_loop.simps [simp del]

definition ever_admin :: "roster_entry list \<Rightarrow> peer option \<Rightarrow> peer list" where
  "ever_admin es founder = ever_admin_loop es (case founder of None \<Rightarrow> [] | Some f \<Rightarrow> [f])"

fun op_role :: "roster_op \<Rightarrow> role option" where
  "op_role (Add r) = Some r"
| "op_role (SetRole r) = Some r"
| "op_role Revoke = None"
| "op_role (SetName n) = None"

text \<open>The causal ceiling of a subject: the end of the contiguous run of grant lamports.\<close>

definition per_subject :: "roster_entry list \<Rightarrow> (peer, u64 list) btree" where
  "per_subject es =
     fold (\<lambda>e m. if op_role (re_op e) = None then m
                 else bt_upsert (re_subject_peer e) (bs_insert (re_lamport e)) [re_lamport e] m) es []"

fun ceiling_walk :: "nat \<Rightarrow> u64 \<Rightarrow> u64 list \<Rightarrow> u64" where
  "ceiling_walk i c [] = c"
| "ceiling_walk i c (l # ls) = (if i = 0 \<or> l \<le> c + 1 then ceiling_walk (Suc i) l ls else c)"

definition ceilings :: "roster_entry list \<Rightarrow> (peer, u64) btree" where
  "ceilings es = fold (\<lambda>(s, ls) m. bt_insert s (ceiling_walk 0 0 ls) m) (per_subject es) []"

text \<open>The winning role decision of a subject: \<open>(lamport, added_by, role)\<close>.\<close>

type_synonym cand = "u64 \<times> u64 \<times> role"

fun role_join :: "cand \<Rightarrow> cand \<Rightarrow> cand" where
  "role_join (l, a, r) (l', a', r') =
     (if (l', a') > (l, a) then (l', a', r')
      else if (l', a') = (l, a) then (l, a, min r r')
      else (l, a, r))"

definition key_join :: "bytes \<Rightarrow> bytes \<Rightarrow> bytes" where
  "key_join k c = (if c < k then c else k)"

definition ceil_at :: "(peer, u64) btree \<Rightarrow> peer \<Rightarrow> u64" where
  "ceil_at ceil s = (case bt_get ceil s of None \<Rightarrow> 0 | Some c \<Rightarrow> c)"

record merge_state =
  ms_keys :: "(peer, bytes) btree"
  ms_revoked :: "peer list"
  ms_roles :: "(peer, cand) btree"

definition merge_step :: "(peer, u64) btree \<Rightarrow> roster_entry \<Rightarrow> merge_state \<Rightarrow> merge_state" where
  "merge_step ceil e ms =
     (let ms' = ms\<lparr>ms_keys := bt_upsert (re_subject_peer e) (\<lambda>k. key_join k (re_subject_key e))
                                 (re_subject_key e) (ms_keys ms)\<rparr> in
      case re_op e of
        Revoke \<Rightarrow> ms'\<lparr>ms_revoked := List.insert (re_subject_peer e) (ms_revoked ms')\<rparr>
      | SetName _ \<Rightarrow> ms'
      | op \<Rightarrow>
          if re_lamport e > ceil_at ceil (re_subject_peer e) then ms'
          else let cand = (re_lamport e, re_added_by e, the (op_role op)) in
               ms'\<lparr>ms_roles := bt_upsert (re_subject_peer e) (\<lambda>cur. role_join cur cand) cand (ms_roles ms')\<rparr>)"

text \<open>Self-asserted names: the last entry whose \<open>seq\<close> is at least the slot's.\<close>

definition name_step :: "roster_entry \<Rightarrow> (peer, u64 \<times> ustr) btree \<Rightarrow> (peer, u64 \<times> ustr) btree" where
  "name_step e m =
     (case re_op e of
        SetName n \<Rightarrow>
          if re_added_by e \<noteq> re_subject_peer e then m
          else let f = (\<lambda>slot. if re_seq e \<ge> fst slot then (re_seq e, n) else slot) in
               bt_upsert (re_subject_peer e) f (f (0, [])) m
      | _ \<Rightarrow> m)"

definition merge_roster :: "roster_entry list \<Rightarrow> peer option \<Rightarrow> peer_record list" where
  "merge_roster entries founder =
     (let valid = filter valid_entry entries;
          admins = ever_admin valid founder;
          trusted = filter (\<lambda>e. re_added_by e \<in> set admins) valid;
          ceil = ceilings trusted;
          ms = fold (merge_step ceil) trusted \<lparr>ms_keys = [], ms_revoked = [], ms_roles = []\<rparr>;
          names = fold name_step valid [];
          out = map (\<lambda>(subject, (_, _, role)).
                      \<lparr>pr_peer_id = subject,
                       pr_verifying_key = the (bt_get (ms_keys ms) subject),
                       pr_status = (if subject \<in> set (ms_revoked ms) then Revoked else Active),
                       pr_role = role,
                       pr_name = map_option snd (bt_get names subject)\<rparr>) (ms_roles ms)
      in sort_key pr_peer_id out)"

section \<open>The admin set\<close>

text \<open>The specification: the least set with the founder that is closed under admin grants.\<close>

inductive admin_closure :: "roster_entry set \<Rightarrow> peer option \<Rightarrow> peer \<Rightarrow> bool"
  for E :: "roster_entry set" and founder :: "peer option" where
  founder: "founder = Some f \<Longrightarrow> admin_closure E founder f"
| grant: "e \<in> E \<Longrightarrow> grants_admin e \<Longrightarrow> admin_closure E founder (re_added_by e)
    \<Longrightarrow> admin_closure E founder (re_subject_peer e)"

inductive_cases admin_closureE: "admin_closure E founder p"

lemma admin_closure_mono:
  assumes "admin_closure E f p" "E \<subseteq> E'"
  shows "admin_closure E' f p"
  using assms(1) by induction (use assms(2) in \<open>auto intro: admin_closure.intros\<close>)

lemma admin_step_sound:
  "e \<in> E \<Longrightarrow> \<forall>p \<in> set A. admin_closure E f p \<Longrightarrow> \<forall>p \<in> set (admin_step e A). admin_closure E f p"
  by (auto simp: admin_step_def intro: admin_closure.grant)

lemma admin_pass_sound:
  "set es \<subseteq> E \<Longrightarrow> \<forall>p \<in> set A. admin_closure E f p \<Longrightarrow> \<forall>p \<in> set (admin_pass es A). admin_closure E f p"
proof (induction es arbitrary: A)
  case (Cons e es)
  have "\<forall>p \<in> set (admin_step e A). admin_closure E f p"
    using Cons.prems by (intro admin_step_sound) auto
  then show ?case using Cons by (simp add: admin_pass_def)
qed (simp add: admin_pass_def)

lemma admin_pass_fixed:
  assumes "admin_pass es A = A" "e \<in> set es" "grants_admin e" "re_added_by e \<in> set A"
  shows "re_subject_peer e \<in> set A"
  using assms(1,2)
proof (induction es)
  case (Cons d es)
  have d: "admin_step d A = A \<or> set A \<subset> set (admin_step d A)"
    by (auto simp: admin_step_def List.insert_def)
  have pass: "admin_pass es (admin_step d A) = A" using Cons.prems(1) by (simp add: admin_pass_def)
  then have "set (admin_step d A) \<subseteq> set A" using admin_pass_grows [of es "admin_step d A"] by auto
  then have step: "admin_step d A = A" using d by auto
  then show ?case
    using Cons pass assms(3,4) by (auto simp: admin_step_def List.insert_def split: if_splits)
qed simp

lemma ever_admin_loop_spec:
  "(\<forall>p \<in> set A. admin_closure (set es) f p) \<Longrightarrow>
     set A \<subseteq> set (ever_admin_loop es A)
     \<and> (\<forall>p \<in> set (ever_admin_loop es A). admin_closure (set es) f p)
     \<and> admin_pass es (ever_admin_loop es A) = ever_admin_loop es A"
proof (induction es A rule: ever_admin_loop.induct)
  case (1 es A)
  let ?A = "admin_pass es A"
  have grows: "set A \<subseteq> set ?A" using admin_pass_grows [of es A] by auto
  have sound: "\<forall>p \<in> set ?A. admin_closure (set es) f p" using admin_pass_sound [OF subset_refl 1(2)] .
  show ?case
  proof (cases "length ?A = length A")
    case True
    then have "?A = A" using admin_pass_grows [of es A] by auto
    moreover from this have "ever_admin_loop es A = A" by (subst ever_admin_loop.simps) simp
    ultimately show ?thesis using 1(2) by simp
  next
    case False
    then have "ever_admin_loop es A = ever_admin_loop es ?A" by (subst ever_admin_loop.simps) simp
    then show ?thesis using 1(1) [OF refl False sound] grows by auto
  qed
qed

text \<open>The loop computes exactly the closure.\<close>

lemma set_ever_admin: "set (ever_admin es founder) = {p. admin_closure (set es) founder p}"
proof -
  let ?A = "case founder of None \<Rightarrow> [] | Some f \<Rightarrow> [f]"
  have seed: "\<forall>p \<in> set ?A. admin_closure (set es) founder p"
    by (auto split: option.splits intro: admin_closure.founder)
  note spec = ever_admin_loop_spec [OF seed]
  have "p \<in> set (ever_admin_loop es ?A)" if "admin_closure (set es) founder p" for p
    using that
  proof induction
    case (founder f)
    then show ?case using spec by auto
  next
    case (grant e)
    then show ?case using spec admin_pass_fixed by blast
  qed
  then show ?thesis using spec by (auto simp: ever_admin_def)
qed

section \<open>Causal ceilings\<close>

lemma less_succ_le_iff:
  fixes c l :: u64
  assumes "c < l"
  shows "l \<le> c + 1 \<longleftrightarrow> l = c + 1"
  using inc_le [OF assms] by auto

lemma less_succ:
  fixes c l :: u64
  assumes "c < l"
  shows "c < c + 1"
proof -
  have "unat c + 1 < 2 ^ 64" using assms unsigned_less [of l, where 'a = nat] by (simp add: word_less_nat_alt)
  then show ?thesis by (simp add: word_less_nat_alt unat_word_ariths(1))
qed

text \<open>
  \<open>grounded S x\<close>: \<open>x\<close> lies on the contiguous run of \<open>S\<close> that starts at its minimum \<open>m\<close>.
\<close>

definition grounded :: "u64 set \<Rightarrow> u64 \<Rightarrow> u64 \<Rightarrow> bool" where
  "grounded S m x \<longleftrightarrow> (\<forall>y. m \<le> y \<and> y \<le> x \<longrightarrow> y \<in> S)"

lemma ceiling_walk_grounded:
  assumes "sorted_wrt (<) (c # ls)"
  shows "ceiling_walk (Suc i) c ls \<in> set (c # ls)
    \<and> (\<forall>x \<in> set (c # ls). x \<le> ceiling_walk (Suc i) c ls \<longleftrightarrow> grounded (set (c # ls)) c x)"
  using assms
proof (induction ls arbitrary: c i)
  case Nil
  then show ?case by (auto simp: grounded_def)
next
  case (Cons l ls)
  let ?r = "ceiling_walk (Suc (Suc i)) l ls"
  have cl: "c < l" and above: "\<forall>x \<in> set ls. l < x" using Cons.prems by auto
  have IH: "?r \<in> set (l # ls)" "\<forall>x \<in> set (l # ls). x \<le> ?r \<longleftrightarrow> grounded (set (l # ls)) l x"
    using Cons.IH [of l "Suc i"] Cons.prems by auto
  show ?case
  proof (cases "l \<le> c + 1")
    case True
    then have l: "l = c + 1" using less_succ_le_iff [OF cl] by simp
    have "c \<le> ?r" using IH(1) above cl by auto
    have split: "c \<le> y \<longleftrightarrow> y = c \<or> l \<le> y" for y
      unfolding l using inc_le [of c y] cl l by (auto simp: order_le_less)
    have "grounded (set (c # l # ls)) c x \<longleftrightarrow> grounded (set (l # ls)) l x" if "x \<in> set (l # ls)" for x
    proof -
      have "y \<in> set (c # l # ls) \<longleftrightarrow> y \<in> set (l # ls)" if "l \<le> y" for y using that cl by auto
      moreover have "c \<le> x" using that above cl by auto
      ultimately show ?thesis unfolding grounded_def split by auto
    qed
    moreover have "grounded (set (c # l # ls)) c c" by (auto simp: grounded_def)
    ultimately show ?thesis using True IH \<open>c \<le> ?r\<close> by auto
  next
    case False
    then have "c + 1 < l" by simp
    moreover have "c < c + 1" by (rule less_succ [OF cl])
    ultimately have gap: "c + 1 \<notin> set (c # l # ls)" using above by auto
    have "\<not> grounded (set (c # l # ls)) c x" if "x \<in> set (l # ls)" for x
    proof -
      have "c + 1 \<le> x" using that above \<open>c + 1 < l\<close> by (metis less_le_trans less_imp_le order.trans set_ConsD)
      then show ?thesis using gap \<open>c < c + 1\<close> less_imp_le unfolding grounded_def by blast
    qed
    then show ?thesis using False above cl by (auto simp: grounded_def)
  qed
qed

text \<open>The lamports of the role decisions about a subject.\<close>

definition grant_lamports :: "roster_entry set \<Rightarrow> peer \<Rightarrow> u64 set" where
  "grant_lamports E s = {re_lamport e | e. e \<in> E \<and> re_subject_peer e = s \<and> op_role (re_op e) \<noteq> None}"

lemma grant_lamports_insert:
  "grant_lamports (insert e E) s =
     (if re_subject_peer e = s \<and> op_role (re_op e) \<noteq> None then insert (re_lamport e) (grant_lamports E s)
      else grant_lamports E s)"
  by (auto simp: grant_lamports_def)

lemma per_subject_snoc:
  "per_subject (es @ [e]) =
     (if op_role (re_op e) = None then per_subject es
      else bt_upsert (re_subject_peer e) (bs_insert (re_lamport e)) [re_lamport e] (per_subject es))"
  by (simp add: per_subject_def)

lemma bt_ok_per_subject: "bt_ok (per_subject es)"
  by (induction es rule: rev_induct) (auto simp: per_subject_snoc, simp add: per_subject_def)

lemma per_subject_get:
  "case bt_get (per_subject es) s of
     None \<Rightarrow> grant_lamports (set es) s = {}
   | Some ls \<Rightarrow> ls \<noteq> [] \<and> sorted_wrt (<) ls \<and> set ls = grant_lamports (set es) s"
proof (induction es rule: rev_induct)
  case Nil
  then show ?case by (simp add: per_subject_def grant_lamports_def)
next
  case (snoc e es)
  have ne: "bs_insert l ls \<noteq> []" for l :: u64 and ls by (metis empty_iff insertI1 list.set(1) set_bs_insert)
  show ?case
  proof (cases "op_role (re_op e) = None \<or> re_subject_peer e \<noteq> s")
    case True
    then have "bt_get (per_subject (es @ [e])) s = bt_get (per_subject es) s"
      by (auto simp: per_subject_snoc bt_get_upsert bt_ok_per_subject)
    moreover have "grant_lamports (set (es @ [e])) s = grant_lamports (set es) s"
      using True by (auto simp: grant_lamports_insert)
    ultimately show ?thesis using snoc by (simp only:)
  next
    case False
    then show ?thesis
      using snoc by (cases "bt_get (per_subject es) s")
        (simp_all add: per_subject_snoc bt_get_upsert bt_ok_per_subject grant_lamports_insert sorted_bs_insert ne)
  qed
qed

lemma bt_get_fold_insert:
  assumes "distinct (map fst xs)" "bt_ok m"
  shows "bt_ok (fold (\<lambda>(s, ls) m. bt_insert s (g ls) m) xs m)
    \<and> bt_get (fold (\<lambda>(s, ls) m. bt_insert s (g ls) m) xs m) k =
        (case map_of xs k of Some ls \<Rightarrow> Some (g ls) | None \<Rightarrow> bt_get m k)"
  using assms
proof (induction xs arbitrary: m)
  case (Cons p xs)
  obtain s ls where p: "p = (s, ls)" by (cases p)
  have "map_of xs s = None" using Cons.prems by (simp add: p map_of_eq_None_iff)
  then show ?case
    using Cons.IH [of "bt_insert s (g ls) m"] Cons.prems
    by (auto simp: p bt_ok_insert bt_get_insert split: option.splits)
qed simp

lemma bt_get_ceilings:
  "bt_get (ceilings es) s = map_option (ceiling_walk 0 0) (bt_get (per_subject es) s)"
  using bt_get_fold_insert [of "per_subject es" "[]" "ceiling_walk 0 0" s]
  by (simp add: ceilings_def bt_ok_distinct bt_ok_per_subject bt_get_def [of "per_subject es"]
      split: option.splits)

text \<open>The gap rule: a decision is admissible when its clock lies on the contiguous run.\<close>

definition admissible :: "roster_entry set \<Rightarrow> peer \<Rightarrow> u64 \<Rightarrow> bool" where
  "admissible E s l \<longleftrightarrow> grounded (grant_lamports E s) (Min (grant_lamports E s)) l"

lemma ceiling_admissible:
  assumes "e \<in> set es" "op_role (re_op e) \<noteq> None"
  shows "re_lamport e \<le> ceil_at (ceilings es) (re_subject_peer e)
    \<longleftrightarrow> admissible (set es) (re_subject_peer e) (re_lamport e)"
proof -
  let ?L = "grant_lamports (set es) (re_subject_peer e)"
  have mem: "re_lamport e \<in> ?L" using assms by (auto simp: grant_lamports_def)
  then obtain ls where ls: "bt_get (per_subject es) (re_subject_peer e) = Some ls"
    "ls \<noteq> []" "sorted_wrt (<) ls" "set ls = ?L"
    using per_subject_get [of es "re_subject_peer e"] by (auto split: option.splits)
  then obtain c cs where cs: "ls = c # cs" by (cases ls) auto
  have "Min (set (c # cs)) = c" using ls(3) cs by (intro Min_eqI) auto
  then have "Min ?L = c" using ls(4) cs by simp
  moreover have "\<forall>x \<in> set ls. x \<le> ceiling_walk 0 0 ls \<longleftrightarrow> grounded (set ls) c x"
    using ceiling_walk_grounded [of c cs 0] ls(3) cs by simp
  ultimately show ?thesis
    using ls(1,4) mem by (simp add: ceil_at_def bt_get_ceilings admissible_def)
qed

section \<open>The components of the merge\<close>

definition key_contribs :: "roster_entry list \<Rightarrow> (peer \<times> bytes) list" where
  "key_contribs es = map (\<lambda>e. (re_subject_peer e, re_subject_key e)) es"

definition role_contribs :: "(peer, u64) btree \<Rightarrow> roster_entry list \<Rightarrow> (peer \<times> cand) list" where
  "role_contribs ceil es =
     concat (map (\<lambda>e. case op_role (re_op e) of
                        None \<Rightarrow> []
                      | Some r \<Rightarrow>
                          if re_lamport e > ceil_at ceil (re_subject_peer e)
                          then [] else [(re_subject_peer e, re_lamport e, re_added_by e, r)]) es)"

lemma merge_step_fields:
  "ms_keys (merge_step ceil e ms) = bt_join_all key_join (key_contribs [e]) (ms_keys ms)"
  "ms_roles (merge_step ceil e ms) = bt_join_all role_join (role_contribs ceil [e]) (ms_roles ms)"
  "set (ms_revoked (merge_step ceil e ms)) =
     set (ms_revoked ms) \<union> {re_subject_peer e | _::unit. re_op e = Revoke}"
  subgoal by (cases "re_op e") (simp_all add: merge_step_def key_contribs_def role_contribs_def Let_def)
  subgoal by (cases "re_op e") (simp_all add: merge_step_def key_contribs_def role_contribs_def Let_def)
  subgoal by (cases "re_op e") (simp_all add: merge_step_def key_contribs_def role_contribs_def Let_def)
  done

lemma merge_fold_fields:
  "ms_keys (fold (merge_step ceil) es ms) = bt_join_all key_join (key_contribs es) (ms_keys ms)
   \<and> ms_roles (fold (merge_step ceil) es ms) = bt_join_all role_join (role_contribs ceil es) (ms_roles ms)
   \<and> set (ms_revoked (fold (merge_step ceil) es ms)) =
       set (ms_revoked ms) \<union> {re_subject_peer e | e. e \<in> set es \<and> re_op e = Revoke}"
proof (induction es arbitrary: ms)
  case Nil
  then show ?case by (simp add: key_contribs_def role_contribs_def)
next
  case (Cons e es)
  have "key_contribs (e # es) = key_contribs [e] @ key_contribs es"
    "role_contribs ceil (e # es) = role_contribs ceil [e] @ role_contribs ceil es"
    by (simp_all add: key_contribs_def role_contribs_def)
  then show ?case using Cons.IH [of "merge_step ceil e ms"] by (auto simp: merge_step_fields)
qed

text \<open>Role decisions are ordered by lamport, then author, then least privilege.\<close>

fun cand_rank :: "cand \<Rightarrow> u64 \<times> u64 \<times> nat" where
  "cand_rank (l, a, r) = (l, a, 2 - unat (role_byte r))"

lemma role_byte_le: "unat (role_byte r) \<le> 2"
  by (cases r) simp_all

lemma role_byte_inj: "unat (role_byte r) = unat (role_byte r') \<Longrightarrow> r = r'"
  by (cases r; cases r') simp_all

lemma role_min_byte: "unat (role_byte (min r r')) = min (unat (role_byte r)) (unat (role_byte r'))"
  by (cases r; cases r') (simp_all add: min_def less_eq_role_def word_le_nat_alt)

interpretation role_merge: rank_map role_join cand_rank
proof
  fix a b :: cand
  obtain l x r where a: "a = (l, x, r)" by (cases a)
  obtain l' x' r' where b: "b = (l', x', r')" by (cases b)
  show "cand_rank (role_join a b) = max (cand_rank a) (cand_rank b)"
    using role_byte_le [of r] role_byte_le [of r']
    by (auto simp: a b max_def role_min_byte min_def less_eq_role_def word_le_nat_alt [of "role_byte _"])
  show "cand_rank a = cand_rank b \<Longrightarrow> a = b"
    using role_byte_le [of r] role_byte_le [of r'] by (auto simp: a b intro: role_byte_inj)
qed

interpretation key_merge: select_map key_join
  by unfold_locales (auto simp: key_join_def)

section \<open>What decides each field of a record\<close>

text \<open>The entries the merge acts on: valid ones authored by a member of the admin closure.\<close>

definition trusted_set :: "roster_entry set \<Rightarrow> peer option \<Rightarrow> roster_entry set" where
  "trusted_set E founder =
     {e \<in> E. valid_entry e \<and> admin_closure {e \<in> E. valid_entry e} founder (re_added_by e)}"

definition decisions :: "roster_entry set \<Rightarrow> peer \<Rightarrow> cand set" where
  "decisions T s =
     {(re_lamport e, re_added_by e, r) | e r.
        e \<in> T \<and> re_subject_peer e = s \<and> op_role (re_op e) = Some r \<and> admissible T s (re_lamport e)}"

definition winning :: "roster_entry set \<Rightarrow> peer \<Rightarrow> role \<Rightarrow> bool" where
  "winning T s r \<longleftrightarrow>
     (\<exists>l a. (l, a, r) \<in> decisions T s \<and> (\<forall>d \<in> decisions T s. cand_rank d \<le> cand_rank (l, a, r)))"

definition revoked_in :: "roster_entry set \<Rightarrow> peer \<Rightarrow> bool" where
  "revoked_in T s \<longleftrightarrow> (\<exists>e \<in> T. re_subject_peer e = s \<and> re_op e = Revoke)"

definition subject_keys :: "roster_entry set \<Rightarrow> peer \<Rightarrow> bytes set" where
  "subject_keys T s = re_subject_key ` {e \<in> T. re_subject_peer e = s}"

definition name_of :: "roster_entry list \<Rightarrow> peer \<Rightarrow> ustr option" where
  "name_of es s = map_option snd (bt_get (fold name_step (filter valid_entry es) []) s)"

lemma set_role_contribs:
  "set (role_contribs (ceilings es) es) = {(s, d). d \<in> decisions (set es) s}"
proof -
  have one: "x \<in> set (role_contribs c [e]) \<longleftrightarrow>
    (\<exists>r. op_role (re_op e) = Some r \<and> re_lamport e \<le> ceil_at c (re_subject_peer e)
       \<and> x = (re_subject_peer e, re_lamport e, re_added_by e, r))" for c e x
    by (cases "op_role (re_op e)") (auto simp: role_contribs_def)
  have "set (role_contribs (ceilings es) es) = (\<Union>e \<in> set es. set (role_contribs (ceilings es) [e]))"
    by (simp add: role_contribs_def)
  then have "x \<in> set (role_contribs (ceilings es) es) \<longleftrightarrow>
    (\<exists>e \<in> set es. \<exists>r. op_role (re_op e) = Some r \<and> admissible (set es) (re_subject_peer e) (re_lamport e)
       \<and> x = (re_subject_peer e, re_lamport e, re_added_by e, r))" for x
    using ceiling_admissible [of _ es] by (simp add: one) blast
  then show ?thesis unfolding decisions_def by auto
qed

lemma role_slot:
  "bt_get (bt_join_all role_join (role_contribs (ceilings es) es) []) s = Some d \<longleftrightarrow>
     d \<in> decisions (set es) s \<and> (\<forall>x \<in> decisions (set es) s. cand_rank x \<le> cand_rank d)"
  unfolding role_merge.slot_max set_role_contribs by auto

lemma key_slot:
  assumes "s \<in> re_subject_peer ` set es"
  shows "bt_get (bt_join_all key_join (key_contribs es) []) s = Some (Min (subject_keys (set es) s))"
proof -
  let ?K = "subject_keys (set es) s"
  have K: "finite ?K" "?K \<noteq> {}" using assms by (auto simp: subject_keys_def)
  have mem: "(s, k) \<in> set (key_contribs es) \<longleftrightarrow> k \<in> ?K" for k
    by (auto simp: key_contribs_def subject_keys_def)
  show ?thesis
    unfolding key_merge.slot_iff mem using K by (auto simp: key_join_def dest: Min_le)
qed

lemma set_trusted:
  "set (filter (\<lambda>e. re_added_by e \<in> set (ever_admin (filter valid_entry es) founder)) (filter valid_entry es))
     = trusted_set (set es) founder"
  by (auto simp: set_ever_admin trusted_set_def)

text \<open>The record of a subject, field by field.\<close>

lemma merge_roster_records:
  "p \<in> set (merge_roster es founder) \<longleftrightarrow>
     winning (trusted_set (set es) founder) (pr_peer_id p) (pr_role p)
     \<and> pr_verifying_key p = Min (subject_keys (trusted_set (set es) founder) (pr_peer_id p))
     \<and> pr_status p = (if revoked_in (trusted_set (set es) founder) (pr_peer_id p) then Revoked else Active)
     \<and> pr_name p = name_of es (pr_peer_id p)"
proof -
  define ts where "ts = filter (\<lambda>e. re_added_by e \<in> set (ever_admin (filter valid_entry es) founder)) (filter valid_entry es)"
  let ?T = "trusted_set (set es) founder"
  let ?ms = "fold (merge_step (ceilings ts)) ts \<lparr>ms_keys = [], ms_revoked = [], ms_roles = []\<rparr>"
  have T: "set ts = ?T" unfolding ts_def by (rule set_trusted)
  have roles: "(s, d) \<in> set (ms_roles ?ms) \<longleftrightarrow>
      d \<in> decisions ?T s \<and> (\<forall>x \<in> decisions ?T s. cand_rank x \<le> cand_rank d)" for s d
    using role_slot [of ts s d] bt_get_iff [of "ms_roles ?ms" s d]
    by (simp add: merge_fold_fields bt_ok_join_all T)
  have revoked: "s \<in> set (ms_revoked ?ms) \<longleftrightarrow> revoked_in ?T s" for s
    by (auto simp: merge_fold_fields revoked_in_def T)
  have keys: "the (bt_get (ms_keys ?ms) s) = Min (subject_keys ?T s)" if "d \<in> decisions ?T s" for s d
    using that key_slot [of s ts] by (auto simp: merge_fold_fields T decisions_def)
  define rec where "rec = (\<lambda>s r. \<lparr>pr_peer_id = s, pr_verifying_key = the (bt_get (ms_keys ?ms) s),
              pr_status = (if s \<in> set (ms_revoked ?ms) then Revoked else Active),
              pr_role = r, pr_name = name_of es s\<rparr>)"
  have rec: "pr_peer_id (rec s r) = s" "pr_role (rec s r) = r" for s r by (simp_all add: rec_def)
  have "merge_roster es founder = sort_key pr_peer_id (map (\<lambda>(s, (_, _, r)). rec s r) (ms_roles ?ms))"
    by (simp add: merge_roster_def Let_def ts_def name_of_def rec_def)
  then have "p \<in> set (merge_roster es founder) \<longleftrightarrow>
      p \<in> (\<lambda>(s, (_, _, r)). rec s r) ` set (ms_roles ?ms)"
    by (simp only: set_sort set_map)
  also have "\<dots> \<longleftrightarrow> (\<exists>s l a r. (s, l, a, r) \<in> set (ms_roles ?ms) \<and> p = rec s r)"
    by (simp only: image_iff Bex_def split_paired_Ex split_conv)
  also have "\<dots> \<longleftrightarrow> (\<exists>l a. (pr_peer_id p, l, a, pr_role p) \<in> set (ms_roles ?ms)) \<and> p = rec (pr_peer_id p) (pr_role p)"
    using rec by metis
  also have "\<dots> \<longleftrightarrow> winning ?T (pr_peer_id p) (pr_role p) \<and> p = rec (pr_peer_id p) (pr_role p)"
    unfolding roles winning_def ..
  also have "\<dots> \<longleftrightarrow> winning ?T (pr_peer_id p) (pr_role p)
     \<and> pr_verifying_key p = Min (subject_keys ?T (pr_peer_id p))
     \<and> pr_status p = (if revoked_in ?T (pr_peer_id p) then Revoked else Active)
     \<and> pr_name p = name_of es (pr_peer_id p)"
    unfolding rec_def revoked by (rule conj_cong [OF refl], cases p) (auto simp: winning_def keys)
  finally show ?thesis .
qed

lemma merge_roster_sorted: "sorted_wrt (<) (map pr_peer_id (merge_roster es founder))"
proof -
  define ts where "ts = filter (\<lambda>e. re_added_by e \<in> set (ever_admin (filter valid_entry es) founder)) (filter valid_entry es)"
  define roles where "roles = ms_roles (fold (merge_step (ceilings ts)) ts \<lparr>ms_keys = [], ms_revoked = [], ms_roles = []\<rparr>)"
  obtain rec where rec: "merge_roster es founder = sort_key pr_peer_id (map rec roles)"
    "\<And>x. pr_peer_id (rec x) = fst x"
    by (rule that [of "\<lambda>(s, (_, _, r)). \<lparr>pr_peer_id = s, pr_verifying_key = _ s, pr_status = _ s,
        pr_role = r, pr_name = _ s\<rparr>"])
       (auto simp: merge_roster_def Let_def ts_def roles_def split: prod.splits)
  have "bt_ok roles" by (simp add: roles_def merge_fold_fields bt_ok_join_all)
  then have "distinct (map pr_peer_id (map rec roles))" by (simp add: comp_def rec(2) bt_ok_distinct)
  then have "distinct (map pr_peer_id (merge_roster es founder))"
    unfolding rec(1) by (metis distinct_map distinct_sort set_sort)
  then show ?thesis by (simp add: strict_sorted_iff rec(1))
qed

section \<open>Names\<close>

definition self_names :: "roster_entry set \<Rightarrow> peer \<Rightarrow> (u64 \<times> ustr) set" where
  "self_names E s = {(re_seq e, n) | e n.
     e \<in> E \<and> valid_entry e \<and> re_subject_peer e = s \<and> re_added_by e = s \<and> re_op e = SetName n}"

lemma name_step_get:
  assumes "bt_ok m"
  shows "bt_ok (name_step e m) \<and> bt_get (name_step e m) s =
    (case re_op e of
       SetName n \<Rightarrow>
         if re_subject_peer e = s \<and> re_added_by e = s
         then (case bt_get m s of
                 None \<Rightarrow> Some (re_seq e, n)
               | Some slot \<Rightarrow> Some (if re_seq e \<ge> fst slot then (re_seq e, n) else slot))
         else bt_get m s
     | _ \<Rightarrow> bt_get m s)"
  using assms by (cases "re_op e") (auto simp: name_step_def bt_ok_upsert bt_get_upsert split: option.splits)

lemma bt_ok_names: "bt_ok (fold name_step es [])"
  by (induction es rule: rev_induct) (auto simp: name_step_get)

text \<open>A name is one the peer asserted of itself, with the highest sequence number.\<close>

lemma names_slot:
  "case bt_get (fold name_step (filter valid_entry es) []) s of
     None \<Rightarrow> self_names (set es) s = {}
   | Some slot \<Rightarrow> slot \<in> self_names (set es) s \<and> (\<forall>x \<in> self_names (set es) s. fst x \<le> fst slot)"
proof (induction es rule: rev_induct)
  case Nil
  then show ?case by (simp add: self_names_def)
next
  case (snoc e es)
  let ?m = "fold name_step (filter valid_entry es) []"
  have ins: "self_names (insert e E) s = self_names E s \<union>
      {(re_seq e, n) | n. valid_entry e \<and> re_subject_peer e = s \<and> re_added_by e = s \<and> re_op e = SetName n}" for E
    by (auto simp: self_names_def)
  show ?case
  proof (cases "valid_entry e \<and> re_subject_peer e = s \<and> re_added_by e = s \<and> (\<exists>n. re_op e = SetName n)")
    case False
    then have "bt_get (fold name_step (filter valid_entry (es @ [e])) []) s = bt_get ?m s"
      by (cases "re_op e") (auto simp: name_step_get bt_ok_names)
    moreover have "self_names (set (es @ [e])) s = self_names (set es) s"
      using False by (auto simp: ins)
    ultimately show ?thesis using snoc by (simp only:)
  next
    case True
    then obtain n where n: "re_op e = SetName n" by blast
    have "self_names (set (es @ [e])) s = insert (re_seq e, n) (self_names (set es) s)"
      using True n by (auto simp: ins)
    then show ?thesis
      using snoc True n by (cases "bt_get ?m s") (auto simp: name_step_get bt_ok_names)
  qed
qed

lemma name_of_cases:
  "case name_of es s of
     None \<Rightarrow> self_names (set es) s = {}
   | Some n \<Rightarrow> \<exists>q. (q, n) \<in> self_names (set es) s \<and> (\<forall>x \<in> self_names (set es) s. fst x \<le> q)"
  using names_slot [of es s]
  by (cases "bt_get (fold name_step (filter valid_entry es) []) s") (auto simp: name_of_def)

text \<open>No author signed two different names under one sequence number.\<close>

definition names_unambiguous :: "roster_entry set \<Rightarrow> bool" where
  "names_unambiguous E \<longleftrightarrow>
     (\<forall>e \<in> E. \<forall>d \<in> E. \<forall>n m. re_op e = SetName n \<and> re_op d = SetName m
        \<and> re_added_by e = re_added_by d \<and> re_seq e = re_seq d \<longrightarrow> n = m)"

lemma name_of_set:
  assumes "set es = set es'" "names_unambiguous (set es)"
  shows "name_of es s = name_of es' s"
proof -
  have inj: "n = m" if n: "(q, n) \<in> self_names (set es) s" and m: "(q, m) \<in> self_names (set es) s" for q n m
  proof -
    from n obtain e where "e \<in> set es" "re_added_by e = s" "re_op e = SetName n" "re_seq e = q"
      by (auto simp: self_names_def)
    moreover from m obtain d where "d \<in> set es" "re_added_by d = s" "re_op d = SetName m" "re_seq d = q"
      by (auto simp: self_names_def)
    ultimately show "n = m" using assms(2) unfolding names_unambiguous_def by metis
  qed
  show ?thesis
  proof (cases "self_names (set es) s = {}")
    case True
    then have "name_of xs s = None" if "set xs = set es" for xs
      using name_of_cases [of xs s] that by (auto split: option.splits)
    then show ?thesis using assms(1) by metis
  next
    case False
    then have some: "\<exists>n q. name_of xs s = Some n \<and> (q, n) \<in> self_names (set es) s
        \<and> (\<forall>x \<in> self_names (set es) s. fst x \<le> q)" if "set xs = set es" for xs
      using name_of_cases [of xs s] that by (cases "name_of xs s") auto
    obtain n q where
      n: "name_of es s = Some n" "(q, n) \<in> self_names (set es) s" "\<forall>x \<in> self_names (set es) s. fst x \<le> q"
      using some [OF refl] by blast
    obtain m q' where
      m: "name_of es' s = Some m" "(q', m) \<in> self_names (set es) s" "\<forall>x \<in> self_names (set es) s. fst x \<le> q'"
      using some [OF assms(1) [symmetric]] by blast
    have "q = q'" using n(2,3) m(2,3) by (force intro: antisym)
    then show ?thesis using n m inj by metis
  qed
qed

end
