(* ===== verification/Roster_Merge.thy ===== *)
theory Roster_Merge
  imports Roster
begin

text \<open>
  The guarantees of the roster merge: it converges (the result depends only on the set of
  entries), every field of a record is decided by the entries named in the documentation of
  \<open>merge_roster\<close>, revocation is terminal, entries of untrusted authors and forged clocks have no
  effect, names never touch privilege, and the signed bytes of an entry determine it.
\<close>

lemma merge_roster_eqI:
  assumes "trusted_set (set es) f = trusted_set (set es') f" "\<And>s. name_of es s = name_of es' s"
  shows "merge_roster es f = merge_roster es' f"
proof -
  have "set (merge_roster es f) = set (merge_roster es' f)"
    using merge_roster_records [of _ es f] merge_roster_records [of _ es' f] assms by auto
  moreover have "inj_on pr_peer_id (set (merge_roster es f) \<union> set (merge_roster es' f))"
    using calculation merge_roster_sorted [of es f] by (simp add: strict_sorted_iff distinct_map)
  ultimately show ?thesis
    using merge_roster_sorted [of es f] merge_roster_sorted [of es' f]
    by (intro map_sorted_distinct_set_unique) (auto simp: strict_sorted_iff)
qed

lemma trusted_set_mono: "E \<subseteq> E' \<Longrightarrow> trusted_set E f \<subseteq> trusted_set E' f"
  by (auto simp: trusted_set_def elim!: admin_closure_mono)

text \<open>An entry changes the closure only when its author is already in it.\<close>

lemma admin_closure_insert:
  assumes "\<not> (grants_admin e \<and> admin_closure E f (re_added_by e))"
  shows "admin_closure (insert e E) f p \<longleftrightarrow> admin_closure E f p"
proof
  assume "admin_closure (insert e E) f p"
  then show "admin_closure E f p"
    by induction (use assms in \<open>auto intro: admin_closure.intros\<close>)
qed (auto intro: admin_closure_mono)

lemma trusted_set_insert:
  assumes "\<not> admin_closure {e \<in> E. valid_entry e} f (re_added_by e)"
  shows "trusted_set (insert e E) f = trusted_set E f"
proof -
  let ?V = "{e \<in> E. valid_entry e}"
  have "{x \<in> insert e E. valid_entry x} = (if valid_entry e then insert e ?V else ?V)" by auto
  then show ?thesis
    using assms admin_closure_insert [of e ?V f] by (auto simp: trusted_set_def)
qed

lemma name_step_other: "\<nexists>n. re_op e = SetName n \<Longrightarrow> name_step e m = m"
  by (cases "re_op e") (auto simp: name_step_def)

lemma name_of_skip: "\<nexists>n. re_op e = SetName n \<Longrightarrow> name_of (xs @ e # ys) s = name_of (xs @ ys) s"
  by (simp add: name_of_def name_step_other)

section \<open>Names and privilege\<close>

definition is_set_name :: "roster_entry \<Rightarrow> bool" where
  "is_set_name e \<longleftrightarrow> (case re_op e of SetName _ \<Rightarrow> True | _ \<Rightarrow> False)"

definition privileges :: "peer_record list \<Rightarrow> (peer \<times> role \<times> peer_status) list" where
  "privileges ps = map (\<lambda>p. (pr_peer_id p, pr_role p, pr_status p)) ps"

lemma admin_closure_no_names:
  "admin_closure {e \<in> E. \<not> is_set_name e} f p \<longleftrightarrow> admin_closure E f p"
proof
  assume "admin_closure E f p"
  then show "admin_closure {e \<in> E. \<not> is_set_name e} f p"
  proof induction
    case (grant e)
    then have "\<not> is_set_name e" by (auto simp: is_set_name_def grants_admin_def)
    then show ?case using grant by (auto intro: admin_closure.grant)
  qed (rule admin_closure.founder)
qed (auto intro: admin_closure_mono)

lemma trusted_set_no_names:
  "trusted_set {e \<in> E. \<not> is_set_name e} f = {e \<in> trusted_set E f. \<not> is_set_name e}"
proof -
  have eq: "{e \<in> {e \<in> E. \<not> is_set_name e}. valid_entry e} = {e \<in> {e \<in> E. valid_entry e}. \<not> is_set_name e}"
    by blast
  show ?thesis unfolding trusted_set_def eq admin_closure_no_names by blast
qed

lemma winning_no_names:
  "winning {e \<in> T. \<not> is_set_name e} s r \<longleftrightarrow> winning T s r"
proof -
  have role: "\<not> is_set_name e" if "op_role (re_op e) \<noteq> None" for e
    using that by (cases "re_op e") (auto simp: is_set_name_def)
  then have "grant_lamports {e \<in> T. \<not> is_set_name e} s = grant_lamports T s"
    by (auto simp: grant_lamports_def)
  then have "decisions {e \<in> T. \<not> is_set_name e} s = decisions T s"
    using role unfolding decisions_def admissible_def by force
  then show ?thesis by (simp add: winning_def)
qed

lemma revoked_in_no_names: "revoked_in {e \<in> T. \<not> is_set_name e} s \<longleftrightarrow> revoked_in T s"
  by (auto simp: revoked_in_def is_set_name_def)

lemma set_privileges:
  "set (privileges (merge_roster es f)) =
     {(s, r, st). winning (trusted_set (set es) f) s r
        \<and> st = (if revoked_in (trusted_set (set es) f) s then Revoked else Active)}"
proof -
  let ?T = "trusted_set (set es) f"
  have "\<exists>p \<in> set (merge_roster es f). pr_peer_id p = s \<and> pr_role p = r
      \<and> pr_status p = (if revoked_in ?T s then Revoked else Active)" if "winning ?T s r" for s r
    using that merge_roster_records
      [of "\<lparr>pr_peer_id = s, pr_verifying_key = Min (subject_keys ?T s),
            pr_status = (if revoked_in ?T s then Revoked else Active), pr_role = r, pr_name = name_of es s\<rparr>" es f]
    by force
  then show ?thesis
    by (auto simp: privileges_def merge_roster_records)
qed

section \<open>Signed bytes\<close>

definition well_formed_entry :: "roster_entry \<Rightarrow> bool" where
  "well_formed_entry e \<longleftrightarrow> length (re_subject_key e) = 32
     \<and> (case re_op e of SetName n \<Rightarrow> valid_str n \<and> str_len n < 2 ^ 32 | _ \<Rightarrow> True)"

lemma op_tags_inj:
  assumes "op_tags a = op_tags b"
  shows "a = b \<or> (\<exists>n m. a = SetName n \<and> b = SetName m)"
  using assms by (cases a; cases b) (auto elim!: role_byte.elims)

lemma roster_canonical_bytes_inj:
  assumes wf: "well_formed_entry e" "well_formed_entry d"
    and eq: "roster_canonical_bytes e = roster_canonical_bytes d"
  shows "e = d"
proof -
  have keys: "length (re_subject_key e) = length (re_subject_key d)"
    using wf by (simp add: well_formed_entry_def)
  have fields: "re_seq e = re_seq d" "re_lamport e = re_lamport d"
    "op_tags (re_op e) = op_tags (re_op d)" "re_subject_peer e = re_subject_peer d"
    "re_subject_key e = re_subject_key d" "re_added_by e = re_added_by d"
    and tail: "(case re_op e of SetName n \<Rightarrow> u32_to_le (of_nat (str_len n)) @ utf8 n | _ \<Rightarrow> [])
      = (case re_op d of SetName n \<Rightarrow> u32_to_le (of_nat (str_len n)) @ utf8 n | _ \<Rightarrow> [])"
    using eq keys unfolding roster_canonical_bytes_def
    by (auto simp: append_eq_same_length length_to_le u64_to_le_inj prod_eq_iff)
  have "re_op e = re_op d"
    using op_tags_inj [OF fields(3)]
  proof (elim disjE exE conjE)
    fix n m
    assume names: "re_op e = SetName n" "re_op d = SetName m"
    then have "utf8 n = utf8 m" using tail by (auto simp: append_eq_same_length length_to_le)
    then show ?thesis using names wf utf8_inj [of n m] by (simp add: well_formed_entry_def)
  qed
  then show ?thesis using fields by simp
qed

section \<open>Example entries\<close>

definition ex_key :: "peer \<Rightarrow> bytes" where
  "ex_key p = u64_to_le p @ replicate 24 0"

definition ex_entry :: "u64 \<Rightarrow> u64 \<Rightarrow> roster_op \<Rightarrow> peer \<Rightarrow> peer \<Rightarrow> roster_entry" where
  "ex_entry q l x s a = \<lparr>re_seq = q, re_lamport = l, re_op = x, re_subject_peer = s,
     re_subject_key = ex_key s, re_added_by = a\<rparr>"

lemma ex_entry_simps [simp]:
  "re_seq (ex_entry q l x s a) = q" "re_lamport (ex_entry q l x s a) = l" "re_op (ex_entry q l x s a) = x"
  "re_subject_peer (ex_entry q l x s a) = s" "re_subject_key (ex_entry q l x s a) = ex_key s"
  "re_added_by (ex_entry q l x s a) = a"
  by (simp_all add: ex_entry_def)

lemma length_ex_key [simp]: "length (ex_key s) = 32"
  by (simp add: ex_key_def)

lemma valid_ex_entry [simp]: "valid_entry (ex_entry q l x s a)"
  by (simp add: valid_entry_def key_peer_def ex_key_def)

definition ex_add :: roster_entry where "ex_add = ex_entry 1 1 (Add Writer) 7 1"
definition ex_revoke :: roster_entry where "ex_revoke = ex_entry 2 0 Revoke 7 1"

definition ex_readd :: roster_entry where "ex_readd = ex_entry 3 2 (SetRole Admin) 7 1"

definition ex_record :: peer_record where
  "ex_record = \<lparr>pr_peer_id = 7, pr_verifying_key = ex_key 7, pr_status = Revoked, pr_role = Writer, pr_name = None\<rparr>"

lemmas ex_defs = ex_add_def ex_revoke_def ex_readd_def

lemma ex_merge: "merge_roster [ex_add, ex_revoke] (Some 1) = [ex_record]"
  by code_simp

lemma ex_merge_readd: "merge_roster [ex_add, ex_revoke, ex_readd] (Some 1) = [ex_record\<lparr>pr_role := Admin\<rparr>]"
  by code_simp

section \<open>The guarantees\<close>

text \<open>
  C1: the merge converges. Two devices that hold the same set of entries, in any order and with
  any repetitions, compute the same peer list, provided no author signed two different names
  under one sequence number.
\<close>

theorem merge_roster_converges:
  assumes "set es = set es'" "names_unambiguous (set es)"
  shows "merge_roster es founder = merge_roster es' founder"
proof (rule merge_roster_eqI)
  show "trusted_set (set es) founder = trusted_set (set es') founder" by (simp only: assms(1))
  show "name_of es s = name_of es' s" for s by (rule name_of_set [OF assms])
qed

theorem merge_roster_converges_witness:
  "merge_roster [ex_add, ex_revoke, ex_add] (Some 1) = merge_roster [ex_revoke, ex_add] (Some 1)"
  by (rule merge_roster_converges) (auto simp: names_unambiguous_def ex_defs)


text \<open>
  The admin set. The loop of the merge terminates with the least set that contains the founder
  and, with every author, the subject of each of its admin grants.
\<close>

theorem ever_admin_is_closure:
  "p \<in> set (ever_admin es founder) \<longleftrightarrow> admin_closure (set es) founder p"
  by (simp add: set_ever_admin)

text \<open>
  C6: revocation is terminal. Once a set of entries revokes a peer, no further entry restores it.
\<close>

theorem revocation_terminal:
  assumes "p \<in> set (merge_roster es founder)" "pr_status p = Revoked" "set es \<subseteq> set es'"
    "q \<in> set (merge_roster es' founder)" "pr_peer_id q = pr_peer_id p"
  shows "pr_status q = Revoked"
proof -
  have "revoked_in (trusted_set (set es) founder) (pr_peer_id p)"
    using assms(1,2) merge_roster_records [of p es founder] by (auto split: if_splits)
  then have "revoked_in (trusted_set (set es') founder) (pr_peer_id q)"
    using trusted_set_mono [OF assms(3)] assms(5) by (auto simp: revoked_in_def)
  then show ?thesis using assms(4) merge_roster_records [of q es' founder] by simp
qed

theorem revocation_terminal_witness:
  "pr_status (ex_record\<lparr>pr_role := Admin\<rparr>) = Revoked"
  by (rule revocation_terminal [of ex_record "[ex_add, ex_revoke]" "Some 1" "[ex_add, ex_revoke, ex_readd]"])
     (auto simp: ex_merge ex_merge_readd, simp_all add: ex_record_def)

text \<open>
  An entry of an author outside the admin set has no effect on the result, unless it is the
  author's own name.
\<close>

theorem untrusted_entry_ignored:
  assumes "\<not> admin_closure {x \<in> set (xs @ ys). valid_entry x} founder (re_added_by e)"
    "\<nexists>n. re_op e = SetName n"
  shows "merge_roster (xs @ e # ys) founder = merge_roster (xs @ ys) founder"
proof (rule merge_roster_eqI)
  have "set (xs @ e # ys) = insert e (set (xs @ ys))" by auto
  then show "trusted_set (set (xs @ e # ys)) founder = trusted_set (set (xs @ ys)) founder"
    using trusted_set_insert assms(1) by metis
qed (rule name_of_skip [OF assms(2)])

text \<open>
  Names are orthogonal to privilege. Dropping every name entry leaves the list of peers, roles
  and statuses unchanged.
\<close>

theorem names_never_change_privilege:
  "privileges (merge_roster (filter (\<lambda>e. \<not> is_set_name e) es) founder) = privileges (merge_roster es founder)"
proof -
  let ?es = "filter (\<lambda>e. \<not> is_set_name e) es"
  have ids: "sorted_wrt (<) (map fst (privileges (merge_roster xs founder)))" for xs
    using merge_roster_sorted [of xs founder] by (simp add: privileges_def comp_def)
  have "set (privileges (merge_roster ?es founder)) = set (privileges (merge_roster es founder))"
    by (simp add: set_privileges trusted_set_no_names winning_no_names revoked_in_no_names)
  moreover have "inj_on fst (set (privileges (merge_roster es founder)))"
    using ids [of es] by (simp add: strict_sorted_iff distinct_map)
  ultimately show ?thesis
    using ids [of es] ids [of ?es]
    by (intro map_sorted_distinct_set_unique [of fst]) (auto simp: strict_sorted_iff)
qed

text \<open>
  The causal gap rule. For the ascending lamports of a subject the computed ceiling admits
  exactly the clocks reached from the smallest one without a gap, for every value of the clock up
  to the largest 64-bit one.
\<close>

theorem ceiling_admits_contiguous_run:
  assumes "sorted_wrt (<) ls" "x \<in> set ls"
  shows "x \<le> ceiling_walk 0 0 ls \<longleftrightarrow> (\<forall>y. hd ls \<le> y \<and> y \<le> x \<longrightarrow> y \<in> set ls)"
proof -
  obtain c cs where ls: "ls = c # cs" using assms(2) by (cases ls) auto
  show ?thesis using ceiling_walk_grounded [of c cs 0] assms by (auto simp: ls grounded_def)
qed

text \<open>
  Two names of one author under one sequence number make the merged name depend on the order in
  which the entries are read, so the hypothesis of the convergence theorem cannot be dropped.
\<close>

definition ex_name :: "string \<Rightarrow> roster_entry" where "ex_name n = ex_entry 5 0 (SetName (lit n)) 7 7"

lemma name_tie_depends_on_order:
  "merge_roster [ex_add, ex_name ''a'', ex_name ''b''] (Some 1)
     \<noteq> merge_roster [ex_add, ex_name ''b'', ex_name ''a''] (Some 1)"
  by code_simp

end
