(* ===== verification/Signed_Log.thy ===== *)
theory Signed_Log
  imports Blob_Store
begin

text \<open>
  What the three signed JSONL logs (\<open>oplog.rs\<close>, \<open>roster.rs\<close>, \<open>keylog.rs\<close>) share: the device identity
  (\<open>identity.rs\<close>), the verification loop over the lines of a text, and the durable append of one
  line. Ed25519, base64 and serde\_json are parameters; \<open>env_laws\<close> and \<open>json_laws\<close> state the part of
  their documented behaviour that the theorems use. The loop is the same code in the three files and
  is modelled once, with the parser and the check of one line as arguments.
\<close>

section \<open>Third-party functions\<close>

record env =
  ed_public :: "bytes \<Rightarrow> bytes"
  ed_sign :: "bytes \<Rightarrow> bytes \<Rightarrow> bytes"
  ed_verify :: "bytes \<Rightarrow> bytes \<Rightarrow> bytes \<Rightarrow> bool"
  b64_encode :: "bytes \<Rightarrow> ustr"
  b64_decode :: "bytes \<Rightarrow> bytes option"

text \<open>A signature verifies under the matching key; base64 decodes what it encoded.\<close>

definition env_laws :: "env \<Rightarrow> bool" where
  "env_laws E \<longleftrightarrow>
     (\<forall>sk m. ed_verify E (ed_public E sk) m (ed_sign E sk m) \<and> length (ed_sign E sk m) = 64)
     \<and> (\<forall>b. b64_decode E (utf8 (b64_encode E b)) = Some b)"

text \<open>
  The JSON codec on the lines \<open>L\<close>: parsing inverts printing, a printed object is one non-blank line
  of text that ends with its closing brace, and no proper prefix of it parses.
\<close>

definition json_laws :: "(ustr \<Rightarrow> 'l option) \<Rightarrow> ('l \<Rightarrow> ustr) \<Rightarrow> 'l set \<Rightarrow> bool" where
  "json_laws parse ser L \<longleftrightarrow>
     (\<forall>l \<in> L. parse (ser l) = Some l \<and> newline \<notin> set (ser l) \<and> \<not> is_blank (ser l)
        \<and> last (ser l) = 125 \<and> valid_str (ser l)
        \<and> (\<forall>p q. ser l = p @ q \<and> q \<noteq> [] \<longrightarrow> parse p = None))"

section \<open>Identity\<close>

record identity =
  id_signing_key :: bytes
  id_peer_id :: peer

definition identity_generate :: "env \<Rightarrow> bytes \<Rightarrow> identity" where
  "identity_generate E sk =
     \<lparr>id_signing_key = sk, id_peer_id = u64_of_le (take 8 (ed_public E sk))\<rparr>"

definition verifying_key :: "env \<Rightarrow> identity \<Rightarrow> bytes" where
  "verifying_key E i = ed_public E (id_signing_key i)"

definition id_sign :: "env \<Rightarrow> identity \<Rightarrow> bytes \<Rightarrow> bytes" where
  "id_sign E i msg = ed_sign E (id_signing_key i) msg"

definition sign_in_domain :: "env \<Rightarrow> identity \<Rightarrow> bytes \<Rightarrow> bytes \<Rightarrow> bytes" where
  "sign_in_domain E i domain msg = ed_sign E (id_signing_key i) (domain @ msg)"

definition key_verify :: "env \<Rightarrow> bytes \<Rightarrow> bytes \<Rightarrow> bytes \<Rightarrow> bool" where
  "key_verify E key msg sig = ed_verify E key msg sig"

definition verify_in_domain :: "env \<Rightarrow> bytes \<Rightarrow> bytes \<Rightarrow> bytes \<Rightarrow> bytes \<Rightarrow> bool" where
  "verify_in_domain E key domain msg sig = ed_verify E key (domain @ msg) sig"

text \<open>The identity file. \<open>J\<close> prints and \<open>D\<close> parses its JSON form.\<close>

record identity_file =
  if_peer_id :: peer
  if_secret_key :: ustr

text \<open>\<open>Path::with_extension\<close> of a plain file name.\<close>

definition file_stem :: "ustr \<Rightarrow> ustr" where
  "file_stem n =
     (let r = dropWhile (\<lambda>c. c \<noteq> dot) (rev n) in
      if r = [] \<or> tl r = [] then n else rev (tl r))"

definition with_extension :: "path \<Rightarrow> ustr \<Rightarrow> path" where
  "with_extension p ext =
     (if p = [] then p
      else case last p of Normal n \<Rightarrow> butlast p @ [Normal (file_stem n @ [dot] @ ext)] | _ \<Rightarrow> p)"

definition identity_save :: "env \<Rightarrow> (identity_file \<Rightarrow> bytes) \<Rightarrow> 's vault_fs \<Rightarrow> path \<Rightarrow> identity
    \<Rightarrow> ('s, storage_error, unit) op" where
  "identity_save E J fs p i =
     bindE (case path_parent p of Some d \<Rightarrow> errE Io (fs_create_dir_all fs d) | None \<Rightarrow> returnE ()) (\<lambda>_.
     let b = J \<lparr>if_peer_id = id_peer_id i, if_secret_key = b64_encode E (id_signing_key i)\<rparr>;
         tmp = with_extension p (lit ''key.tmp'') in
     bindE (errE Io (fs_write fs tmp b)) (\<lambda>_.
     bindE (errE Io (fs_set_owner_only fs tmp)) (\<lambda>_.
     errE Io (fs_rename fs tmp p))))"

definition identity_load :: "env \<Rightarrow> (bytes \<Rightarrow> identity_file option) \<Rightarrow> 's vault_fs \<Rightarrow> path
    \<Rightarrow> ('s, storage_error, identity) op" where
  "identity_load E D fs p =
     bindE (errE Io (fs_read fs p)) (\<lambda>b.
     liftE (bind_r (ok_or Json (D b)) (\<lambda>f.
       bind_r (ok_or Base64 (b64_decode E (utf8 (if_secret_key f)))) (\<lambda>raw.
       if length raw \<noteq> 32 then Inl MalformedIdentity
       else Inr \<lparr>id_signing_key = raw, id_peer_id = if_peer_id f\<rparr>))))"

section \<open>The verification loop\<close>

fun verify_lines :: "(ustr \<Rightarrow> 'l option) \<Rightarrow> ('l \<Rightarrow> (storage_error, 'e) res) \<Rightarrow> bool \<Rightarrow> ustr list
    \<Rightarrow> (storage_error, 'e list) res" where
  "verify_lines parse chk torn [] = Inr []"
| "verify_lines parse chk torn (l # ls) =
     (case parse l of
        None \<Rightarrow> if ls = [] \<and> torn then Inr [] else Inl MalformedEntry
      | Some x \<Rightarrow> bind_r (chk x) (\<lambda>e. bind_r (verify_lines parse chk torn ls) (\<lambda>es. Inr (e # es))))"

definition verify_text :: "(ustr \<Rightarrow> 'l option) \<Rightarrow> ('l \<Rightarrow> (storage_error, 'e) res) \<Rightarrow> ustr
    \<Rightarrow> (storage_error, 'e list) res" where
  "verify_text parse chk text =
     (let torn_tail = (text \<noteq> [] \<and> last text \<noteq> newline);
          lines = filter (\<lambda>l. \<not> is_blank l) (str_lines text) in
      verify_lines parse chk torn_tail lines)"

definition verify_bytes :: "(ustr \<Rightarrow> 'l option) \<Rightarrow> ('l \<Rightarrow> (storage_error, 'e) res) \<Rightarrow> bytes
    \<Rightarrow> (storage_error, 'e list) res" where
  "verify_bytes parse chk b = bind_r (ok_or MalformedEntry (from_utf8 b)) (verify_text parse chk)"

definition read_verified :: "'s vault_fs \<Rightarrow> path \<Rightarrow> (ustr \<Rightarrow> 'l option) \<Rightarrow> ('l \<Rightarrow> (storage_error, 'e) res)
    \<Rightarrow> ('s, storage_error, 'e list) op" where
  "read_verified fs p parse chk s =
     (case read_to_string fs p s of
        (Inr t, s') \<Rightarrow> (verify_text parse chk t, s')
      | (Inl NotFound, s') \<Rightarrow> (Inr [], s')
      | (Inl e, s') \<Rightarrow> (Inl (Io e), s'))"

text \<open>Creating the log's directory, and appending one printed line.\<close>

definition ensure_parent :: "'s vault_fs \<Rightarrow> path \<Rightarrow> ('s, storage_error, unit) op" where
  "ensure_parent fs p =
     (case path_parent p of Some d \<Rightarrow> errE Io (fs_create_dir_all fs d) | None \<Rightarrow> returnE ())"

definition append_json :: "'s vault_fs \<Rightarrow> path \<Rightarrow> ustr \<Rightarrow> ('s, storage_error, unit) op" where
  "append_json fs p j = errE Io (fs_append_sync fs p (utf8 j @ [10]))"

text \<open>A decimal number in a file name.\<close>

fun show_nat :: "nat \<Rightarrow> ustr" where
  "show_nat n = (if n < 10 then [48 + n] else show_nat (n div 10) @ [48 + n mod 10])"

declare show_nat.simps [simp del]

definition log_path :: "path \<Rightarrow> string \<Rightarrow> peer \<Rightarrow> path" where
  "log_path d pre peer = path_join d (path_of_str (lit pre @ show_nat (unat peer) @ lit ''.jsonl''))"

section \<open>Texts of whole lines\<close>

fun map_r :: "('a \<Rightarrow> ('e, 'b) res) \<Rightarrow> 'a list \<Rightarrow> ('e, 'b list) res" where
  "map_r f [] = Inr []"
| "map_r f (x # xs) = bind_r (f x) (\<lambda>y. bind_r (map_r f xs) (\<lambda>ys. Inr (y # ys)))"

definition log_text :: "('l \<Rightarrow> ustr) \<Rightarrow> 'l list \<Rightarrow> ustr" where
  "log_text ser ls = concat (map (\<lambda>l. ser l @ [newline]) ls)"

lemma log_text_simps [simp]:
  "log_text ser [] = []" "log_text ser (l # ls) = ser l @ newline # log_text ser ls"
  "log_text ser (ls @ ks) = log_text ser ls @ log_text ser ks"
  by (simp_all add: log_text_def)

lemma map_r_append:
  "map_r f (xs @ ys) = bind_r (map_r f xs) (\<lambda>as. bind_r (map_r f ys) (\<lambda>bs. Inr (as @ bs)))"
  by (induction xs) (auto simp: bind_r_def split: sum.splits)

lemma strip_cr_json: "last j = 125 \<Longrightarrow> strip_cr j = j"
  by (simp add: strip_cr_def)

lemma str_lines_log_text:
  assumes "\<forall>l \<in> set ls. newline \<notin> set (ser l) \<and> last (ser l) = 125"
  shows "str_lines (log_text ser ls @ t) = map ser ls @ str_lines t"
  using assms by (induction ls) (simp_all add: str_lines_line strip_cr_json)

lemma log_text_last: "ls \<noteq> [] \<Longrightarrow> last (log_text ser ls) = newline"
  by (induction ls rule: rev_induct) simp_all

lemma json_lawsD:
  assumes "json_laws parse ser L" "l \<in> L"
  shows "parse (ser l) = Some l" "newline \<notin> set (ser l)" "\<not> is_blank (ser l)" "last (ser l) = 125"
    "valid_str (ser l)" "ser l = p @ q \<Longrightarrow> q \<noteq> [] \<Longrightarrow> parse p = None"
  using assms by (auto simp: json_laws_def)

lemma json_laws_mono: "json_laws parse ser L \<Longrightarrow> K \<subseteq> L \<Longrightarrow> json_laws parse ser K"
  by (auto simp: json_laws_def)

lemma verify_lines_ser:
  "\<forall>l \<in> set ls. parse (ser l) = Some l \<Longrightarrow>
     verify_lines parse chk torn (map ser ls @ ks) =
       bind_r (map_r chk ls) (\<lambda>es. bind_r (verify_lines parse chk torn ks) (\<lambda>fs. Inr (es @ fs)))"
  by (induction ls) (auto simp: bind_r_def split: sum.splits)

text \<open>A text of complete lines verifies to the checked lines.\<close>

lemma verify_text_log:
  assumes "json_laws parse ser (set ls)"
  shows "verify_text parse chk (log_text ser ls) = map_r chk ls"
proof -
  have lines: "str_lines (log_text ser ls) = map ser ls"
    using str_lines_log_text [of ls ser "[]"] json_lawsD [OF assms] by simp
  have "filter (\<lambda>l. \<not> is_blank l) (map ser ls) = map ser ls"
    using json_lawsD(3) [OF assms] by (induction ls) auto
  then show ?thesis
    using verify_lines_ser [of ls parse ser chk _ "[]"] json_lawsD(1) [OF assms]
    by (simp add: verify_text_def lines Let_def) (auto simp: bind_r_def split: sum.splits)
qed

text \<open>A torn final line is dropped.\<close>

lemma verify_text_torn:
  assumes laws: "json_laws parse ser (insert l (set ls))" and torn: "ser l = p @ q" "q \<noteq> []"
  shows "verify_text parse chk (log_text ser ls @ p) = map_r chk ls"
proof (cases "p = []")
  case True
  then show ?thesis using verify_text_log [OF json_laws_mono [OF laws]] by auto
next
  case False
  have p: "newline \<notin> set p" using json_lawsD(2) [OF laws, of l] torn(1) by auto
  then have lines: "str_lines (log_text ser ls @ p) = map ser ls @ [p]"
    using str_lines_log_text [of ls ser p] json_lawsD [OF laws] False by (simp add: str_lines_tail)
  have ne: "filter (\<lambda>l. \<not> is_blank l) (map ser ls) = map ser ls"
    using json_lawsD(3) [OF laws] by (induction ls) auto
  have last: "last (log_text ser ls @ p) \<noteq> newline" "log_text ser ls @ p \<noteq> []"
    using False p by (auto dest: last_in_set)
  have none: "parse p = None" using json_lawsD(6) [OF laws _ torn] by simp
  have "verify_lines parse chk True (map ser ls @ ks) = map_r chk ls" if "ks = [] \<or> ks = [p]" for ks
    using verify_lines_ser [of ls parse ser chk True ks] json_lawsD(1) [OF laws] none that
    by (auto simp: bind_r_def split: sum.splits)
  then show ?thesis using ne last by (simp add: verify_text_def lines Let_def)
qed

text \<open>
  A line that does not parse and is followed by a newline makes the whole log unreadable, wherever
  the lines before it end.
\<close>

lemma verify_text_malformed:
  assumes laws: "json_laws parse ser (set ls)" and bad: "newline \<notin> set j" "\<not> is_blank j" "last j = 125" "parse j = None"
    and ok: "map_r chk ls = Inr es"
  shows "verify_text parse chk (log_text ser ls @ j @ [newline]) = Inl MalformedEntry"
proof -
  have lines: "str_lines (log_text ser ls @ j @ [newline]) = map ser ls @ [j]"
    using str_lines_log_text [of ls ser "j @ [newline]"] json_lawsD [OF laws] bad
    by (simp add: str_lines_line [of j "[]"] strip_cr_json)
  have "filter (\<lambda>l. \<not> is_blank l) (map ser ls) = map ser ls"
    using json_lawsD(3) [OF laws] by (induction ls) auto
  then show ?thesis
    using verify_lines_ser [of ls parse ser chk False "[j]"] json_lawsD(1) [OF laws] bad ok
    by (simp add: verify_text_def lines Let_def)
qed

text \<open>Everything the loop returns passed the check of its line.\<close>

lemma verify_lines_sound:
  "verify_lines parse chk torn ls = Inr es \<Longrightarrow> e \<in> set es \<Longrightarrow> \<exists>l \<in> set ls. \<exists>x. parse l = Some x \<and> chk x = Inr e"
proof (induction ls arbitrary: es)
  case (Cons l ls)
  then show ?case by (auto simp: bind_r_Inr_iff split: option.splits if_splits)
qed simp

lemma verify_text_sound:
  "verify_text parse chk t = Inr es \<Longrightarrow> e \<in> set es \<Longrightarrow> \<exists>x. chk x = Inr e"
  using verify_lines_sound by (fastforce simp: verify_text_def Let_def)

section \<open>Logs on a lawful backend\<close>

lemma utf8_newline: "utf8 [newline] = [10]"
  by (simp add: newline_def utf8_char.simps byte_of_def)

lemma valid_log_text: "json_laws parse ser (set ls) \<Longrightarrow> valid_str (log_text ser ls)"
proof (induction ls)
  case (Cons l ls)
  have "json_laws parse ser (set ls)" using json_laws_mono [OF Cons.prems] by auto
  moreover have "valid_str (ser l)" using json_lawsD(5) [OF Cons.prems] by simp
  ultimately show ?case using Cons.IH by (simp add: newline_def scalar_def)
qed simp

context lawful_fs
begin

lemma read_verified_eq:
  assumes "ok s" "contents (files s p) = utf8 t" "valid_str t"
  shows "read_verified fs p parse chk s = (verify_text parse chk t, s)"
proof (cases "files s p")
  case None
  then have "t = []" using assms(2,3) by (metis contents_simps(1) from_utf8_Nil from_utf8_utf8 option.inject)
  then show ?thesis using None read_to_string_ok [OF assms(1), of p] by (simp add: read_verified_def verify_text_def)
next
  case (Some b)
  then show ?thesis
    using read_to_string_ok [OF assms(1), of p] assms(2,3) by (simp add: read_verified_def)
qed

lemma ensure_parent_ok:
  assumes "ok s" "room s p"
  shows "\<exists>s'. ensure_parent fs q s = (Inr (), s') \<and> ok s' \<and> files s' = files s \<and> room s' p"
proof (cases "path_parent q")
  case None
  then show ?thesis using assms by (auto simp: ensure_parent_def)
next
  case (Some d)
  obtain s' where "fs_create_dir_all fs d s = (Inr (), s')" "ok s'" "files s' = files s"
    using create_dir_all_law [OF assms(1), of d] by (auto simp: ok_step_def)
  then show ?thesis using Some room_dirs [OF assms(1) _ assms(2)] by (auto simp: ensure_parent_def)
qed

lemma append_json_ok:
  assumes "ok s" "okp p" "room s p" "contents (files s p) = utf8 t"
  shows "\<exists>s'. append_json fs p j s = (Inr (), s') \<and> ok s'
    \<and> contents (files s' p) = utf8 (t @ j @ [newline]) \<and> (\<forall>q. q \<noteq> p \<longrightarrow> files s' q = files s q) \<and> files s' p \<noteq> None"
proof -
  obtain s' where "fs_append_sync fs p (utf8 j @ [10]) s = (Inr (), s')" "ok s'"
    "files s' = (files s)(p \<mapsto> contents (files s p) @ utf8 j @ [10])"
    using append_sync_law [OF assms(1-3)] by (auto simp: ok_step_def)
  then show ?thesis using assms(4) utf8_newline by (auto simp: append_json_def)
qed

end

section \<open>An instance of the third-party functions\<close>

text \<open>
  The laws can hold: a toy signature that embeds the key and the message, the identity on bytes in
  place of base64, and a codec for a single line.
\<close>

definition toy_sig :: "bytes \<Rightarrow> bytes \<Rightarrow> bytes" where
  "toy_sig k m = take 64 (k @ m @ replicate 64 0)"

definition toy_env :: env where
  "toy_env = \<lparr>ed_public = (\<lambda>sk. sk), ed_sign = toy_sig, ed_verify = (\<lambda>pk m sig. sig = toy_sig pk m),
     b64_encode = map unat, b64_decode = (\<lambda>b. map_option (map of_nat) (from_utf8 b))\<rparr>"

lemma valid_str_bytes: "valid_str (map unat (b :: bytes))"
proof -
  have "unat (x :: byte) < 0xD800" for x using byte_bound [of x] by simp
  then show ?thesis by (simp add: valid_str_def list_all_iff scalar_def)
qed

lemma toy_env_laws: "env_laws toy_env"
  by (auto simp: env_laws_def toy_env_def toy_sig_def valid_str_bytes comp_def min_def)

definition toy_json :: ustr where "toy_json = lit ''{x}''"

definition toy_parse :: "'l \<Rightarrow> ustr \<Rightarrow> 'l option" where
  "toy_parse l t = (if t = toy_json then Some l else None)"

lemma toy_json_laws: "json_laws (toy_parse l) (\<lambda>_. toy_json) {l}"
proof -
  have "p \<noteq> toy_json" if "toy_json = p @ q" "q \<noteq> []" for p q using that by auto
  then show ?thesis
    by (auto simp: json_laws_def toy_parse_def toy_json_def lit_def newline_def is_blank_iff is_whitespace_def scalar_def)
qed

end
