(* ===== verification/Op_Log.thy ===== *)
theory Op_Log
  imports Signed_Log
begin

text \<open>
  The op-log (\<open>roam-storage/src/oplog.rs\<close>): a per-peer append-only log of signed CRDT updates. The
  theory shows that an appended update is read back, that a torn final line is dropped, that every
  entry returned carries a valid signature, and that an append onto a torn log makes it unreadable.
\<close>

definition OPLOG_SIG_DOMAIN :: bytes where
  "OPLOG_SIG_DOMAIN = ascii ''roam-oplog-update-v1'' @ [0]"

record op_entry =
  oe_peer_id :: peer
  oe_update :: bytes

record entry_line =
  el_peer :: peer
  el_sig :: ustr
  el_update :: ustr

record 's oplog =
  ol_path :: path
  ol_peer_id :: peer
  ol_fs :: "'s vault_fs"

definition oplog_new :: "path \<Rightarrow> peer \<Rightarrow> 's vault_fs \<Rightarrow> 's oplog" where
  "oplog_new d peer fs = \<lparr>ol_path = log_path d ''ops-'' peer, ol_peer_id = peer, ol_fs = fs\<rparr>"

definition oplog_line :: "env \<Rightarrow> peer \<Rightarrow> identity \<Rightarrow> bytes \<Rightarrow> entry_line" where
  "oplog_line E peer i update =
     \<lparr>el_peer = peer, el_sig = b64_encode E (sign_in_domain E i OPLOG_SIG_DOMAIN update),
      el_update = b64_encode E update\<rparr>"

definition oplog_append :: "env \<Rightarrow> (entry_line \<Rightarrow> ustr) \<Rightarrow> 's oplog \<Rightarrow> identity \<Rightarrow> bytes
    \<Rightarrow> ('s, storage_error, unit) op" where
  "oplog_append E ser ol i update =
     bindE (ensure_parent (ol_fs ol) (ol_path ol)) (\<lambda>_.
     append_json (ol_fs ol) (ol_path ol) (ser (oplog_line E (ol_peer_id ol) i update)))"

definition oplog_check :: "env \<Rightarrow> peer \<Rightarrow> bytes \<Rightarrow> entry_line \<Rightarrow> (storage_error, op_entry) res" where
  "oplog_check E owner key l =
     (if el_peer l \<noteq> owner then Inl (BadSignature (el_peer l))
      else bind_r (ok_or MalformedEntry (b64_decode E (utf8 (el_update l)))) (\<lambda>update.
           bind_r (ok_or MalformedEntry (b64_decode E (utf8 (el_sig l)))) (\<lambda>sig.
           if length sig \<noteq> 64 then Inl MalformedEntry
           else if \<not> verify_in_domain E key OPLOG_SIG_DOMAIN update sig then Inl (BadSignature (el_peer l))
           else Inr \<lparr>oe_peer_id = el_peer l, oe_update = update\<rparr>)))"

definition oplog_verify_text :: "env \<Rightarrow> (ustr \<Rightarrow> entry_line option) \<Rightarrow> peer \<Rightarrow> bytes \<Rightarrow> ustr
    \<Rightarrow> (storage_error, op_entry list) res" where
  "oplog_verify_text E parse owner key text = verify_text parse (oplog_check E owner key) text"

definition oplog_verify_bytes :: "env \<Rightarrow> (ustr \<Rightarrow> entry_line option) \<Rightarrow> peer \<Rightarrow> bytes \<Rightarrow> bytes
    \<Rightarrow> (storage_error, op_entry list) res" where
  "oplog_verify_bytes E parse owner key b = verify_bytes parse (oplog_check E owner key) b"

definition oplog_read_verified :: "env \<Rightarrow> (ustr \<Rightarrow> entry_line option) \<Rightarrow> 's oplog \<Rightarrow> bytes
    \<Rightarrow> ('s, storage_error, op_entry list) op" where
  "oplog_read_verified E parse ol key =
     read_verified (ol_fs ol) (ol_path ol) parse (oplog_check E (ol_peer_id ol) key)"

lemma oplog_check_line:
  assumes "env_laws E"
  shows "oplog_check E peer (verifying_key E i) (oplog_line E peer i u) = Inr \<lparr>oe_peer_id = peer, oe_update = u\<rparr>"
  using assms
  by (simp add: oplog_check_def oplog_line_def env_laws_def verify_in_domain_def sign_in_domain_def verifying_key_def)

context lawful_fs
begin

text \<open>Appending to a readable log keeps it readable and adds the update at its end.\<close>

lemma oplog_append_read:
  assumes s: "ok s" "ol_fs ol = fs" "okp (ol_path ol)" "room s (ol_path ol)"
    and log: "contents (files s (ol_path ol)) = utf8 (log_text ser ls)"
    and laws: "env_laws E" "json_laws parse ser (insert (oplog_line E (ol_peer_id ol) i u) (set ls))"
    and old: "map_r (oplog_check E (ol_peer_id ol) (verifying_key E i)) ls = Inr es"
  shows "\<exists>s'. oplog_append E ser ol i u s = (Inr (), s') \<and> ok s'
    \<and> oplog_read_verified E parse ol (verifying_key E i) s' =
        (Inr (es @ [\<lparr>oe_peer_id = ol_peer_id ol, oe_update = u\<rparr>]), s')"
proof -
  let ?l = "oplog_line E (ol_peer_id ol) i u"
  obtain s1 where s1: "ensure_parent fs (ol_path ol) s = (Inr (), s1)" "ok s1" "files s1 = files s" "room s1 (ol_path ol)"
    using ensure_parent_ok [OF s(1,4)] by blast
  obtain s2 where s2: "append_json fs (ol_path ol) (ser ?l) s1 = (Inr (), s2)" "ok s2"
    "contents (files s2 (ol_path ol)) = utf8 (log_text ser (ls @ [?l]))"
    using append_json_ok [OF s1(2) s(3) s1(4), of "log_text ser ls" "ser ?l"] log s1(3) by auto
  have laws': "json_laws parse ser (set (ls @ [?l]))" using laws(2) by simp
  have "map_r (oplog_check E (ol_peer_id ol) (verifying_key E i)) (ls @ [?l]) =
      Inr (es @ [\<lparr>oe_peer_id = ol_peer_id ol, oe_update = u\<rparr>])"
    using old oplog_check_line [OF laws(1)] by (simp add: map_r_append)
  then have "oplog_read_verified E parse ol (verifying_key E i) s2 =
      (Inr (es @ [\<lparr>oe_peer_id = ol_peer_id ol, oe_update = u\<rparr>]), s2)"
    unfolding oplog_read_verified_def s(2)
    by (simp only: read_verified_eq [OF s2(2,3) valid_log_text [OF laws']] verify_text_log [OF laws'])
  then show ?thesis using s1(1) s2(1,2) s(2) by (auto simp: oplog_append_def)
qed

end

section \<open>The guarantees\<close>

definition ex_id :: identity where
  "ex_id = \<lparr>id_signing_key = replicate 32 5, id_peer_id = 1\<rparr>"

definition ex_oplog :: "pool oplog" where
  "ex_oplog = \<lparr>ol_path = ex_path ''a'', ol_peer_id = 1, ol_fs = pool_fs\<rparr>"

definition ex_line :: entry_line where
  "ex_line = oplog_line toy_env 1 ex_id [9]"

lemma toy_json_laws': "json_laws (toy_parse ex_line) (\<lambda>_. toy_json) (set [ex_line])"
  using toy_json_laws [of ex_line] by simp

text \<open>
  C4: an acknowledged append is read back. Appending an update to a log whose lines all verify
  succeeds, and reading the log then returns the earlier entries followed by the new one.
\<close>

theorem oplog_append_then_read:
  assumes "pool_ok s" "ol_fs ol = pool_fs" "pool_path (ol_path ol)" "pool_room s (ol_path ol)"
    "contents (pool_file s (ol_path ol)) = utf8 (log_text ser ls)"
    "env_laws E" "json_laws parse ser (insert (oplog_line E (ol_peer_id ol) i u) (set ls))"
    "oplog_verify_text E parse (ol_peer_id ol) (verifying_key E i) (log_text ser ls) = Inr es"
  shows "\<exists>s'. oplog_append E ser ol i u s = (Inr (), s')
    \<and> oplog_read_verified E parse ol (verifying_key E i) s' =
        (Inr (es @ [\<lparr>oe_peer_id = ol_peer_id ol, oe_update = u\<rparr>]), s')"
proof -
  have "json_laws parse ser (set ls)" using json_laws_mono [OF assms(7)] by blast
  then have "map_r (oplog_check E (ol_peer_id ol) (verifying_key E i)) ls = Inr es"
    using assms(8) by (simp add: oplog_verify_text_def verify_text_log)
  then show ?thesis using slots.oplog_append_read [OF assms(1-7)] by blast
qed

theorem oplog_append_then_read_witness:
  "\<exists>s'. oplog_append toy_env (\<lambda>_. toy_json) ex_oplog ex_id [9] ex_pool = (Inr (), s')
    \<and> oplog_read_verified toy_env (toy_parse ex_line) ex_oplog (verifying_key toy_env ex_id) s' =
        (Inr ([] @ [\<lparr>oe_peer_id = ol_peer_id ex_oplog, oe_update = [9]\<rparr>]), s')"
  by (rule oplog_append_then_read [where ls = "[]"])
     (use toy_json_laws [of ex_line] in \<open>simp_all add: ex_pool_ok ex_pool_path ex_pool_simps ex_pool_files toy_env_laws
        ex_oplog_def ex_line_def oplog_verify_text_def verify_text_def del: pool_file_None\<close>)

text \<open>
  C8: a torn tail is dropped. A log of complete lines followed by a strict prefix of one more
  line, as a crash during an append leaves it, verifies to the entries of its complete lines.
\<close>

theorem oplog_torn_tail_dropped:
  assumes "json_laws parse ser (insert l (set ls))" "ser l = p @ q" "q \<noteq> []"
  shows "oplog_verify_text E parse owner key (log_text ser ls @ p) = oplog_verify_text E parse owner key (log_text ser ls)"
  unfolding oplog_verify_text_def verify_text_torn [OF assms]
  by (rule verify_text_log [symmetric]) (use json_laws_mono [OF assms(1)] in blast)

theorem oplog_torn_tail_dropped_witness:
  "oplog_verify_text toy_env (toy_parse ex_line) 1 (verifying_key toy_env ex_id) (toy_json @ [newline] @ lit ''{x'')
    = Inr [\<lparr>oe_peer_id = 1, oe_update = [9]\<rparr>]"
proof -
  have "oplog_verify_text toy_env (toy_parse ex_line) 1 (verifying_key toy_env ex_id) (log_text (\<lambda>_. toy_json) [ex_line] @ lit ''{x'')
      = oplog_verify_text toy_env (toy_parse ex_line) 1 (verifying_key toy_env ex_id) (log_text (\<lambda>_. toy_json) [ex_line])"
    by (rule oplog_torn_tail_dropped [where l = ex_line and q = "lit ''}''"])
       (use toy_json_laws [of ex_line] in \<open>simp_all add: toy_json_def lit_def\<close>)
  also have "\<dots> = Inr [\<lparr>oe_peer_id = 1, oe_update = [9]\<rparr>]"
    by (simp only: oplog_verify_text_def verify_text_log [OF toy_json_laws'])
       (simp add: ex_line_def oplog_check_line [OF toy_env_laws])
  finally show ?thesis by simp
qed

text \<open>
  Nothing unsigned gets in. Every entry a verified log returns belongs to the log's owner and
  carries a 64-byte signature that verifies under the given key, over the op-log domain tag followed
  by the update.
\<close>

theorem oplog_entries_signed:
  assumes "oplog_verify_bytes E parse owner key b = Inr es" "e \<in> set es"
  shows "oe_peer_id e = owner \<and> (\<exists>sig. length sig = 64 \<and> ed_verify E key (OPLOG_SIG_DOMAIN @ oe_update e) sig)"
proof -
  obtain t where "verify_text parse (oplog_check E owner key) t = Inr es"
    using assms(1) by (auto simp: oplog_verify_bytes_def verify_bytes_def bind_r_Inr_iff)
  then obtain x where "oplog_check E owner key x = Inr e" using verify_text_sound [OF _ assms(2)] by blast
  then show ?thesis
    by (auto simp: oplog_check_def bind_r_Inr_iff verify_in_domain_def split: if_splits)
qed

text \<open>
  An append onto a torn tail joins the partial line: the log then holds a complete line that does
  not parse, and no later read of it succeeds.
\<close>

lemma oplog_append_after_torn_tail:
  assumes s: "pool_ok s" "ol_fs ol = pool_fs" "pool_path (ol_path ol)" "pool_room s (ol_path ol)"
    and torn: "contents (pool_file s (ol_path ol)) = utf8 (log_text ser ls @ p)"
    and laws: "json_laws parse ser (insert (oplog_line E (ol_peer_id ol) i u) (set ls))"
    and p: "valid_str p" "newline \<notin> set p" "parse (p @ ser (oplog_line E (ol_peer_id ol) i u)) = None"
    and old: "map_r (oplog_check E (ol_peer_id ol) key) ls = Inr es"
  shows "\<exists>s'. oplog_append E ser ol i u s = (Inr (), s')
    \<and> oplog_read_verified E parse ol key s' = (Inl MalformedEntry, s')"
proof -
  let ?j = "p @ ser (oplog_line E (ol_peer_id ol) i u)" and ?p = "ol_path ol"
  obtain s1 where s1: "ensure_parent pool_fs ?p s = (Inr (), s1)" "pool_ok s1" "pool_file s1 = pool_file s" "pool_room s1 ?p"
    using slots.ensure_parent_ok [OF s(1,4)] by blast
  have t1: "contents (pool_file s1 ?p) = utf8 (log_text ser ls @ p)" using torn s1(3) by simp
  obtain s2 where s2: "append_json pool_fs ?p (ser (oplog_line E (ol_peer_id ol) i u)) s1 = (Inr (), s2)" "pool_ok s2"
    "contents (pool_file s2 ?p) = utf8 (log_text ser ls @ ?j @ [newline])"
    using slots.append_json_ok [OF s1(2) s(3) s1(4) t1] by (metis append.assoc)
  note new = json_lawsD [OF laws insertI1]
  have ls: "json_laws parse ser (set ls)" using json_laws_mono [OF laws] by blast
  have "\<not> is_blank ?j" using new(3) by (auto simp: is_blank_iff)
  moreover have "ser (oplog_line E (ol_peer_id ol) i u) \<noteq> []" using new(3) by (auto simp: is_blank_iff)
  ultimately have bad: "verify_text parse (oplog_check E (ol_peer_id ol) key) (log_text ser ls @ ?j @ [newline]) = Inl MalformedEntry"
    using verify_text_malformed [OF ls _ _ _ p(3) old] p(2) new(2,4) by simp
  have "valid_str (log_text ser ls @ ?j @ [newline])"
    using valid_log_text [OF ls] p(1) new(5) by (simp add: newline_def scalar_def)
  then have "oplog_read_verified E parse ol key s2 = (Inl MalformedEntry, s2)"
    unfolding oplog_read_verified_def s(2) by (simp only: slots.read_verified_eq [OF s2(2,3)] bad)
  then show ?thesis using s1(1) s2(1) s(2) by (auto simp: oplog_append_def)
qed

end
