(* ===== verification/Roster_Log.thy ===== *)
theory Roster_Log
  imports Roster_Merge Op_Log
begin

text \<open>
  The roster log (\<open>RosterLog\<close> in \<open>roam-storage/src/roster.rs\<close>): the signed log of one author's
  membership changes, with the same loop and durability rules as the op-log.
\<close>

record roster_line =
  rl_seq :: u64
  rl_lamport :: u64
  rl_op :: roster_op
  rl_subject_peer :: peer
  rl_subject_key :: ustr
  rl_added_by :: peer
  rl_sig :: ustr

record 's roster_log =
  rlog_path :: path
  rlog_author :: peer
  rlog_fs :: "'s vault_fs"

definition roster_log_new :: "path \<Rightarrow> peer \<Rightarrow> 's vault_fs \<Rightarrow> 's roster_log" where
  "roster_log_new d author fs = \<lparr>rlog_path = log_path d ''roster-'' author, rlog_author = author, rlog_fs = fs\<rparr>"

definition roster_check :: "env \<Rightarrow> peer \<Rightarrow> bytes \<Rightarrow> roster_line \<Rightarrow> (storage_error, roster_entry) res" where
  "roster_check E author key l =
     (if rl_added_by l \<noteq> author then Inl (BadSignature (rl_added_by l))
      else bind_r (ok_or MalformedEntry (b64_decode E (utf8 (rl_subject_key l)))) (\<lambda>subject_key.
           if length subject_key \<noteq> 32 then Inl MalformedEntry
           else bind_r (ok_or MalformedEntry (b64_decode E (utf8 (rl_sig l)))) (\<lambda>sig.
           if length sig \<noteq> 64 then Inl MalformedEntry
           else let entry = \<lparr>re_seq = rl_seq l, re_lamport = rl_lamport l, re_op = rl_op l,
                      re_subject_peer = rl_subject_peer l, re_subject_key = subject_key, re_added_by = rl_added_by l\<rparr> in
                if \<not> key_verify E key (roster_canonical_bytes entry) sig then Inl (BadSignature author)
                else Inr entry)))"

definition roster_verify_text :: "env \<Rightarrow> (ustr \<Rightarrow> roster_line option) \<Rightarrow> peer \<Rightarrow> bytes \<Rightarrow> ustr
    \<Rightarrow> (storage_error, roster_entry list) res" where
  "roster_verify_text E parse author key text = verify_text parse (roster_check E author key) text"

definition roster_verify_bytes :: "env \<Rightarrow> (ustr \<Rightarrow> roster_line option) \<Rightarrow> peer \<Rightarrow> bytes \<Rightarrow> bytes
    \<Rightarrow> (storage_error, roster_entry list) res" where
  "roster_verify_bytes E parse author key b = verify_bytes parse (roster_check E author key) b"

definition roster_read_verified :: "env \<Rightarrow> (ustr \<Rightarrow> roster_line option) \<Rightarrow> 's roster_log \<Rightarrow> bytes
    \<Rightarrow> ('s, storage_error, roster_entry list) op" where
  "roster_read_verified E parse rl key =
     read_verified (rlog_fs rl) (rlog_path rl) parse (roster_check E (rlog_author rl) key)"

definition last_seq_of :: "('e \<Rightarrow> u64) \<Rightarrow> 'e list \<Rightarrow> u64" where
  "last_seq_of sq es = (if es = [] then 0 else sq (last es))"

definition roster_last_seq :: "env \<Rightarrow> (ustr \<Rightarrow> roster_line option) \<Rightarrow> 's roster_log \<Rightarrow> bytes
    \<Rightarrow> ('s, storage_error, u64) op" where
  "roster_last_seq E parse rl key =
     bindE (roster_read_verified E parse rl key) (\<lambda>es. returnE (last_seq_of re_seq es))"

definition roster_line_of :: "env \<Rightarrow> identity \<Rightarrow> roster_entry \<Rightarrow> roster_line" where
  "roster_line_of E i e =
     \<lparr>rl_seq = re_seq e, rl_lamport = re_lamport e, rl_op = re_op e, rl_subject_peer = re_subject_peer e,
      rl_subject_key = b64_encode E (re_subject_key e), rl_added_by = re_added_by e,
      rl_sig = b64_encode E (id_sign E i (roster_canonical_bytes e))\<rparr>"

definition roster_append :: "env \<Rightarrow> (ustr \<Rightarrow> roster_line option) \<Rightarrow> (roster_line \<Rightarrow> ustr) \<Rightarrow> 's roster_log
    \<Rightarrow> identity \<Rightarrow> u64 \<Rightarrow> roster_op \<Rightarrow> peer \<Rightarrow> bytes \<Rightarrow> ('s, storage_error, roster_entry) op" where
  "roster_append E parse ser rl i lamport opn subject_peer subject_key =
     (if id_peer_id i \<noteq> rlog_author rl then failE Peer
      else bindE (ensure_parent (rlog_fs rl) (rlog_path rl)) (\<lambda>_.
           bindE (roster_last_seq E parse rl (verifying_key E i)) (\<lambda>sq.
           let entry = \<lparr>re_seq = sq + 1, re_lamport = lamport, re_op = opn, re_subject_peer = subject_peer,
                 re_subject_key = subject_key, re_added_by = rlog_author rl\<rparr> in
           bindE (append_json (rlog_fs rl) (rlog_path rl) (ser (roster_line_of E i entry))) (\<lambda>_.
           returnE entry))))"

text \<open>The key an author vouches for itself, read without verification.\<close>

fun peek_lines :: "env \<Rightarrow> (ustr \<Rightarrow> roster_line option) \<Rightarrow> peer \<Rightarrow> ustr list \<Rightarrow> bytes option" where
  "peek_lines E parse author [] = None"
| "peek_lines E parse author (l # ls) =
     (case parse l of
        None \<Rightarrow> peek_lines E parse author ls
      | Some x \<Rightarrow>
          if rl_subject_peer x \<noteq> author then peek_lines E parse author ls
          else case b64_decode E (utf8 (rl_subject_key x)) of
                 None \<Rightarrow> peek_lines E parse author ls
               | Some k \<Rightarrow> if length k = 32 then Some k else peek_lines E parse author ls)"

definition peek_self_key :: "env \<Rightarrow> (ustr \<Rightarrow> roster_line option) \<Rightarrow> 's roster_log
    \<Rightarrow> ('s, storage_error, bytes option) op" where
  "peek_self_key E parse rl s =
     (case read_to_string (rlog_fs rl) (rlog_path rl) s of
        (Inr t, s') \<Rightarrow> (Inr (peek_lines E parse (rlog_author rl) (filter (\<lambda>l. \<not> is_blank l) (str_lines t))), s')
      | (Inl NotFound, s') \<Rightarrow> (Inr None, s')
      | (Inl e, s') \<Rightarrow> (Inl (Io e), s'))"

lemma roster_check_line:
  assumes "env_laws E" "length (re_subject_key e) = 32"
  shows "roster_check E (re_added_by e) (verifying_key E i) (roster_line_of E i e) = Inr e"
  using assms
  by (cases e) (simp add: roster_check_def roster_line_of_def env_laws_def key_verify_def id_sign_def verifying_key_def Let_def)

context lawful_fs
begin

text \<open>The entry an append returns is the one a later read finds at the end of the log.\<close>

lemma roster_append_read:
  assumes s: "ok s" "rlog_fs rl = fs" "okp (rlog_path rl)" "room s (rlog_path rl)" "id_peer_id i = rlog_author rl"
    and log: "contents (files s (rlog_path rl)) = utf8 (log_text ser ls)"
    and old: "json_laws parse ser (set ls)" "map_r (roster_check E (rlog_author rl) (verifying_key E i)) ls = Inr es"
    and e: "e = \<lparr>re_seq = last_seq_of re_seq es + 1, re_lamport = lam, re_op = opn, re_subject_peer = sp,
      re_subject_key = sk, re_added_by = rlog_author rl\<rparr>" "length sk = 32"
    and laws: "env_laws E" "json_laws parse ser {roster_line_of E i e}"
  shows "\<exists>s'. roster_append E parse ser rl i lam opn sp sk s = (Inr e, s') \<and> ok s'
    \<and> roster_read_verified E parse rl (verifying_key E i) s' = (Inr (es @ [e]), s')"
proof -
  let ?l = "roster_line_of E i e" and ?chk = "roster_check E (rlog_author rl) (verifying_key E i)"
  obtain s1 where s1: "ensure_parent fs (rlog_path rl) s = (Inr (), s1)" "ok s1" "files s1 = files s" "room s1 (rlog_path rl)"
    using ensure_parent_ok [OF s(1,4)] by blast
  have log1: "contents (files s1 (rlog_path rl)) = utf8 (log_text ser ls)" using log s1(3) by simp
  have read1: "roster_read_verified E parse rl (verifying_key E i) s1 = (Inr es, s1)"
    unfolding roster_read_verified_def s(2)
    by (simp only: read_verified_eq [OF s1(2) log1 valid_log_text [OF old(1)]] verify_text_log [OF old(1)] old(2))
  obtain s2 where s2: "append_json fs (rlog_path rl) (ser ?l) s1 = (Inr (), s2)" "ok s2"
    "contents (files s2 (rlog_path rl)) = utf8 (log_text ser (ls @ [?l]))"
    using append_json_ok [OF s1(2) s(3) s1(4) log1, of "ser ?l"] by auto
  have laws': "json_laws parse ser (set (ls @ [?l]))" using laws(2) old(1) by (auto simp: json_laws_def)
  have "?chk ?l = Inr e" using roster_check_line [OF laws(1), of e i] e by simp
  then have "map_r ?chk (ls @ [?l]) = Inr (es @ [e])" using old(2) by (simp add: map_r_append)
  then have "roster_read_verified E parse rl (verifying_key E i) s2 = (Inr (es @ [e]), s2)"
    unfolding roster_read_verified_def s(2)
    by (simp only: read_verified_eq [OF s2(2,3) valid_log_text [OF laws']] verify_text_log [OF laws'])
  moreover have "roster_append E parse ser rl i lam opn sp sk s = (Inr e, s2)"
    using s(2,5) s1(1) read1 s2(1) by (simp add: roster_append_def roster_last_seq_def Let_def e(1))
  ultimately show ?thesis using s2(2) by blast
qed

end

section \<open>The guarantees\<close>

definition ex_rlog :: "pool roster_log" where
  "ex_rlog = \<lparr>rlog_path = ex_path ''a'', rlog_author = 1, rlog_fs = pool_fs\<rparr>"

text \<open>
  A device's membership change is numbered and kept. Appending to the author's own log
  returns an entry with the next sequence number, and reading the log returns the earlier entries
  followed by exactly that entry; another identity is refused and nothing is written.
\<close>

theorem roster_append_then_read:
  assumes "pool_ok s" "rlog_fs rl = pool_fs" "pool_path (rlog_path rl)" "pool_room s (rlog_path rl)"
    "contents (pool_file s (rlog_path rl)) = utf8 (log_text ser ls)"
    "json_laws parse ser (set ls)" "roster_verify_text E parse (rlog_author rl) (verifying_key E i) (log_text ser ls) = Inr es"
    "e = \<lparr>re_seq = last_seq_of re_seq es + 1, re_lamport = lam, re_op = opn, re_subject_peer = sp,
      re_subject_key = sk, re_added_by = rlog_author rl\<rparr>" "length sk = 32"
    "env_laws E" "json_laws parse ser {roster_line_of E i e}"
  shows "if id_peer_id i = rlog_author rl
    then \<exists>s'. roster_append E parse ser rl i lam opn sp sk s = (Inr e, s')
      \<and> roster_read_verified E parse rl (verifying_key E i) s' = (Inr (es @ [e]), s')
    else roster_append E parse ser rl i lam opn sp sk s = (Inl Peer, s)"
proof (cases "id_peer_id i = rlog_author rl")
  case True
  have "map_r (roster_check E (rlog_author rl) (verifying_key E i)) ls = Inr es"
    using assms(7) by (simp add: roster_verify_text_def verify_text_log [OF assms(6)])
  then show ?thesis
    using slots.roster_append_read [OF assms(1-4) True assms(5,6) _ assms(8-11)] True by auto
next
  case False
  then show ?thesis by (simp add: roster_append_def)
qed

definition ex_rentry :: roster_entry where
  "ex_rentry = \<lparr>re_seq = last_seq_of re_seq ([] :: roster_entry list) + 1, re_lamport = 1, re_op = Add Writer, re_subject_peer = 7,
     re_subject_key = ex_key 7, re_added_by = rlog_author ex_rlog\<rparr>"

end
