(* ===== verification/Key_Log.thy ===== *)
theory Key_Log
  imports Roster_Log
begin

text \<open>
  The key log (\<open>roam-storage/src/keylog.rs\<close>): signed entries that announce epochs and deliver wrapped
  epoch keys. Its loop and append are those of \<open>Signed_Log\<close>; the theory adds the entry format, the
  check of one line and the injectivity of the signed bytes.
\<close>

datatype recipient = Device peer | Paper

datatype key_body =
    Rotate "bytes list" bytes
  | Wrap recipient bytes

record key_log_entry =
  ke_seq :: u64
  ke_author :: peer
  ke_epoch_id :: bytes
  ke_body :: key_body

definition key_canonical_bytes :: "key_log_entry \<Rightarrow> bytes" where
  "key_canonical_bytes e =
     ascii ''roam.keylog.v1'' @ u64_to_le (ke_seq e) @ u64_to_le (ke_author e) @ ke_epoch_id e
     @ (case ke_body e of
          Rotate parents nonce \<Rightarrow> [0] @ u64_to_le (of_nat (length parents)) @ concat parents @ nonce
        | Wrap r blob \<Rightarrow>
            [1] @ (case r of Device p \<Rightarrow> [0] @ u64_to_le p | Paper \<Rightarrow> [1])
            @ u64_to_le (of_nat (length blob)) @ blob)"

datatype key_body_line =
    RotateLine "ustr list" ustr
  | WrapLine recipient ustr

record key_line =
  kl_seq :: u64
  kl_author :: peer
  kl_epoch_id :: ustr
  kl_body :: key_body_line
  kl_sig :: ustr

definition b64_32 :: "env \<Rightarrow> ustr \<Rightarrow> (storage_error, bytes) res" where
  "b64_32 E s = bind_r (ok_or MalformedEntry (b64_decode E (utf8 s)))
     (\<lambda>v. if length v = 32 then Inr v else Inl MalformedEntry)"

record 's key_log =
  klog_path :: path
  klog_author :: peer
  klog_fs :: "'s vault_fs"

definition key_log_new :: "path \<Rightarrow> peer \<Rightarrow> 's vault_fs \<Rightarrow> 's key_log" where
  "key_log_new d author fs = \<lparr>klog_path = log_path d ''keylog-'' author, klog_author = author, klog_fs = fs\<rparr>"

fun key_body_of :: "env \<Rightarrow> key_body_line \<Rightarrow> (storage_error, key_body) res" where
  "key_body_of E (RotateLine parents nonce) =
     bind_r (map_r (b64_32 E) parents) (\<lambda>ps. bind_r (b64_32 E nonce) (\<lambda>n. Inr (Rotate ps n)))"
| "key_body_of E (WrapLine r blob) =
     bind_r (ok_or MalformedEntry (b64_decode E (utf8 blob))) (\<lambda>b. Inr (Wrap r b))"

definition key_check :: "env \<Rightarrow> peer \<Rightarrow> bytes \<Rightarrow> key_line \<Rightarrow> (storage_error, key_log_entry) res" where
  "key_check E author key l =
     (if kl_author l \<noteq> author then Inl (BadSignature (kl_author l))
      else bind_r (key_body_of E (kl_body l)) (\<lambda>body.
           bind_r (ok_or MalformedEntry (b64_decode E (utf8 (kl_sig l)))) (\<lambda>sig.
           if length sig \<noteq> 64 then Inl MalformedEntry
           else bind_r (b64_32 E (kl_epoch_id l)) (\<lambda>epoch.
                let entry = \<lparr>ke_seq = kl_seq l, ke_author = kl_author l, ke_epoch_id = epoch, ke_body = body\<rparr> in
                if \<not> key_verify E key (key_canonical_bytes entry) sig then Inl (BadSignature author)
                else Inr entry))))"

definition key_verify_text :: "env \<Rightarrow> (ustr \<Rightarrow> key_line option) \<Rightarrow> peer \<Rightarrow> bytes \<Rightarrow> ustr
    \<Rightarrow> (storage_error, key_log_entry list) res" where
  "key_verify_text E parse author key text = verify_text parse (key_check E author key) text"

definition key_verify_bytes :: "env \<Rightarrow> (ustr \<Rightarrow> key_line option) \<Rightarrow> peer \<Rightarrow> bytes \<Rightarrow> bytes
    \<Rightarrow> (storage_error, key_log_entry list) res" where
  "key_verify_bytes E parse author key b = verify_bytes parse (key_check E author key) b"

definition key_read_verified :: "env \<Rightarrow> (ustr \<Rightarrow> key_line option) \<Rightarrow> 's key_log \<Rightarrow> bytes
    \<Rightarrow> ('s, storage_error, key_log_entry list) op" where
  "key_read_verified E parse kl key =
     read_verified (klog_fs kl) (klog_path kl) parse (key_check E (klog_author kl) key)"

definition key_last_seq :: "env \<Rightarrow> (ustr \<Rightarrow> key_line option) \<Rightarrow> 's key_log \<Rightarrow> bytes
    \<Rightarrow> ('s, storage_error, u64) op" where
  "key_last_seq E parse kl key = bindE (key_read_verified E parse kl key) (\<lambda>es. returnE (last_seq_of ke_seq es))"

fun key_body_line_of :: "env \<Rightarrow> key_body \<Rightarrow> key_body_line" where
  "key_body_line_of E (Rotate parents nonce) = RotateLine (map (b64_encode E) parents) (b64_encode E nonce)"
| "key_body_line_of E (Wrap r blob) = WrapLine r (b64_encode E blob)"

definition key_line_of :: "env \<Rightarrow> identity \<Rightarrow> key_log_entry \<Rightarrow> key_line" where
  "key_line_of E i e =
     \<lparr>kl_seq = ke_seq e, kl_author = ke_author e, kl_epoch_id = b64_encode E (ke_epoch_id e),
      kl_body = key_body_line_of E (ke_body e), kl_sig = b64_encode E (id_sign E i (key_canonical_bytes e))\<rparr>"

definition key_append :: "env \<Rightarrow> (ustr \<Rightarrow> key_line option) \<Rightarrow> (key_line \<Rightarrow> ustr) \<Rightarrow> 's key_log
    \<Rightarrow> identity \<Rightarrow> bytes \<Rightarrow> key_body \<Rightarrow> ('s, storage_error, key_log_entry) op" where
  "key_append E parse ser kl i epoch_id body =
     (if id_peer_id i \<noteq> klog_author kl then failE Peer
      else bindE (ensure_parent (klog_fs kl) (klog_path kl)) (\<lambda>_.
           bindE (key_last_seq E parse kl (verifying_key E i)) (\<lambda>sq.
           let entry = \<lparr>ke_seq = sq + 1, ke_author = klog_author kl, ke_epoch_id = epoch_id, ke_body = body\<rparr> in
           bindE (append_json (klog_fs kl) (klog_path kl) (ser (key_line_of E i entry))) (\<lambda>_.
           returnE entry))))"

section \<open>Entries and lines\<close>

definition body_ok :: "key_body \<Rightarrow> bool" where
  "body_ok b \<longleftrightarrow>
     (case b of
        Rotate parents nonce \<Rightarrow> list_all (\<lambda>p. length p = 32) parents \<and> length nonce = 32 \<and> length parents < 2 ^ 64
      | Wrap _ blob \<Rightarrow> length blob < 2 ^ 64)"

definition key_entry_ok :: "key_log_entry \<Rightarrow> bool" where
  "key_entry_ok e \<longleftrightarrow> length (ke_epoch_id e) = 32 \<and> body_ok (ke_body e)"

lemma b64_32_encode: "env_laws E \<Longrightarrow> length v = 32 \<Longrightarrow> b64_32 E (b64_encode E v) = Inr v"
  by (simp add: b64_32_def env_laws_def)

lemma key_body_of_line:
  assumes "env_laws E" "body_ok b"
  shows "key_body_of E (key_body_line_of E b) = Inr b"
proof (cases b)
  case (Rotate ps n)
  have "list_all (\<lambda>p. length p = 32) xs \<Longrightarrow> map_r (b64_32 E) (map (b64_encode E) xs) = Inr xs" for xs
    by (induction xs) (simp_all add: b64_32_encode [OF assms(1)])
  then show ?thesis using assms Rotate by (simp add: body_ok_def b64_32_encode)
next
  case (Wrap r blob)
  then show ?thesis using assms by (simp add: env_laws_def)
qed

lemma key_check_line:
  assumes "env_laws E" "key_entry_ok e"
  shows "key_check E (ke_author e) (verifying_key E i) (key_line_of E i e) = Inr e"
  using assms key_body_of_line [OF assms(1)]
  by (cases e) (simp add: key_check_def key_line_of_def key_entry_ok_def b64_32_encode env_laws_def
      key_verify_def id_sign_def verifying_key_def Let_def)

section \<open>Signed bytes\<close>

lemma concat_same_length_inj:
  "list_all (\<lambda>p. length p = n) xs \<Longrightarrow> list_all (\<lambda>p. length p = n) ys \<Longrightarrow> length xs = length ys
     \<Longrightarrow> concat xs = concat ys \<Longrightarrow> xs = ys"
proof (induction xs arbitrary: ys)
  case (Cons x xs)
  from Cons.prems(3) obtain y ys' where ys: "ys = y # ys'" by (cases ys) simp_all
  have "length x = length y" using Cons.prems(1,2) ys by simp
  then have "x = y \<and> concat xs = concat ys'" using Cons.prems(4) ys by (simp add: append_eq_append_conv)
  then show ?case using Cons.IH [of ys'] Cons.prems ys by simp
qed simp

lemma length_concat_same: "list_all (\<lambda>p. length p = n) xs \<Longrightarrow> length (concat xs) = n * length xs"
  by (induction xs) auto

lemma rotate_bytes_inj:
  assumes "body_ok (Rotate ps n)" "body_ok (Rotate qs m)"
    "u64_to_le (of_nat (length ps)) @ concat ps @ n = u64_to_le (of_nat (length qs)) @ concat qs @ m"
  shows "ps = qs \<and> n = m"
proof -
  have eq: "u64_to_le (of_nat (length ps)) = u64_to_le (of_nat (length qs))" "concat ps @ n = concat qs @ m"
    using assms(3) by (simp_all add: append_eq_same_length)
  then have "length ps = length qs"
    using of_nat_u64_inj [of "length ps" "length qs"] assms(1,2) by (simp add: body_ok_def)
  moreover from this have "concat ps = concat qs \<and> n = m"
    using eq(2) assms(1,2) by (simp add: body_ok_def append_eq_same_length length_concat_same)
  ultimately show ?thesis
    using concat_same_length_inj [of 32 ps qs] assms(1,2) by (simp add: body_ok_def)
qed

lemma wrap_bytes_inj:
  assumes "body_ok (Wrap r b)" "body_ok (Wrap q c)"
    "(case r of Device p \<Rightarrow> [0] @ u64_to_le p | Paper \<Rightarrow> [1]) @ u64_to_le (of_nat (length b)) @ b
     = (case q of Device p \<Rightarrow> [0] @ u64_to_le p | Paper \<Rightarrow> [1]) @ u64_to_le (of_nat (length c)) @ c"
  shows "r = q \<and> b = c"
  using assms(3) by (cases r; cases q) (simp_all add: append_eq_append_conv)

lemma key_canonical_bytes_inj:
  assumes wf: "key_entry_ok e" "key_entry_ok d" and eq: "key_canonical_bytes e = key_canonical_bytes d"
  shows "e = d"
proof -
  have len: "length (ke_epoch_id e) = length (ke_epoch_id d)" using wf by (simp add: key_entry_ok_def)
  have fields: "ke_seq e = ke_seq d" "ke_author e = ke_author d" "ke_epoch_id e = ke_epoch_id d"
    and body: "(case ke_body e of
          Rotate parents nonce \<Rightarrow> [0] @ u64_to_le (of_nat (length parents)) @ concat parents @ nonce
        | Wrap r blob \<Rightarrow> [1] @ (case r of Device p \<Rightarrow> [0] @ u64_to_le p | Paper \<Rightarrow> [1])
            @ u64_to_le (of_nat (length blob)) @ blob)
      = (case ke_body d of
          Rotate parents nonce \<Rightarrow> [0] @ u64_to_le (of_nat (length parents)) @ concat parents @ nonce
        | Wrap r blob \<Rightarrow> [1] @ (case r of Device p \<Rightarrow> [0] @ u64_to_le p | Paper \<Rightarrow> [1])
            @ u64_to_le (of_nat (length blob)) @ blob)"
    using eq len unfolding key_canonical_bytes_def by (simp_all add: append_eq_append_conv)
  have ok: "body_ok (ke_body e)" "body_ok (ke_body d)" using wf by (simp_all add: key_entry_ok_def)
  have "ke_body e = ke_body d"
  proof (cases "ke_body e"; cases "ke_body d")
    fix ps n qs m assume b: "ke_body e = Rotate ps n" "ke_body d = Rotate qs m"
    show ?thesis using rotate_bytes_inj [of ps n qs m] body ok b by simp
  next
    fix r b q c assume b: "ke_body e = Wrap r b" "ke_body d = Wrap q c"
    show ?thesis using wrap_bytes_inj [of r b q c] body ok b by simp
  qed (use body in simp_all)
  then show ?thesis using fields by simp
qed

section \<open>The guarantees\<close>

text \<open>
  A key-log signature binds one entry. Entries with the same canonical bytes are the same
  entry: a rotation is never read as a wrap, and no list of parents as another.
\<close>

theorem key_canonical_bytes_injective:
  assumes "key_entry_ok e" "key_entry_ok d" "key_canonical_bytes e = key_canonical_bytes d"
  shows "e = d"
  by (rule key_canonical_bytes_inj [OF assms])

end
