(* ===== verification/Key_Wrap.thy ===== *)
theory Key_Wrap
  imports Key_Log
begin

text \<open>
  The symmetric layer of \<open>roam-storage\<close>: sealed-box key wrapping (\<open>keywrap.rs\<close>), epoch-tagged
  encryption (\<open>epoch_crypto.rs\<close>), the subkeys of a vault key (\<open>vault_key.rs\<close>), the vault id
  (\<open>ids.rs\<close>) and the paper recovery phrase (\<open>paper.rs\<close>). BLAKE3, X25519, XChaCha20-Poly1305 and
  Argon2id are parameters; random values are arguments.
\<close>

record crypto =
  cr_blake3 :: "bytes \<Rightarrow> bytes"
  cr_derive_key :: "ustr \<Rightarrow> bytes \<Rightarrow> bytes"
  cr_keyed_hash :: "bytes \<Rightarrow> bytes \<Rightarrow> bytes"
  cr_x_public :: "bytes \<Rightarrow> bytes"
  cr_dh :: "bytes \<Rightarrow> bytes \<Rightarrow> bytes"
  cr_seal :: "bytes \<Rightarrow> bytes \<Rightarrow> bytes \<Rightarrow> bytes"
  cr_open :: "bytes \<Rightarrow> bytes \<Rightarrow> bytes \<Rightarrow> bytes option"
  cr_argon2 :: "bytes \<Rightarrow> bytes \<Rightarrow> bytes"

text \<open>Diffie-Hellman agrees, public keys have 32 bytes, and sealing is inverted by opening.\<close>

definition crypto_laws :: "crypto \<Rightarrow> bool" where
  "crypto_laws C \<longleftrightarrow>
     (\<forall>a b. cr_dh C a (cr_x_public C b) = cr_dh C b (cr_x_public C a))
     \<and> (\<forall>a. length (cr_x_public C a) = 32)
     \<and> (\<forall>k n m. cr_open C k n (cr_seal C k n m) = Some m)"

section \<open>Key wrapping\<close>

definition EPH_PUB_LEN :: nat where "EPH_PUB_LEN = 32"
definition NONCE_LEN :: nat where "NONCE_LEN = 24"

definition wrap_subkey :: "crypto \<Rightarrow> bytes \<Rightarrow> bytes \<Rightarrow> bytes \<Rightarrow> bytes" where
  "wrap_subkey C shared eph_pub recipient_pub =
     cr_derive_key C (lit ''roam keywrap v1'') (shared @ eph_pub @ recipient_pub)"

definition key_wrap :: "crypto \<Rightarrow> bytes \<Rightarrow> bytes \<Rightarrow> bytes \<Rightarrow> bytes \<Rightarrow> bytes" where
  "key_wrap C eph_secret nonce recipient_pub key =
     (let eph_pub = cr_x_public C eph_secret;
          shared = cr_dh C eph_secret recipient_pub;
          subkey = wrap_subkey C shared eph_pub recipient_pub in
      eph_pub @ nonce @ cr_seal C subkey nonce key)"

definition key_unwrap :: "crypto \<Rightarrow> bytes \<Rightarrow> bytes \<Rightarrow> (storage_error, bytes) res" where
  "key_unwrap C secret blob =
     (if length blob < EPH_PUB_LEN + NONCE_LEN then Inl Keywrap
      else let eph_pub = take EPH_PUB_LEN blob;
               nonce = take NONCE_LEN (drop EPH_PUB_LEN blob);
               ct = drop (EPH_PUB_LEN + NONCE_LEN) blob;
               recipient_pub = cr_x_public C secret;
               subkey = wrap_subkey C (cr_dh C secret eph_pub) eph_pub recipient_pub in
           bind_r (ok_or Keywrap (cr_open C subkey nonce ct))
             (\<lambda>pt. if length pt = 32 then Inr pt else Inl Keywrap))"

lemma key_unwrap_wrap:
  assumes "crypto_laws C" "length nonce = NONCE_LEN" "length key = 32"
  shows "key_unwrap C secret (key_wrap C eph nonce (cr_x_public C secret) key) = Inr key"
  using assms
  by (simp add: key_unwrap_def key_wrap_def Let_def crypto_laws_def EPH_PUB_LEN_def NONCE_LEN_def)

section \<open>Epoch-tagged encryption\<close>

datatype crypto_error = ShortCt | OpenFailed

definition seal_epoch :: "crypto \<Rightarrow> bytes \<Rightarrow> bytes \<Rightarrow> bytes \<Rightarrow> bytes \<Rightarrow> bytes" where
  "seal_epoch C nonce epoch_key epoch_id plaintext = epoch_id @ nonce @ cr_seal C epoch_key nonce plaintext"

definition open_epoch :: "crypto \<Rightarrow> bytes \<Rightarrow> bytes \<Rightarrow> (crypto_error, bytes) res" where
  "open_epoch C epoch_key body =
     (if length body < 24 then Inl ShortCt
      else ok_or OpenFailed (cr_open C epoch_key (take 24 body) (drop 24 body)))"

lemma open_seal_epoch:
  assumes "crypto_laws C" "length nonce = 24" "length epoch_id = 32"
  shows "open_epoch C k (drop 32 (seal_epoch C nonce k epoch_id m)) = Inr m"
  using assms by (simp add: open_epoch_def seal_epoch_def crypto_laws_def)

section \<open>Subkeys and the vault id\<close>

definition VAULT_ID_LABEL :: ustr where "VAULT_ID_LABEL = lit ''roam-backend-client id-derivation v1''"
definition VAULT_AEAD_LABEL :: ustr where "VAULT_AEAD_LABEL = lit ''roam-backend-client aead v1''"

definition vault_subkeys :: "crypto \<Rightarrow> bytes \<Rightarrow> bytes \<times> bytes" where
  "vault_subkeys C k = (cr_derive_key C VAULT_ID_LABEL k, cr_derive_key C VAULT_AEAD_LABEL k)"

definition vault_id_derive :: "crypto \<Rightarrow> bytes \<Rightarrow> bytes" where
  "vault_id_derive C k = cr_keyed_hash C (fst (vault_subkeys C k)) (ascii ''roam-vault-id'')"

section \<open>The paper phrase\<close>

definition PAPER_SALT :: bytes where "PAPER_SALT = ascii ''roam-paper-recovery-v1--''"

definition CROCKFORD :: ustr where "CROCKFORD = lit ''0123456789ABCDEFGHJKMNPQRSTVWXYZ''"

unbundle bit_operations_syntax

text \<open>The inner loop: emit symbols while at least five bits are buffered.\<close>

function emit_symbols :: "u32 \<Rightarrow> nat \<Rightarrow> ustr \<Rightarrow> nat \<times> ustr" where
  "emit_symbols acc bits out =
     (if bits < 5 then (bits, out)
      else emit_symbols acc (bits - 5) (out @ [CROCKFORD ! unat (drop_bit (bits - 5) acc AND 0x1f)]))"
  by pat_completeness auto
termination by (relation "measure (\<lambda>(_, bits, _). bits)") auto

declare emit_symbols.simps [simp del]

definition phrase_step :: "byte \<Rightarrow> u32 \<times> nat \<times> ustr \<Rightarrow> u32 \<times> nat \<times> ustr" where
  "phrase_step b st =
     (case st of (acc, bits, out) \<Rightarrow>
        let acc' = push_bit 8 acc OR ucast b; (bits', out') = emit_symbols acc' (bits + 8) out in (acc', bits', out'))"


definition phrase_symbols :: "bytes \<Rightarrow> ustr" where
  "phrase_symbols entropy = snd (snd (fold phrase_step entropy (0, 0, [])))"

fun chunks4 :: "ustr \<Rightarrow> ustr list" where
  "chunks4 (a # b # c # d # r) = [a, b, c, d] # chunks4 r"
| "chunks4 [] = []"
| "chunks4 r = [r]"

definition encode_phrase :: "bytes \<Rightarrow> ustr" where
  "encode_phrase entropy = str_join (lit ''-'') (chunks4 (phrase_symbols entropy))"

definition paper_from_passphrase :: "crypto \<Rightarrow> ustr \<Rightarrow> bytes" where
  "paper_from_passphrase C phrase = cr_argon2 C (utf8 phrase) PAPER_SALT"

definition paper_generate :: "crypto \<Rightarrow> bytes \<Rightarrow> bytes \<times> ustr" where
  "paper_generate C entropy = (let phrase = encode_phrase entropy in (paper_from_passphrase C phrase, phrase))"

definition paper_public :: "crypto \<Rightarrow> bytes \<Rightarrow> bytes" where
  "paper_public C secret = cr_x_public C secret"

end
