(* ===== verification/Paper_Phrase.thy ===== *)
theory Paper_Phrase
  imports Key_Wrap
begin

text \<open>
  The recovery phrase (\<open>encode_phrase\<close> in \<open>roam-storage/src/paper.rs\<close>) loses no entropy: the bit
  buffer of the encoder always holds the low bits of the number read so far, the symbols spell that
  number in base 32, and so the 160 random bits can be read back from the printed phrase.
\<close>

definition sym_val :: "uchar \<Rightarrow> nat" where
  "sym_val c = length (takeWhile (\<lambda>x. x \<noteq> c) CROCKFORD)"

definition value32 :: "ustr \<Rightarrow> nat" where
  "value32 out = foldl (\<lambda>v c. v * 32 + sym_val c) 0 out"

definition value256 :: "bytes \<Rightarrow> nat" where
  "value256 bs = foldl (\<lambda>v b. v * 256 + unat b) 0 bs"

lemma takeWhile_nth_distinct:
  "distinct xs \<Longrightarrow> n < length xs \<Longrightarrow> length (takeWhile (\<lambda>x. x \<noteq> xs ! n) xs) = n"
proof (induction xs arbitrary: n)
  case (Cons x xs)
  then show ?case by (cases n) (auto simp: in_set_conv_nth)
qed simp

lemma crockford: "distinct CROCKFORD" "length CROCKFORD = 32" "45 \<notin> set CROCKFORD"
  by (simp_all add: CROCKFORD_def lit_def)

lemma sym_val_nth: "n < 32 \<Longrightarrow> sym_val (CROCKFORD ! n) = n"
  using takeWhile_nth_distinct [OF crockford(1), of n] crockford(2) by (simp add: sym_val_def)

lemma value32_snoc: "value32 (out @ [c]) = value32 out * 32 + sym_val c"
  by (simp add: value32_def)

lemma value256_snoc: "value256 (bs @ [b]) = value256 bs * 256 + unat b"
  by (simp add: value256_def)

unbundle bit_operations_syntax

lemma symbol_bits: "unat (drop_bit n (acc :: u32) AND 0x1f) = unat acc div 2 ^ n mod 32"
proof -
  have "drop_bit n acc AND 0x1f = take_bit 5 (drop_bit n acc)"
    by (simp add: take_bit_eq_mask mask_eq_exp_minus_1)
  then have "unat (drop_bit n acc AND 0x1f) = take_bit 5 (drop_bit n (unat acc))"
    by (simp only: unsigned_take_bit_eq unat_drop_bit_eq)
  then show ?thesis by (simp only: take_bit_eq_mod drop_bit_eq_div) simp
qed

lemma push_byte: "unat (push_bit 8 (acc :: u32) OR ucast (b :: byte)) = (unat acc * 256 + unat b) mod 2 ^ 32"
proof -
  have "push_bit 8 acc AND ucast b = 0"
    by (rule bit_eqI) (auto simp: bit_simps dest: bit_imp_le_length)
  then have "push_bit 8 acc OR ucast b = acc * 256 + (ucast b :: u32)"
    by (simp add: disjunctive_add_eq_or [symmetric] push_bit_eq_mult mult.commute)
  moreover have "unat (ucast b :: u32) = unat b"
    using byte_bound [of b] by (simp add: unsigned_ucast_eq take_bit_eq_mod)
  ultimately show ?thesis by (simp add: unat_word_ariths mod_simps)
qed


lemma low_bits_split: "a mod 2 ^ (n + 5) = a div 2 ^ n mod 32 * 2 ^ n + a mod 2 ^ (n :: nat)" for a :: nat
  by (simp add: power_add mod_mult2_eq)

lemma emit_symbols_value:
  "emit_symbols acc bits out = (bits', out') \<Longrightarrow>
     bits' = bits mod 5 \<and> length out' = length out + bits div 5 \<and> set out' \<subseteq> set out \<union> set CROCKFORD
     \<and> value32 out' * 2 ^ bits' + unat acc mod 2 ^ bits' = value32 out * 2 ^ bits + unat acc mod 2 ^ bits"
proof (induction acc bits out rule: emit_symbols.induct)
  case (1 acc bits out)
  show ?case
  proof (cases "bits < 5")
    case True
    then show ?thesis using 1(2) by (simp add: emit_symbols.simps)
  next
    case False
    define n where "n = bits - 5"
    have bits: "bits = n + 5" using False by (simp add: n_def)
    let ?c = "CROCKFORD ! unat (and (drop_bit n acc) 0x1f)"
    have lt: "unat acc div 2 ^ n mod 32 < 32" by simp
    have c: "sym_val ?c = unat acc div 2 ^ n mod 32" "?c \<in> set CROCKFORD"
      unfolding symbol_bits using sym_val_nth [OF lt] nth_mem [of "unat acc div 2 ^ n mod 32" CROCKFORD] crockford(2) by auto
    have "emit_symbols acc n (out @ [?c]) = (bits', out')"
      using 1(2) False by (simp add: emit_symbols.simps [of acc bits] n_def)
    from 1(1) [OF False this [unfolded n_def]] c low_bits_split [of "unat acc" n]
    show ?thesis by (auto simp: bits n_def [symmetric] value32_snoc power_add algebra_simps)
  qed
qed

definition phrase_inv :: "bytes \<Rightarrow> u32 \<times> nat \<times> ustr \<Rightarrow> bool" where
  "phrase_inv bs st \<longleftrightarrow>
     (case st of (acc, bits, out) \<Rightarrow>
        bits = 8 * length bs mod 5 \<and> length out = 8 * length bs div 5 \<and> set out \<subseteq> set CROCKFORD
        \<and> value32 out * 2 ^ bits + unat acc mod 2 ^ bits = value256 bs)"

lemma phrase_inv_step:
  assumes "phrase_inv bs st"
  shows "phrase_inv (bs @ [b]) (phrase_step b st)"
proof -
  obtain acc bits out where st: "st = (acc, bits, out)" by (cases st)
  define acc' where "acc' = or (push_bit 8 acc) (ucast b)"
  obtain bits' out' where e: "emit_symbols acc' (bits + 8) out = (bits', out')" by (cases "emit_symbols acc' (bits + 8) out")
  have inv: "bits = 8 * length bs mod 5" "length out = 8 * length bs div 5" "set out \<subseteq> set CROCKFORD"
    "value32 out * 2 ^ bits + unat acc mod 2 ^ bits = value256 bs"
    using assms unfolding phrase_inv_def st split_conv by blast+
  have "bits < 5" using inv(1) by simp
  have "unat acc' mod 2 ^ (bits + 8) = (unat acc * 256 + unat b) mod 2 ^ (bits + 8)"
    unfolding acc'_def push_byte using \<open>bits < 5\<close>
    by (intro mod_mod_cancel le_imp_power_dvd) simp
  also have "\<dots> = unat acc mod 2 ^ bits * 256 + unat b"
    using byte_bound [of b] mod_mult2_eq [of "unat acc * 256 + unat b" 256 "2 ^ bits"]
    by (simp add: power_add mult.commute)
  finally have low: "unat acc' mod 2 ^ (bits + 8) = unat acc mod 2 ^ bits * 256 + unat b" .
  note v = emit_symbols_value [OF e]
  note v4 = v [THEN conjunct2, THEN conjunct2, THEN conjunct2]
  have "value32 out' * 2 ^ bits' + unat acc' mod 2 ^ bits' = value256 (bs @ [b])"
    unfolding value256_snoc inv(4) [symmetric] v4 low by (simp add: power_add algebra_simps)
  moreover have "bits' = 8 * length (bs @ [b]) mod 5" using v inv(1) by (simp add: mod_simps add.commute)
  moreover have "length out' = 8 * length (bs @ [b]) div 5" using v [THEN conjunct2, THEN conjunct1] unfolding inv(1,2) by simp presburger
  ultimately show ?thesis
    using v inv(3) by (auto simp: phrase_inv_def phrase_step_def st acc'_def [symmetric] e Let_def)
qed

lemma phrase_inv_fold: "phrase_inv bs (fold phrase_step bs (0, 0, []))"
  by (induction bs rule: rev_induct) (simp_all add: phrase_inv_step, simp add: phrase_inv_def value32_def value256_def)

lemma phrase_symbols_value:
  assumes "length bs = 20"
  shows "value32 (phrase_symbols bs) = value256 bs" "length (phrase_symbols bs) = 32" "set (phrase_symbols bs) \<subseteq> set CROCKFORD"
  using phrase_inv_fold [of bs] assms by (auto simp: phrase_inv_def phrase_symbols_def split: prod.splits)

lemma digit256: "r < 256 \<Longrightarrow> (q * 256 + r) div 256 = q \<and> (q * 256 + r) mod 256 = r" for q r :: nat
  by simp

lemma value256_inj: "length as = length bs \<Longrightarrow> value256 as = value256 bs \<Longrightarrow> as = bs"
proof (induction as arbitrary: bs rule: rev_induct)
  case (snoc a as)
  then obtain b bs' where bs: "bs = bs' @ [b]" by (cases bs rule: rev_cases) auto
  have "value256 as * 256 + unat a = value256 bs' * 256 + unat b" using snoc.prems(2) bs by (simp add: value256_snoc)
  then have "value256 as = value256 bs'" "unat a = unat b"
    using digit256 [of "unat a" "value256 as"] digit256 [of "unat b" "value256 bs'"]
      byte_bound [of a] byte_bound [of b] by metis+
  then show ?case using snoc bs by (simp add: word_unat_eq_iff)
qed simp

lemma concat_chunks4 [simp]: "concat (chunks4 s) = s"
  by (induction s rule: chunks4.induct) simp_all

lemma phrase_split:
  assumes "set s \<subseteq> set CROCKFORD" "s \<noteq> []"
  shows "str_split 45 (str_join (lit ''-'') (chunks4 s)) = chunks4 s"
proof -
  have "\<forall>p \<in> set (chunks4 s). 45 \<notin> set p"
    using assms(1) crockford(3) by (induction s rule: chunks4.induct) auto
  moreover have "chunks4 s \<noteq> []" using assms(2) by (cases s rule: chunks4.cases) auto
  moreover have "lit ''-'' = [45]" by (simp add: lit_def)
  ultimately show ?thesis by (simp add: str_split_join)
qed

text \<open>
  C9: the printed phrase keeps all the entropy. Two different 160-bit values never print the same
  phrase, and the phrase is 32 Crockford symbols in groups of four.
\<close>

theorem encode_phrase_injective:
  assumes "length as = 20" "length bs = 20"
  shows "(encode_phrase as = encode_phrase bs \<longleftrightarrow> as = bs)
    \<and> length (concat (str_split 45 (encode_phrase as))) = 32
    \<and> set (concat (str_split 45 (encode_phrase as))) \<subseteq> set CROCKFORD"
proof -
  have sp: "concat (str_split 45 (encode_phrase xs)) = phrase_symbols xs" if "length xs = 20" for xs
  proof -
    have "phrase_symbols xs \<noteq> []" using phrase_symbols_value(2) [OF that] by auto
    then show ?thesis
      using phrase_split [of "phrase_symbols xs"] phrase_symbols_value(3) [OF that] by (simp add: encode_phrase_def)
  qed
  have inj: "as = bs" if eq: "encode_phrase as = encode_phrase bs"
  proof (rule value256_inj)
    have "phrase_symbols as = phrase_symbols bs"
      unfolding sp [OF assms(1), symmetric] sp [OF assms(2), symmetric] eq ..
    then show "value256 as = value256 bs"
      unfolding phrase_symbols_value(1) [OF assms(1), symmetric] phrase_symbols_value(1) [OF assms(2), symmetric] by (rule arg_cong)
  qed (simp only: assms)
  show ?thesis
    unfolding sp [OF assms(1)] phrase_symbols_value(2) [OF assms(1)]
    using inj phrase_symbols_value(3) [OF assms(1)] by blast
qed

theorem encode_phrase_injective_witness: "encode_phrase (replicate 20 0) \<noteq> encode_phrase (replicate 19 0 @ [1])"
  using encode_phrase_injective [of "replicate 20 0" "replicate 19 0 @ [1]"] by (simp add: numeral_eq_Suc)

end
