(* ===== verification/Text_Diff.thy ===== *)
theory Text_Diff
  imports Rust_Text
begin

text \<open>
  Editing text files (\<open>roam-files/src/textdiff.rs\<close>): turning a pair of texts into insertions and
  deletions at character positions. The character diff of the \<open>similar\<close> crate is a parameter: a
  function from two texts to a list of tagged pieces.
\<close>

datatype change_tag = TagEqual | TagDelete | TagInsert

type_synonym changes = "(change_tag \<times> ustr) list"
type_synonym differ = "ustr \<Rightarrow> ustr \<Rightarrow> changes"

definition side_of :: "change_tag \<Rightarrow> changes \<Rightarrow> ustr" where
  "side_of dropped cs = concat (map snd (filter (\<lambda>c. fst c \<noteq> dropped) cs))"

text \<open>
  The documented law of a diff: the kept and deleted pieces spell the old text, the kept and inserted
  ones the new text.
\<close>

definition diff_laws :: "differ \<Rightarrow> bool" where
  "diff_laws D \<longleftrightarrow> (\<forall>a b. side_of TagInsert (D a b) = a \<and> side_of TagDelete (D a b) = b)"

section \<open>Edit operations\<close>

datatype text_op = OpInsert nat ustr | OpDelete nat nat

definition DIFF_MAX_CHARS :: nat where "DIFF_MAX_CHARS = 1000000"

definition coarse_replace :: "nat \<Rightarrow> ustr \<Rightarrow> text_op list" where
  "coarse_replace old_len new =
     (if old_len > 0 then [OpDelete 0 old_len] else []) @ (if new \<noteq> [] then [OpInsert 0 new] else [])"

text \<open>The accumulator of the loop: the operations, the cursor and the pending run.\<close>

record diff_state =
  ds_ops :: "text_op list"
  ds_cursor :: nat
  ds_pending :: ustr
  ds_insert_pos :: nat
  ds_delete_len :: nat

definition flush_insert :: "diff_state \<Rightarrow> diff_state" where
  "flush_insert d =
     (if ds_pending d \<noteq> [] then d\<lparr>ds_ops := ds_ops d @ [OpInsert (ds_insert_pos d) (ds_pending d)], ds_pending := []\<rparr> else d)"

definition flush_delete :: "diff_state \<Rightarrow> diff_state" where
  "flush_delete d =
     (if ds_delete_len d > 0 then d\<lparr>ds_ops := ds_ops d @ [OpDelete (ds_cursor d) (ds_delete_len d)], ds_delete_len := 0\<rparr> else d)"

fun diff_step :: "change_tag \<times> ustr \<Rightarrow> diff_state \<Rightarrow> diff_state" where
  "diff_step (TagEqual, v) d =
     (let d' = flush_delete (flush_insert d) in d'\<lparr>ds_cursor := ds_cursor d' + length v\<rparr>)"
| "diff_step (TagDelete, v) d =
     (let d' = flush_insert d in d'\<lparr>ds_delete_len := ds_delete_len d' + length v\<rparr>)"
| "diff_step (TagInsert, v) d =
     (let d1 = flush_delete d;
          d2 = (if ds_pending d1 = [] then d1\<lparr>ds_insert_pos := ds_cursor d1\<rparr> else d1) in
      d2\<lparr>ds_pending := ds_pending d2 @ v, ds_cursor := ds_cursor d2 + length v\<rparr>)"

definition diff_to_ops_bounded :: "differ \<Rightarrow> ustr \<Rightarrow> ustr \<Rightarrow> nat \<Rightarrow> text_op list" where
  "diff_to_ops_bounded D old new max_chars =
     (if length old > max_chars \<or> length new > max_chars then coarse_replace (length old) new
      else let d = fold diff_step (D old new)
                 \<lparr>ds_ops = [], ds_cursor = 0, ds_pending = [], ds_insert_pos = 0, ds_delete_len = 0\<rparr> in
           ds_ops (flush_delete (flush_insert d)))"

definition diff_to_ops :: "differ \<Rightarrow> ustr \<Rightarrow> ustr \<Rightarrow> text_op list" where
  "diff_to_ops D old new = diff_to_ops_bounded D old new DIFF_MAX_CHARS"

section \<open>Applying operations\<close>

text \<open>What the document does with an operation; positions beyond the text are an error.\<close>

fun apply_op :: "text_op \<Rightarrow> ustr \<Rightarrow> ustr option" where
  "apply_op (OpInsert pos s) t = (if pos \<le> length t then Some (take pos t @ s @ drop pos t) else None)"
| "apply_op (OpDelete pos len) t = (if pos + len \<le> length t then Some (take pos t @ drop (pos + len) t) else None)"

fun apply_ops :: "text_op list \<Rightarrow> ustr \<Rightarrow> ustr option" where
  "apply_ops [] t = Some t"
| "apply_ops (p # ps) t = Option.bind (apply_op p t) (apply_ops ps)"

lemma apply_ops_append: "apply_ops (ps @ qs) t = Option.bind (apply_ops ps t) (apply_ops qs)"
  by (induction ps arbitrary: t) (auto split: Option.bind_splits)

lemma apply_ops_snoc: "apply_ops ps t = Some u \<Longrightarrow> apply_ops (ps @ [p]) t = apply_op p u"
  by (auto simp: apply_ops_append split: Option.bind_splits)

text \<open>
  The loop invariant, for the new text \<open>n\<close> produced so far, the deleted run \<open>x\<close> still pending and
  the old text \<open>rest\<close> not yet read.
\<close>

definition diff_inv :: "ustr \<Rightarrow> ustr \<Rightarrow> ustr \<Rightarrow> ustr \<Rightarrow> diff_state \<Rightarrow> bool" where
  "diff_inv old n x rest d \<longleftrightarrow>
     ds_cursor d = length n \<and> ds_delete_len d = length x \<and> (ds_pending d = [] \<or> x = [])
     \<and> (\<exists>m. n = m @ ds_pending d \<and> (ds_pending d \<noteq> [] \<longrightarrow> ds_insert_pos d = length m)
          \<and> apply_ops (ds_ops d) old = Some (m @ x @ rest))"

lemma diff_inv_flush_insert: "diff_inv old n x rest d \<Longrightarrow> diff_inv old n x rest (flush_insert d) \<and> ds_pending (flush_insert d) = []"
  by (auto simp: diff_inv_def flush_insert_def apply_ops_snoc)

lemma diff_inv_flush_delete: "diff_inv old n x rest d \<Longrightarrow> diff_inv old n [] rest (flush_delete d) \<and> ds_pending (flush_delete d) = ds_pending d"
  by (auto simp: diff_inv_def flush_delete_def apply_ops_snoc)

lemma diff_inv_step:
  assumes "diff_inv old n x (side_of TagInsert (c # cs)) d"
  shows "\<exists>x'. diff_inv old (n @ side_of TagDelete [c]) x' (side_of TagInsert cs) (diff_step c d)"
proof -
  obtain t v where c: "c = (t, v)" by (cases c)
  show ?thesis
  proof (cases t)
    case TagEqual
    then have inv: "diff_inv old n x (v @ side_of TagInsert cs) d" using assms c by (simp add: side_of_def)
    let ?d = "flush_delete (flush_insert d)"
    have "diff_inv old n [] (v @ side_of TagInsert cs) ?d" "ds_pending ?d = []"
      using diff_inv_flush_delete diff_inv_flush_insert [OF inv] by auto
    then have "diff_inv old (n @ v) [] (side_of TagInsert cs) (diff_step c d)" by (simp add: c TagEqual diff_inv_def Let_def)
    then show ?thesis by (auto simp: c TagEqual side_of_def)
  next
    case TagDelete
    then have inv: "diff_inv old n x (v @ side_of TagInsert cs) d" using assms c by (simp add: side_of_def)
    have "diff_inv old n (x @ v) (side_of TagInsert cs) (diff_step c d)"
      using diff_inv_flush_insert [OF inv] by (auto simp: c TagDelete diff_inv_def Let_def)
    then show ?thesis by (auto simp: c TagDelete side_of_def)
  next
    case TagInsert
    then have inv: "diff_inv old n x (side_of TagInsert cs) d" using assms c by (simp add: side_of_def)
    have "diff_inv old (n @ v) [] (side_of TagInsert cs) (diff_step c d)"
      using diff_inv_flush_delete [OF inv] by (cases "ds_pending d") (auto simp: c TagInsert diff_inv_def Let_def)
    then show ?thesis by (auto simp: c TagInsert side_of_def)
  qed
qed

lemma diff_inv_fold:
  assumes "diff_inv old n x (side_of TagInsert cs) d"
  shows "\<exists>x'. diff_inv old (n @ side_of TagDelete cs) x' [] (fold diff_step cs d)"
  using assms
proof (induction cs arbitrary: n x d)
  case (Cons c cs)
  then obtain x' where "diff_inv old (n @ side_of TagDelete [c]) x' (side_of TagInsert cs) (diff_step c d)"
    using diff_inv_step by blast
  moreover have "side_of TagDelete (c # cs) = side_of TagDelete [c] @ side_of TagDelete cs" by (simp add: side_of_def)
  ultimately show ?case using Cons.IH by fastforce
qed (auto simp: side_of_def)

lemma coarse_replace_applies: "apply_ops (coarse_replace (length old) new) old = Some new"
  by (simp add: coarse_replace_def)

text \<open>
  C18: the edit operations computed for a pair of texts turn the old text into the new one when
  applied in order, never with a position outside the text, for short texts (character diff) and for
  texts over the size bound (whole replacement) alike.
\<close>

theorem diff_to_ops_applies:
  assumes "diff_laws D"
  shows "apply_ops (diff_to_ops_bounded D old new max_chars) old = Some new"
proof (cases "length old > max_chars \<or> length new > max_chars")
  case True
  then show ?thesis by (auto simp: diff_to_ops_bounded_def coarse_replace_applies)
next
  case False
  let ?d0 = "\<lparr>ds_ops = [], ds_cursor = 0, ds_pending = [], ds_insert_pos = 0, ds_delete_len = 0\<rparr>"
  have sides: "side_of TagInsert (D old new) = old" "side_of TagDelete (D old new) = new"
    using assms by (auto simp: diff_laws_def)
  have "diff_inv old [] [] (side_of TagInsert (D old new)) ?d0" by (simp add: diff_inv_def sides)
  from diff_inv_fold [OF this] obtain x where "diff_inv old new x [] (fold diff_step (D old new) ?d0)" by (auto simp: sides)
  then have "diff_inv old new [] [] (flush_delete (flush_insert (fold diff_step (D old new) ?d0)))"
    "ds_pending (flush_delete (flush_insert (fold diff_step (D old new) ?d0))) = []"
    using diff_inv_flush_insert diff_inv_flush_delete by metis+
  then have "apply_ops (ds_ops (flush_delete (flush_insert (fold diff_step (D old new) ?d0)))) old = Some new"
    by (simp add: diff_inv_def)
  then show ?thesis using False by (simp add: diff_to_ops_bounded_def Let_def)
qed

text \<open>A diff that keeps the common prefix: an instance of the law.\<close>

fun toy_diff :: differ where
  "toy_diff (x # a) (y # b) = (if x = y then (TagEqual, [x]) # toy_diff a b else [(TagDelete, x # a), (TagInsert, y # b)])"
| "toy_diff a b = [(TagDelete, a), (TagInsert, b)]"

lemma toy_diff_laws: "diff_laws toy_diff"
proof -
  have "side_of TagInsert (toy_diff a b) = a \<and> side_of TagDelete (toy_diff a b) = b" for a b
    by (induction a b rule: toy_diff.induct) (auto simp: side_of_def)
  then show ?thesis by (simp add: diff_laws_def)
qed

theorem diff_to_ops_applies_witness:
  "apply_ops (diff_to_ops_bounded toy_diff [1, 2, 3] [1, 4] 10) [1, 2, 3] = Some [1, 4]"
  by (rule diff_to_ops_applies [OF toy_diff_laws])

end
