(* ===== verification/Text_Rebase.thy ===== *)
theory Text_Rebase
  imports Text_Diff
begin

text \<open>
  The three-way merge of text files (\<open>roam-files/src/rebase.rs\<close>): local edits made against the last
  synced text \<open>a\<close> are moved onto the text \<open>r\<close> of the store. The merge is specified by weaving two
  scripts, one per side, over the characters of the ancestor.
\<close>

section \<open>Edits in ancestor coordinates\<close>

datatype local_edit = EdInsert nat ustr | EdDelete nat nat

fun edit_step :: "change_tag \<times> ustr \<Rightarrow> local_edit list \<times> nat \<Rightarrow> local_edit list \<times> nat" where
  "edit_step (TagEqual, v) (es, i) = (es, i + length v)"
| "edit_step (TagDelete, v) (es, i) =
     (case (if es = [] then None else Some (last es)) of
        Some (EdDelete start e) \<Rightarrow>
          if e = i then (butlast es @ [EdDelete start (i + length v)], i + length v)
          else (es @ [EdDelete i (i + length v)], i + length v)
      | _ \<Rightarrow> (es @ [EdDelete i (i + length v)], i + length v))"
| "edit_step (TagInsert, v) (es, i) =
     (case (if es = [] then None else Some (last es)) of
        Some (EdInsert p s) \<Rightarrow>
          if p = i then (butlast es @ [EdInsert p (s @ v)], i) else (es @ [EdInsert i v], i)
      | _ \<Rightarrow> (es @ [EdInsert i v], i))"

definition local_edits :: "differ \<Rightarrow> ustr \<Rightarrow> ustr \<Rightarrow> local_edit list" where
  "local_edits D a l = fst (fold edit_step (D a l) ([], 0))"

section \<open>The position map\<close>

type_synonym pos_state = "nat list \<times> bool list \<times> nat \<times> nat"

fun pos_run :: "bool \<Rightarrow> nat \<Rightarrow> pos_state \<Rightarrow> pos_state" where
  "pos_run keep 0 st = st"
| "pos_run keep (Suc n) (m, p, ai, ri) =
     pos_run keep n (m[ai := ri], p[ai := keep], Suc ai, if keep then Suc ri else ri)"

fun pos_step :: "change_tag \<times> ustr \<Rightarrow> pos_state \<Rightarrow> pos_state" where
  "pos_step (TagEqual, v) st = pos_run True (length v) st"
| "pos_step (TagDelete, v) st = pos_run False (length v) st"
| "pos_step (TagInsert, v) (m, p, ai, ri) = (m, p, ai, ri + length v)"

definition position_map :: "differ \<Rightarrow> ustr \<Rightarrow> ustr \<Rightarrow> nat list \<times> bool list" where
  "position_map D a r =
     (case fold pos_step (D a r) (replicate (length a + 1) 0, replicate (length a) False, 0, 0) of
        (m, p, ai, ri) \<Rightarrow> (m[ai := ri], p))"

section \<open>Conflicts\<close>

record conflict =
  cf_start :: nat
  cf_end :: nat
  cf_text :: ustr

fun footprint :: "local_edit \<Rightarrow> nat \<times> nat" where
  "footprint (EdDelete start e) = (start, e)"
| "footprint (EdInsert p _) = (p, p)"

definition char_slice :: "ustr \<Rightarrow> nat \<Rightarrow> nat \<Rightarrow> ustr" where
  "char_slice a start e = take (e - start) (drop start a)"

definition conflict_step :: "ustr \<Rightarrow> local_edit \<Rightarrow> local_edit \<Rightarrow> conflict list \<Rightarrow> conflict list" where
  "conflict_step a le re cs =
     (let (ls, lend) = footprint le; (rs, rend) = footprint re in
      if ls < rend \<and> rs < lend then
        let start = max ls rs; e = min lend rend;
            c = \<lparr>cf_start = start, cf_end = e, cf_text = char_slice a start e\<rparr> in
        if c \<in> set cs then cs else cs @ [c]
      else cs)"

definition conflicts_of :: "ustr \<Rightarrow> local_edit list \<Rightarrow> local_edit \<Rightarrow> conflict list \<Rightarrow> conflict list" where
  "conflicts_of a remote le cs =
     (if fst (footprint le) = snd (footprint le) then cs else fold (conflict_step a le) remote cs)"

definition detect_conflicts :: "ustr \<Rightarrow> local_edit list \<Rightarrow> local_edit list \<Rightarrow> conflict list" where
  "detect_conflicts a locals remote = fold (conflicts_of a remote) locals []"

section \<open>The merge\<close>

text \<open>The buffer and the running shift; \<open>None\<close> is an index out of range (a panic).\<close>

type_synonym buffer = "ustr \<times> int"

definition insert_edit :: "nat list \<Rightarrow> nat \<Rightarrow> ustr \<Rightarrow> buffer \<Rightarrow> buffer option" where
  "insert_edit m a_pos s b =
     (let q = int (m ! a_pos) + snd b in
      if a_pos < length m \<and> 0 \<le> q \<and> q \<le> int (length (fst b)) then
        Some (take (nat q) (fst b) @ s @ drop (nat q) (fst b), snd b + int (length s))
      else None)"

definition remove_edit :: "nat list \<Rightarrow> bool list \<Rightarrow> nat \<Rightarrow> buffer \<Rightarrow> buffer option" where
  "remove_edit m p i b =
     (if i < length p \<and> i < length m then
        if p ! i then
          let q = int (m ! i) + snd b in
          if 0 \<le> q \<and> q < int (length (fst b)) then
            Some (take (nat q) (fst b) @ drop (Suc (nat q)) (fst b), snd b - 1)
          else None
        else Some b
      else None)"

fun remove_edits :: "nat list \<Rightarrow> bool list \<Rightarrow> nat list \<Rightarrow> buffer \<Rightarrow> buffer option" where
  "remove_edits m p [] b = Some b"
| "remove_edits m p (i # is) b = Option.bind (remove_edit m p i b) (remove_edits m p is)"

fun apply_edit :: "nat list \<Rightarrow> bool list \<Rightarrow> local_edit \<Rightarrow> buffer \<Rightarrow> buffer option" where
  "apply_edit m p (EdInsert a_pos s) b = insert_edit m a_pos s b"
| "apply_edit m p (EdDelete start e) b = remove_edits m p [start..<e] b"

fun apply_edits :: "nat list \<Rightarrow> bool list \<Rightarrow> local_edit list \<Rightarrow> buffer \<Rightarrow> buffer option" where
  "apply_edits m p [] b = Some b"
| "apply_edits m p (e # es) b = Option.bind (apply_edit m p e b) (apply_edits m p es)"

definition merge_local_onto_remote :: "differ \<Rightarrow> ustr \<Rightarrow> ustr \<Rightarrow> ustr \<Rightarrow> (ustr \<times> conflict list) option" where
  "merge_local_onto_remote D a l r =
     (let les = local_edits D a l; res = local_edits D a r; cs = detect_conflicts a les res;
          (a_to_r, present) = position_map D a r in
      map_option (\<lambda>b. (fst b, cs)) (apply_edits a_to_r present les (r, 0)))"

section \<open>Scripts\<close>

text \<open>
  One side of the merge, per ancestor character: what the side inserted before it and whether it kept
  it; and what it inserted at the end.
\<close>

type_synonym script = "(ustr \<times> bool) list \<times> ustr"

function script :: "changes \<Rightarrow> ustr \<Rightarrow> script" where
  "script [] ins = ([], ins)"
| "script ((TagInsert, v) # cs) ins = script cs (ins @ v)"
| "script ((TagEqual, []) # cs) ins = script cs ins"
| "script ((TagDelete, []) # cs) ins = script cs ins"
| "script ((TagEqual, _ # v) # cs) ins = apfst (Cons (ins, True)) (script ((TagEqual, v) # cs) [])"
| "script ((TagDelete, _ # v) # cs) ins = apfst (Cons (ins, False)) (script ((TagDelete, v) # cs) [])"
  by pat_completeness auto

termination
  by (relation "measure (\<lambda>(cs, _). sum_list (map (\<lambda>c. Suc (length (snd c))) cs))") auto

definition kept :: "bool \<Rightarrow> nat \<Rightarrow> ustr" where
  "kept k c = (if k then [c] else [])"

fun render :: "ustr \<Rightarrow> script \<Rightarrow> ustr" where
  "render (c # a) ((i, k) # K, t) = i @ kept k c @ render a (K, t)"
| "render a (K, t) = t"

text \<open>The two sides woven together: at each boundary the remote insertion comes before the local one.\<close>

fun weave :: "ustr \<Rightarrow> script \<Rightarrow> script \<Rightarrow> ustr" where
  "weave (c # a) ((ri, rk) # R, rt) ((li, lk) # L, lt) = ri @ li @ kept (rk \<and> lk) c @ weave a (R, rt) (L, lt)"
| "weave a (R, rt) (L, lt) = rt @ lt"

fun lead :: "script \<Rightarrow> ustr" where
  "lead ((i, k) # K, t) = i"
| "lead ([], t) = t"

lemma lead_apfst [simp]: "lead (apfst (Cons (i, k)) S) = i"
  by (cases S) simp

lemma script_length: "length (fst (script cs ins)) = length (side_of TagInsert cs)"
  by (induction cs ins rule: script.induct) (auto simp: side_of_def)

lemma render_apfst: "render (c # a) (apfst (Cons (i, k)) S) = i @ kept k c @ render a S"
  by (cases S) simp

lemma render_script: "render (side_of TagInsert cs) (script cs ins) = ins @ side_of TagDelete cs"
  by (induction cs ins rule: script.induct) (auto simp: side_of_def render_apfst kept_def)

section \<open>The position map reads the remote script\<close>

fun off :: "script \<Rightarrow> nat \<Rightarrow> nat" where
  "off S 0 = length (lead S)"
| "off ((i, k) # K, t) (Suc j) = length i + (if k then 1 else 0) + off (K, t) j"
| "off ([], t) (Suc j) = 0"

lemma off_apfst: "off (apfst (Cons (i, k)) S) j = (case j of 0 \<Rightarrow> length i | Suc j' \<Rightarrow> length i + (if k then 1 else 0) + off S j')"
  by (cases S; cases j) auto

definition pos_reads :: "script \<Rightarrow> nat \<Rightarrow> nat \<Rightarrow> nat list \<Rightarrow> bool list \<Rightarrow> bool" where
  "pos_reads S ai b m p \<longleftrightarrow>
     (\<forall>j \<le> length (fst S). m ! (ai + j) = b + off S j) \<and> (\<forall>j < length (fst S). p ! (ai + j) = snd (fst S ! j))"

lemma pos_reads_cons:
  assumes "pos_reads S (Suc ai) (b + length i + (if k then 1 else 0)) m p" "m ! ai = b + length i" "p ! ai = k"
  shows "pos_reads (apfst (Cons (i, k)) S) ai b m p"
  unfolding pos_reads_def
proof (intro conjI allI impI)
  fix j assume "j \<le> length (fst (apfst (Cons (i, k)) S))"
  then show "m ! (ai + j) = b + off (apfst (Cons (i, k)) S) j"
    using assms by (cases j) (auto simp: off_apfst pos_reads_def)
next
  fix j assume "j < length (fst (apfst (Cons (i, k)) S))"
  then show "p ! (ai + j) = snd (fst (apfst (Cons (i, k)) S) ! j)"
    using assms by (cases j) (auto simp: pos_reads_def)
qed

definition pos_done :: "pos_state \<Rightarrow> nat list \<times> bool list" where
  "pos_done st = (case st of (m, p, ai, ri) \<Rightarrow> (m[ai := ri], p))"

lemma pos_fold:
  assumes "ri = b + length ins" "ai + length (fst (script cs ins)) < length m" "ai + length (fst (script cs ins)) \<le> length p"
    "pos_done (fold pos_step cs (m, p, ai, ri)) = (m', p')"
  shows "length m' = length m \<and> length p' = length p \<and> (\<forall>j < ai. m' ! j = m ! j \<and> p' ! j = p ! j)
         \<and> pos_reads (script cs ins) ai b m' p'"
  using assms
proof (induction cs ins arbitrary: m p ai ri b m' p' rule: script.induct)
  case (1 ins)
  then show ?case by (auto simp: pos_done_def pos_reads_def)
next
  case (2 v cs ins)
  from 2(1) [of "ri + length v" b ai m p m' p'] 2(2-5) show ?case by simp
next
  case (3 cs ins)
  from 3(1) [of ri b ai m p m' p'] 3(2-5) show ?case by simp
next
  case (4 cs ins)
  from 4(1) [of ri b ai m p m' p'] 4(2-5) show ?case by simp
next
  case (5 c v cs ins)
  have "pos_done (fold pos_step ((TagEqual, v) # cs) (m[ai := ri], p[ai := True], Suc ai, Suc ri)) = (m', p')"
    using 5(5) by simp
  from 5(1) [OF _ _ _ this, of "Suc ri"] 5(2-4) show ?case
    by (auto intro!: pos_reads_cons simp: less_Suc_eq)
next
  case (6 c v cs ins)
  have "pos_done (fold pos_step ((TagDelete, v) # cs) (m[ai := ri], p[ai := False], Suc ai, ri)) = (m', p')"
    using 6(5) by simp
  from 6(1) [OF _ _ _ this, of ri] 6(2-4) show ?case
    by (auto intro!: pos_reads_cons simp: less_Suc_eq)
qed

lemma position_map_reads:
  assumes "diff_laws D" "position_map D a r = (m, p)"
  shows "length m = length a + 1 \<and> length p = length a \<and> pos_reads (script (D a r) []) 0 0 m p"
proof -
  have len: "length (fst (script (D a r) [])) = length a" using assms(1) by (simp add: script_length diff_laws_def)
  have "pos_done (fold pos_step (D a r) (replicate (length a + 1) 0, replicate (length a) False, 0, 0)) = (m, p)"
    using assms(2) by (simp add: position_map_def pos_done_def)
  from pos_fold [OF _ _ _ this, of 0 "[]"] len show ?thesis by simp
qed

section \<open>Local edits as a walk over the changes\<close>

fun change_at :: "nat list \<Rightarrow> bool list \<Rightarrow> change_tag \<times> ustr \<Rightarrow> nat \<Rightarrow> buffer \<Rightarrow> buffer option" where
  "change_at m p (TagEqual, v) i b = Some b"
| "change_at m p (TagDelete, v) i b = remove_edits m p [i..<i + length v] b"
| "change_at m p (TagInsert, v) i b = insert_edit m i v b"

fun changes_at :: "nat list \<Rightarrow> bool list \<Rightarrow> changes \<Rightarrow> nat \<Rightarrow> buffer \<Rightarrow> buffer option" where
  "changes_at m p [] i b = Some b"
| "changes_at m p (c # cs) i b =
     Option.bind (change_at m p c i b) (changes_at m p cs (if fst c = TagInsert then i else i + length (snd c)))"

lemma bind_no_edits [simp]: "Option.bind x (apply_edits m p []) = x"
  by (cases x) auto

lemma remove_edits_append: "remove_edits m p (is @ js) b = Option.bind (remove_edits m p is b) (remove_edits m p js)"
  by (induction "is" arbitrary: b) (auto split: Option.bind_splits)

lemma apply_edits_append: "apply_edits m p (es @ fs) b = Option.bind (apply_edits m p es b) (apply_edits m p fs)"
  by (induction es arbitrary: b) (auto split: Option.bind_splits)

lemma insert_edit_append: "insert_edit m i (s @ v) b = Option.bind (insert_edit m i s b) (insert_edit m i v)"
proof (cases "i < length m \<and> 0 \<le> int (m ! i) + snd b \<and> int (m ! i) + snd b \<le> int (length (fst b))")
  case True
  define q where "q = nat (int (m ! i) + snd b)"
  have q: "int (m ! i) + snd b = int q" "q \<le> length (fst b)" using True by (auto simp: q_def)
  have "int (m ! i) + (snd b + int (length s)) = int (q + length s)" using q by simp
  then show ?thesis using True q by (simp add: insert_edit_def Let_def nat_add_distrib)
next
  case False
  then show ?thesis by (auto simp: insert_edit_def Let_def)
qed

definition edits_ok :: "local_edit list \<Rightarrow> bool" where
  "edits_ok es \<longleftrightarrow> (\<forall>start e. EdDelete start e \<in> set es \<longrightarrow> start \<le> e)"

lemma edit_step_run:
  assumes "edits_ok es"
  shows "apply_edits m p (fst (edit_step c (es, i))) b = Option.bind (apply_edits m p es b) (change_at m p c i)
         \<and> edits_ok (fst (edit_step c (es, i)))
         \<and> snd (edit_step c (es, i)) = (if fst c = TagInsert then i else i + length (snd c))"
proof (cases es rule: rev_cases)
  case Nil
  then show ?thesis by (cases c; cases "fst c") (auto simp: edits_ok_def)
next
  case (snoc fs e)
  show ?thesis
  proof (cases e)
    case (EdInsert q s)
    then show ?thesis using assms snoc
      by (cases c; cases "fst c") (auto simp: edits_ok_def apply_edits_append insert_edit_append split: Option.bind_splits)
  next
    case (EdDelete start q)
    have le: "start \<le> q" using assms snoc EdDelete by (auto simp: edits_ok_def)
    then have "remove_edits m p [start..<q + n] b = Option.bind (remove_edits m p [start..<q] b) (remove_edits m p [q..<q + n])" for n b
      using remove_edits_append [of m p "[start..<q]" "[q..<q + n]" b] by (simp only: upt_add_eq_append [of start q n])
    then show ?thesis using assms snoc EdDelete le trans_le_add1 [OF le]
      by (cases c; cases "fst c") (auto simp: edits_ok_def apply_edits_append split: Option.bind_splits)
  qed
qed

lemma edits_run:
  assumes "edits_ok es"
  shows "apply_edits m p (fst (fold edit_step cs (es, i))) b = Option.bind (apply_edits m p es b) (changes_at m p cs i)"
  using assms
proof (induction cs arbitrary: es i)
  case Nil
  then show ?case by (cases "apply_edits m p es b") auto
next
  case (Cons c cs)
  obtain es' i' where e: "edit_step c (es, i) = (es', i')" by fastforce
  with edit_step_run [OF Cons.prems, of m p c i b] Cons.IH [of es' i'] show ?case
    by (cases "apply_edits m p es b") auto
qed

lemma local_edits_run: "apply_edits m p (local_edits D a l) b = changes_at m p (D a l) 0 b"
  using edits_run [of "[]"] by (simp add: local_edits_def edits_ok_def)

section \<open>The merge weaves the scripts\<close>

definition from_at :: "nat \<Rightarrow> script \<Rightarrow> script" where
  "from_at i S = (drop i (fst S), snd S)"

fun tl_render :: "ustr \<Rightarrow> script \<Rightarrow> ustr" where
  "tl_render (c # a) ((i, k) # K, t) = kept k c @ render a (K, t)"
| "tl_render a (K, t) = []"

fun tl_weave :: "ustr \<Rightarrow> script \<Rightarrow> script \<Rightarrow> ustr" where
  "tl_weave (c # a) ((ri, rk) # R, rt) ((li, lk) # L, lt) = li @ kept (rk \<and> lk) c @ weave a (R, rt) (L, lt)"
| "tl_weave a (R, rt) (L, lt) = lt"

lemma render_lead: "length (fst S) = length a \<Longrightarrow> render a S = lead S @ tl_render a S"
  by (cases "(a, S)" rule: tl_render.cases) auto

lemma weave_lead: "length (fst R) = length a \<Longrightarrow> length (fst L) = length a \<Longrightarrow> weave a R L = lead R @ tl_weave a R L"
  by (cases "(a, R, L)" rule: tl_weave.cases) (auto simp: neq_Nil_conv)

lemma from_at_step:
  "i < length (fst S) \<Longrightarrow> from_at i S = apfst (Cons (fst S ! i)) (from_at (Suc i) S)"
  by (simp add: from_at_def Cons_nth_drop_Suc)

lemma off_Suc:
  "i < length (fst S) \<Longrightarrow> off S (Suc i) = off S i + (if snd (fst S ! i) then 1 else 0) + length (lead (from_at (Suc i) S))"
proof (induction S i rule: off.induct)
  case (1 S)
  then show ?case by (cases S rule: lead.cases) (auto simp: from_at_def)
qed (auto simp: from_at_def)

lemma tl_render_step:
  assumes "i < length a" "length (fst S) = length a"
  shows "tl_render (drop i a) (from_at i S) =
           kept (snd (fst S ! i)) (a ! i) @ lead (from_at (Suc i) S) @ tl_render (drop (Suc i) a) (from_at (Suc i) S)"
proof -
  have d: "drop i a = a ! i # drop (Suc i) a" using assms(1) by (simp add: Cons_nth_drop_Suc)
  obtain x k where x: "fst S ! i = (x, k)" by fastforce
  obtain K t where K: "from_at (Suc i) S = (K, t)" by fastforce
  have "length K = length (drop (Suc i) a)" using assms K by (auto simp: from_at_def)
  then show ?thesis using assms by (simp add: d x K from_at_step render_lead)
qed

lemma tl_weave_step:
  assumes "i < length a" "length (fst S) = length a" "length (fst L) = length (drop (Suc i) a)"
  shows "tl_weave (drop i a) (from_at i S) (apfst (Cons (ins, lk)) L) =
           ins @ kept (snd (fst S ! i) \<and> lk) (a ! i) @ lead (from_at (Suc i) S)
           @ tl_weave (drop (Suc i) a) (from_at (Suc i) S) L"
proof -
  have d: "drop i a = a ! i # drop (Suc i) a" using assms(1) by (simp add: Cons_nth_drop_Suc)
  obtain x k where x: "fst S ! i = (x, k)" by fastforce
  obtain K t where K: "from_at (Suc i) S = (K, t)" by fastforce
  obtain L' lt where L: "L = (L', lt)" by fastforce
  have "length K = length (drop (Suc i) a)" using assms K by (auto simp: from_at_def)
  then show ?thesis using assms by (simp add: d x K L from_at_step weave_lead)
qed

text \<open>
  The buffer at ancestor boundary \<open>i\<close>: the text \<open>w\<close> woven so far, then what the remote side has from
  the boundary on; the shift is the difference of the two lengths.
\<close>

definition synced :: "ustr \<Rightarrow> script \<Rightarrow> nat \<Rightarrow> ustr \<Rightarrow> buffer \<Rightarrow> bool" where
  "synced a S i w b \<longleftrightarrow>
     fst b = w @ tl_render (drop i a) (from_at i S) \<and> snd b = int (length w) - int (off S i)"

definition map_fits :: "ustr \<Rightarrow> script \<Rightarrow> nat list \<Rightarrow> bool list \<Rightarrow> bool" where
  "map_fits a S m p \<longleftrightarrow> length (fst S) = length a \<and> length m = length a + 1 \<and> length p = length a \<and> pos_reads S 0 0 m p"

lemma map_fits_reads:
  assumes "map_fits a S m p"
  shows "i \<le> length a \<Longrightarrow> m ! i = off S i" "i < length a \<Longrightarrow> p ! i = snd (fst S ! i)"
  using assms by (auto simp: map_fits_def pos_reads_def)

lemma synced_insert:
  assumes "map_fits a S m p" "synced a S i w b" "i \<le> length a"
  shows "\<exists>b'. insert_edit m i v b = Some b' \<and> synced a S i (w @ v) b'"
  using assms map_fits_reads(1) [OF assms(1)] by (auto simp: insert_edit_def synced_def map_fits_def Let_def)

lemma synced_keep:
  assumes "map_fits a S m p" "synced a S i w b" "i < length a"
  shows "synced a S (Suc i) (w @ kept (snd (fst S ! i)) (a ! i) @ lead (from_at (Suc i) S)) b"
  using assms by (auto simp: synced_def map_fits_def tl_render_step off_Suc kept_def)

lemma synced_remove:
  assumes "map_fits a S m p" "synced a S i w b" "i < length a"
  shows "\<exists>b'. remove_edit m p i b = Some b' \<and> synced a S (Suc i) (w @ lead (from_at (Suc i) S)) b'"
proof -
  have "m ! i = off S i" "p ! i = snd (fst S ! i)" using assms map_fits_reads by auto
  then show ?thesis using assms
    by (cases b) (auto simp: remove_edit_def synced_def map_fits_def Let_def tl_render_step off_Suc kept_def)
qed

lemma changes_weave:
  assumes "map_fits a S m p" "synced a S i (w @ ins) b" "i + length (side_of TagInsert cs) = length a"
  shows "\<exists>b'. changes_at m p cs i b = Some b' \<and> fst b' = w @ tl_weave (drop i a) (from_at i S) (script cs ins)"
  using assms(2,3)
proof (induction cs ins arbitrary: i w b rule: script.induct)
  case (1 ins)
  then show ?case using assms(1) by (auto simp: synced_def side_of_def from_at_def map_fits_def)
next
  case (2 v cs ins)
  have "i \<le> length a" using 2(3) by simp
  then obtain b' where "insert_edit m i v b = Some b'" "synced a S i (w @ ins @ v) b'"
    using synced_insert [OF assms(1) 2(2), of v] by auto
  then show ?case using 2(1) [of i w b'] 2(3) by (auto simp: side_of_def)
next
  case (3 cs ins)
  then show ?case by (auto simp: side_of_def)
next
  case (4 cs ins)
  then show ?case by (auto simp: side_of_def)
next
  case (5 c v cs ins)
  have i: "i < length a" using 5(3) by (simp add: side_of_def)
  have len: "length (fst (script ((TagEqual, v) # cs) [])) = length (drop (Suc i) a)"
    using 5(3) by (simp add: script_length side_of_def)
  have S: "length (fst S) = length a" using assms(1) by (simp add: map_fits_def)
  from 5(1) [of "Suc i" "w @ ins @ kept (snd (fst S ! i)) (a ! i) @ lead (from_at (Suc i) S)" b]
    synced_keep [OF assms(1) 5(2) i] 5(3)
  show ?case by (auto simp: side_of_def tl_weave_step [OF i S len])
next
  case (6 c v cs ins)
  have i: "i < length a" using 6(3) by (simp add: side_of_def)
  have len: "length (fst (script ((TagDelete, v) # cs) [])) = length (drop (Suc i) a)"
    using 6(3) by (simp add: script_length side_of_def)
  have S: "length (fst S) = length a" using assms(1) by (simp add: map_fits_def)
  obtain b' where b': "remove_edit m p i b = Some b'" "synced a S (Suc i) (w @ ins @ lead (from_at (Suc i) S)) b'"
    using synced_remove [OF assms(1) 6(2) i] by auto
  have "[i..<i + length (c # v)] = i # [Suc i..<Suc i + length v]" by (simp add: upt_rec)
  then have "changes_at m p ((TagDelete, c # v) # cs) i b = changes_at m p ((TagDelete, v) # cs) (Suc i) b'"
    using b' by simp
  moreover have "kept False (a ! i) = []" by (simp add: kept_def)
  ultimately show ?case using 6(1) [of "Suc i" "w @ ins @ lead (from_at (Suc i) S)" b'] b' 6(3)
    by (auto simp: side_of_def tl_weave_step [OF i S len])
qed

text \<open>
  C19: the three-way text merge never indexes out of range and weaves the two sides: at every
  ancestor boundary the text the remote side inserted there comes first and the text the local side
  inserted there comes next, and an ancestor character is in the result exactly when both sides kept
  it. Nothing either side wrote is lost.
\<close>

theorem merge_weaves_both_sides:
  assumes "diff_laws D"
  shows "\<exists>cs. merge_local_onto_remote D a l r = Some (weave a (script (D a r) []) (script (D a l) []), cs)"
proof -
  obtain m p where mp: "position_map D a r = (m, p)" by fastforce
  let ?S = "script (D a r) []"
  have sides: "side_of TagInsert (D a x) = a" "side_of TagDelete (D a x) = x" for x using assms by (auto simp: diff_laws_def)
  have len: "length (fst (script (D a x) [])) = length a" for x by (simp add: script_length sides)
  have fits: "map_fits a ?S m p" using position_map_reads [OF assms mp] len by (simp add: map_fits_def)
  have "r = lead ?S @ tl_render a ?S" using render_script [of "D a r" "[]"] render_lead [OF len] by (simp add: sides)
  then have "synced a ?S 0 (lead ?S @ []) (r, 0)" by (simp add: synced_def from_at_def)
  from changes_weave [OF fits this, of "D a l"]
  obtain b where "changes_at m p (D a l) 0 (r, 0) = Some b" "fst b = lead ?S @ tl_weave a ?S (script (D a l) [])"
    by (auto simp: sides from_at_def)
  then show ?thesis
    by (auto simp: merge_local_onto_remote_def mp local_edits_run weave_lead len)
qed

text \<open>A side that changed nothing: the merge is the other side.\<close>

definition unchanged :: "script \<Rightarrow> bool" where
  "unchanged S \<longleftrightarrow> (\<forall>x \<in> set (fst S). x = ([], True)) \<and> snd S = []"

lemma script_unchanged: "\<forall>c \<in> set cs. fst c = TagEqual \<Longrightarrow> unchanged (script cs [])"
proof (induction cs "[] :: ustr" rule: script.induct)
  case (5 c v cs)
  then show ?case by (cases "script ((TagEqual, v) # cs) []") (auto simp: unchanged_def)
qed (auto simp: unchanged_def)

lemma weave_unchanged:
  assumes "unchanged U" "length (fst U) = length a" "length (fst S) = length a"
  shows "weave a U S = render a S" "weave a S U = render a S"
  using assms by (induction a U S rule: weave.induct) (auto simp: unchanged_def kept_def neq_Nil_conv)

section \<open>What counts as a conflict\<close>

lemma conflict_step_subset: "set cs \<subseteq> set (conflict_step a le re cs)"
  by (auto simp: conflict_step_def Let_def case_prod_beta)

lemma conflict_fold_subset: "set cs \<subseteq> set (fold (conflict_step a le) res cs)"
  using conflict_step_subset by (induction res arbitrary: cs) fastforce+

lemma conflicts_of_subset: "set cs \<subseteq> set (conflicts_of a res le cs)"
  by (simp add: conflicts_of_def conflict_fold_subset)

lemma conflicts_fold_subset: "set cs \<subseteq> set (fold (conflicts_of a res) les cs)"
  using conflicts_of_subset by (induction les arbitrary: cs) fastforce+

definition shared_span :: "ustr \<Rightarrow> local_edit \<Rightarrow> local_edit \<Rightarrow> conflict" where
  "shared_span a le re =
     (let start = max (fst (footprint le)) (fst (footprint re)); e = min (snd (footprint le)) (snd (footprint re)) in
      \<lparr>cf_start = start, cf_end = e, cf_text = char_slice a start e\<rparr>)"

lemma span_in_fold:
  assumes "re \<in> set res" "fst (footprint le) < snd (footprint re)" "fst (footprint re) < snd (footprint le)"
  shows "shared_span a le re \<in> set (fold (conflict_step a le) res cs)"
proof -
  obtain xs ys where res: "res = xs @ re # ys" using assms(1) by (meson split_list)
  have "shared_span a le re \<in> set (conflict_step a le re ds)" for ds
    using assms(2,3) by (auto simp: conflict_step_def shared_span_def Let_def case_prod_beta)
  then show ?thesis using conflict_fold_subset by (fastforce simp: res)
qed

lemma span_detected:
  assumes "le \<in> set les" "re \<in> set res" "fst (footprint le) \<noteq> snd (footprint le)"
    "fst (footprint le) < snd (footprint re)" "fst (footprint re) < snd (footprint le)"
  shows "shared_span a le re \<in> set (detect_conflicts a les res)"
proof -
  obtain xs ys where les: "les = xs @ le # ys" using assms(1) by (meson split_list)
  have "shared_span a le re \<in> set (conflicts_of a res le ds)" for ds
    using span_in_fold [OF assms(2,4,5)] assms(3) by (simp add: conflicts_of_def)
  then show ?thesis using conflicts_fold_subset by (fastforce simp: les detect_conflicts_def)
qed

lemma deletions_conflict:
  assumes "EdDelete s e \<in> set les" "EdDelete s' e' \<in> set res" "s \<le> i" "i < e" "s' \<le> i" "i < e'"
  shows "\<exists>c \<in> set (detect_conflicts a les res). cf_start c \<le> i \<and> i < cf_end c"
proof -
  have "shared_span a (EdDelete s e) (EdDelete s' e') \<in> set (detect_conflicts a les res)"
    using span_detected [OF assms(1,2)] assms(3-) by simp
  then show ?thesis using assms(3-) by (intro bexI) (auto simp: shared_span_def Let_def)
qed

text \<open>
  A text the remote side inserted strictly inside a range the local side deleted is reported as
  a conflict of width zero with an empty text, although no ancestor character was changed by both
  sides; the description of the conflict signal excludes insertions from it.
\<close>

theorem insert_in_deleted_range_reported:
  assumes "EdDelete s e \<in> set les" "EdInsert i x \<in> set res" "s < i" "i < e"
  shows "\<lparr>cf_start = i, cf_end = i, cf_text = []\<rparr> \<in> set (detect_conflicts a les res)"
  using span_detected [OF assms(1,2), of a] assms(3,4) by (simp add: shared_span_def Let_def char_slice_def)

theorem merge_weaves_both_sides_witness:
  "\<exists>cs. merge_local_onto_remote toy_diff [1, 2] [1, 3] [1, 4]
          = Some (weave [1, 2] (script (toy_diff [1, 2] [1, 4]) []) (script (toy_diff [1, 2] [1, 3]) []), cs)"
  by (rule merge_weaves_both_sides [OF toy_diff_laws])

end
