(* ===== verification/Snapshot_Msg.thy ===== *)
theory Snapshot_Msg
  imports Signed_Log "HOL-Library.Multiset"
begin

text \<open>
  The signed manifest of a snapshot and the frame that carries it with the sealed snapshot
  (\<open>roam-storage/src/snapshot_msg.rs\<close>). The URL-safe base64 codec is a parameter pair.
\<close>

record snapshot_manifest =
  sm_frontier_digest :: bytes
  sm_ct_hash :: bytes
  sm_subsumed :: "ustr list"
  sm_blob_refs :: "ustr list"
  sm_author :: peer
  sm_sig :: ustr

definition MANIFEST_DOMAIN :: bytes where
  "MANIFEST_DOMAIN = ascii ''roam-snapshot-manifest-v1''"

definition id_bytes :: "ustr \<Rightarrow> bytes" where
  "id_bytes i = u64_to_le (of_nat (str_len i)) @ utf8 i"

definition append_id_list :: "bytes \<Rightarrow> ustr list \<Rightarrow> bytes" where
  "append_id_list out ids =
     (let sorted = sort ids in out @ u64_to_le (of_nat (length sorted)) @ concat (map id_bytes sorted))"

definition signing_bytes :: "snapshot_manifest \<Rightarrow> bytes" where
  "signing_bytes m =
     append_id_list
       (append_id_list
          (MANIFEST_DOMAIN @ sm_frontier_digest m @ sm_ct_hash m @ u64_to_le (sm_author m))
          (sm_subsumed m))
       (sm_blob_refs m)"

definition manifest_signed :: "env \<Rightarrow> (bytes \<Rightarrow> ustr) \<Rightarrow> identity \<Rightarrow> snapshot_manifest \<Rightarrow> snapshot_manifest" where
  "manifest_signed E enc author m =
     (let m' = m\<lparr>sm_author := id_peer_id author, sm_sig := []\<rparr> in
      m'\<lparr>sm_sig := enc (id_sign E author (signing_bytes m'))\<rparr>)"

definition decode_sig :: "(ustr \<Rightarrow> bytes option) \<Rightarrow> ustr \<Rightarrow> bytes option" where
  "decode_sig dec s = Option.bind (dec s) (\<lambda>b. if length b = 64 then Some b else None)"

definition manifest_verify :: "env \<Rightarrow> (ustr \<Rightarrow> bytes option) \<Rightarrow> bytes \<Rightarrow> snapshot_manifest \<Rightarrow> bool" where
  "manifest_verify E dec key m =
     (case decode_sig dec (sm_sig m) of
        None \<Rightarrow> False
      | Some sig \<Rightarrow> key_verify E key (signing_bytes (m\<lparr>sm_sig := []\<rparr>)) sig)"

definition frame :: "bytes \<Rightarrow> bytes \<Rightarrow> bytes" where
  "frame manifest_json sealed_ct = u32_to_le (of_nat (length manifest_json)) @ manifest_json @ sealed_ct"

definition unframe :: "bytes \<Rightarrow> (bytes \<times> bytes) option" where
  "unframe b =
     (if length b < 4 then None
      else let len = unat (u32_of_le (take 4 b)); rest = drop 4 b in
           if length rest < len then None else Some (take len rest, drop len rest))"

section \<open>The frame\<close>

lemma unframe_frame: "length m < 2 ^ 32 \<Longrightarrow> unframe (frame m c) = Some (m, c)"
  by (simp add: unframe_def frame_def Let_def unat_of_nat take_bit_nat_eq_self)

lemma frame_unframe:
  assumes "unframe b = Some (m, c)"
  shows "frame m c = b \<and> length m < 2 ^ 32"
proof -
  have b: "\<not> length b < 4" "\<not> length (drop 4 b) < unat (u32_of_le (take 4 b))"
      "m = take (unat (u32_of_le (take 4 b))) (drop 4 b)" "c = drop (unat (u32_of_le (take 4 b))) (drop 4 b)"
    using assms by (auto simp: unframe_def Let_def split: if_splits)
  then have len: "length m = unat (u32_of_le (take 4 b))" by simp
  have "u32_to_le (u32_of_le (take 4 b)) = take 4 b"
    using b(1) of_le_bound [of "take 4 b"] le_bytes_of_le [of "take 4 b"]
    by (simp add: u32_to_le_def u32_of_le_def unat_of_nat take_bit_nat_eq_self)
  moreover have "m @ c = drop 4 b" using b(3,4) by (simp only: append_take_drop_id)
  ultimately show ?thesis using u32_bound [of "u32_of_le (take 4 b)"] by (simp add: frame_def len)
qed

section \<open>The signed bytes are unambiguous\<close>

text \<open>The lengths the encoding relies on; a Rust \<open>String\<close> and \<open>Vec\<close> never reach 2^64 elements.\<close>

definition ids_ok :: "ustr list \<Rightarrow> bool" where
  "ids_ok ids \<longleftrightarrow> length ids < 2 ^ 64 \<and> (\<forall>i \<in> set ids. valid_str i \<and> str_len i < 2 ^ 64)"

definition manifest_ok :: "snapshot_manifest \<Rightarrow> bool" where
  "manifest_ok m \<longleftrightarrow>
     length (sm_frontier_digest m) = 32 \<and> length (sm_ct_hash m) = 32 \<and> ids_ok (sm_subsumed m) \<and> ids_ok (sm_blob_refs m)"

lemma id_bytes_prefix_free:
  assumes "id_bytes i @ r = id_bytes j @ s" "valid_str i" "valid_str j" "str_len i < 2 ^ 64" "str_len j < 2 ^ 64"
  shows "i = j \<and> r = s"
proof -
  have eq: "u64_to_le (of_nat (str_len i)) = u64_to_le (of_nat (str_len j))" "utf8 i @ r = utf8 j @ s"
    using assms(1) append_eq_same_length [of "u64_to_le (of_nat (str_len i))" "u64_to_le (of_nat (str_len j))"]
    by (auto simp: id_bytes_def)
  then have "length (utf8 i) = length (utf8 j)" using assms(4,5) by (simp add: of_nat_u64_inj str_len_def)
  then have "utf8 i = utf8 j \<and> r = s" using eq(2) by simp
  then show ?thesis using assms(2,3) utf8_inj by blast
qed

lemma ids_prefix_free:
  assumes "length xs = length ys" "concat (map id_bytes xs) @ r = concat (map id_bytes ys) @ s"
    "\<forall>i \<in> set xs \<union> set ys. valid_str i \<and> str_len i < 2 ^ 64"
  shows "xs = ys \<and> r = s"
  using assms
proof (induction xs ys rule: list_induct2)
  case (Cons x xs y ys)
  have "id_bytes x @ concat (map id_bytes xs) @ r = id_bytes y @ concat (map id_bytes ys) @ s" using Cons.prems(1) by simp
  from id_bytes_prefix_free [OF this] Cons.prems(2) have "x = y" "concat (map id_bytes xs) @ r = concat (map id_bytes ys) @ s" by auto
  then show ?case using Cons by auto
qed simp

lemma id_list_inj:
  assumes "u64_to_le (of_nat (length (sort xs))) @ concat (map id_bytes (sort xs)) @ r
           = u64_to_le (of_nat (length (sort ys))) @ concat (map id_bytes (sort ys)) @ s" "ids_ok xs" "ids_ok ys"
  shows "sort xs = sort ys \<and> r = s"
proof -
  have "u64_to_le (of_nat (length (sort xs))) = u64_to_le (of_nat (length (sort ys)))"
      "concat (map id_bytes (sort xs)) @ r = concat (map id_bytes (sort ys)) @ s"
    using assms(1) append_eq_same_length [of "u64_to_le (of_nat (length (sort xs)))" "u64_to_le (of_nat (length (sort ys)))"]
    by auto
  moreover from this(1) have "length (sort xs) = length (sort ys)" using assms(2,3) by (simp add: of_nat_u64_inj ids_ok_def)
  ultimately show ?thesis using assms(2,3) ids_prefix_free [of "sort xs" "sort ys" r s] by (auto simp: ids_ok_def)
qed

text \<open>
  C20: what a snapshot signature covers. Two manifests with the same signed bytes agree on the
  covered frontier, the ciphertext hash, the author and, up to order, on both identifier lists: the
  length-delimited encoding leaves no second reading.
\<close>

theorem manifest_bytes_unambiguous:
  assumes "signing_bytes m = signing_bytes n" "manifest_ok m" "manifest_ok n"
  shows "sm_frontier_digest m = sm_frontier_digest n \<and> sm_ct_hash m = sm_ct_hash n \<and> sm_author m = sm_author n
         \<and> mset (sm_subsumed m) = mset (sm_subsumed n) \<and> mset (sm_blob_refs m) = mset (sm_blob_refs n)"
proof -
  let ?head = "\<lambda>m. MANIFEST_DOMAIN @ sm_frontier_digest m @ sm_ct_hash m @ u64_to_le (sm_author m)"
  let ?list = "\<lambda>ids. u64_to_le (of_nat (length (sort ids))) @ concat (map id_bytes (sort ids))"
  have eq: "?head m @ ?list (sm_subsumed m) @ ?list (sm_blob_refs m) = ?head n @ ?list (sm_subsumed n) @ ?list (sm_blob_refs n)"
    using assms(1) by (simp add: signing_bytes_def append_id_list_def Let_def)
  have "length (?head m) = length (?head n)" using assms(2,3) by (simp add: manifest_ok_def)
  from append_eq_append_conv [OF disjI1, OF this, THEN iffD1, OF eq]
  have head: "?head m = ?head n"
    and tail: "?list (sm_subsumed m) @ ?list (sm_blob_refs m) = ?list (sm_subsumed n) @ ?list (sm_blob_refs n)" by blast+
  have subsumed: "sort (sm_subsumed m) = sort (sm_subsumed n)" and rest: "?list (sm_blob_refs m) = ?list (sm_blob_refs n)"
    using id_list_inj [of "sm_subsumed m" "?list (sm_blob_refs m)" "sm_subsumed n" "?list (sm_blob_refs n)"] tail assms(2,3)
    by (simp_all add: manifest_ok_def)
  have refs: "sort (sm_blob_refs m) = sort (sm_blob_refs n)"
    using id_list_inj [of "sm_blob_refs m" "[]" "sm_blob_refs n" "[]"] rest assms(2,3) by (simp add: manifest_ok_def)
  have "mset (sm_subsumed m) = mset (sm_subsumed n)" "mset (sm_blob_refs m) = mset (sm_blob_refs n)"
    using subsumed refs by (metis mset_sort)+
  then show ?thesis using head assms(2,3) by (simp add: manifest_ok_def)
qed

lemma manifest_signed_verifies:
  assumes "env_laws E" "\<And>b. dec (enc b) = Some b"
  shows "manifest_verify E dec (verifying_key E author) (manifest_signed E enc author m)"
  using assms by (simp add: manifest_verify_def manifest_signed_def Let_def decode_sig_def id_sign_def key_verify_def
      verifying_key_def env_laws_def)

definition ex_manifest :: "ustr list \<Rightarrow> snapshot_manifest" where
  "ex_manifest ids = \<lparr>sm_frontier_digest = replicate 32 7, sm_ct_hash = replicate 32 8, sm_subsumed = ids,
     sm_blob_refs = [[99]], sm_author = 5, sm_sig = []\<rparr>"

theorem manifest_bytes_unambiguous_witness:
  "mset (sm_subsumed (ex_manifest [[97], [98]])) = mset (sm_subsumed (ex_manifest [[98], [97]]))"
proof -
  have "signing_bytes (ex_manifest [[97], [98]]) = signing_bytes (ex_manifest [[98], [97]])"
    by (simp add: signing_bytes_def append_id_list_def ex_manifest_def)
  moreover have "manifest_ok (ex_manifest [[97], [98]])" "manifest_ok (ex_manifest [[98], [97]])"
    by (simp_all add: manifest_ok_def ids_ok_def ex_manifest_def valid_str_def scalar_def str_len_def utf8_char.simps)
  ultimately show ?thesis using manifest_bytes_unambiguous by blast
qed

end
