(* ===== verification/Founder.thy ===== *)
theory Founder
  imports Key_Wrap
begin

text \<open>
  The layout of a vault directory and the founder pin (\<open>roam-storage/src/founder.rs\<close>). The layout lemmas
  tell the paths of the logs, the pin and the caches of one vault apart.
\<close>

definition sub_path :: "path \<Rightarrow> string \<Rightarrow> path" where
  "sub_path root name = path_join root (path_of_str (lit name))"

definition founder_path :: "path \<Rightarrow> path" where
  "founder_path root = sub_path root ''founder''"

definition read_founder :: "'s vault_fs \<Rightarrow> path \<Rightarrow> ('s, storage_error, peer option) op" where
  "read_founder fs root s =
     (case fs_read fs (founder_path root) s of
        (Inr b, s') \<Rightarrow> (if length b = 8 then Inr (Some (u64_of_le b)) else Inl Peer, s')
      | (Inl NotFound, s') \<Rightarrow> (Inr None, s')
      | (Inl e, s') \<Rightarrow> (Inl (Io e), s'))"

definition write_founder :: "'s vault_fs \<Rightarrow> path \<Rightarrow> peer \<Rightarrow> ('s, storage_error, unit) op" where
  "write_founder fs root peer_id =
     bindE (errE Io (fs_create_dir_all fs root)) (\<lambda>_.
     let tmp = with_extension (founder_path root) (lit ''tmp'') in
     bindE (errE Io (fs_write fs tmp (u64_to_le peer_id))) (\<lambda>_.
     errE Io (fs_rename fs tmp (founder_path root))))"

section \<open>Paths of a vault\<close>

lemma path_join_Normal [simp]: "path_join p [Normal n] = p @ [Normal n]"
  by (simp add: path_join_def path_push_def)

lemma set_show_nat: "set (show_nat n) \<subseteq> {48..57} \<and> show_nat n \<noteq> []"
proof (induction n rule: show_nat.induct)
  case (1 n)
  then show ?case by (subst (1 2) show_nat.simps) auto
qed

text \<open>Reading the digits back.\<close>

definition num_of :: "ustr \<Rightarrow> nat" where
  "num_of s = foldl (\<lambda>a c. a * 10 + (c - 48)) 0 s"

lemma num_of_show: "num_of (show_nat n) = n"
proof (induction n rule: show_nat.induct)
  case (1 n)
  then show ?case by (subst show_nat.simps) (auto simp: num_of_def)
qed

lemma show_nat_inj: "show_nat m = show_nat n \<longleftrightarrow> m = n"
  by (metis num_of_show)

lemma lit_simps [simp]: "set (lit s) = of_char ` set s" "length (lit s) = length s" "lit s = [] \<longleftrightarrow> s = []"
  by (simp_all add: lit_def)

lemma log_path_eq:
  assumes "pre \<noteq> ''''" "slash \<notin> set (lit pre)"
  shows "log_path d pre a = d @ [Normal (lit pre @ show_nat (unat a) @ lit ''.jsonl'')]"
proof -
  let ?n = "lit pre @ show_nat (unat a) @ lit ''.jsonl''"
  have "slash \<notin> set ?n" using assms(2) set_show_nat [of "unat a"] by (auto simp: slash_def lit_def)
  moreover have "length ?n > 2" by simp
  then have "?n \<noteq> [dot]" "?n \<noteq> [dot, dot]" "?n \<noteq> []" by force+
  ultimately show ?thesis unfolding log_path_def by (simp add: path_of_name)
qed

lemma log_paths:
  "log_path d ''ops-'' a = d @ [Normal (lit ''ops-'' @ show_nat (unat a) @ lit ''.jsonl'')]"
  "log_path d ''roster-'' a = d @ [Normal (lit ''roster-'' @ show_nat (unat a) @ lit ''.jsonl'')]"
  "log_path d ''keylog-'' a = d @ [Normal (lit ''keylog-'' @ show_nat (unat a) @ lit ''.jsonl'')]"
  by (rule log_path_eq; simp add: lit_def slash_def)+

lemma log_path_inj:
  "log_path d ''ops-'' a = log_path d ''ops-'' b \<longleftrightarrow> a = b"
  "log_path d ''roster-'' a = log_path d ''roster-'' b \<longleftrightarrow> a = b"
  "log_path d ''keylog-'' a = log_path d ''keylog-'' b \<longleftrightarrow> a = b"
  by (simp_all add: log_paths show_nat_inj word_unat_eq_iff)

lemma sub_path_eq:
  assumes "n \<noteq> ''''" "slash \<notin> set (lit n)" "lit n \<noteq> [dot]" "lit n \<noteq> [dot, dot]"
  shows "sub_path root n = root @ [Normal (lit n)]"
  using path_of_name [of "lit n"] assms by (simp add: sub_path_def)

lemma sub_paths:
  "sub_path r ''ops'' = r @ [Normal (lit ''ops'')]" "sub_path r ''roster'' = r @ [Normal (lit ''roster'')]"
  "sub_path r ''keylog'' = r @ [Normal (lit ''keylog'')]" "sub_path r ''founder'' = r @ [Normal (lit ''founder'')]"
  "sub_path r ''peers.json'' = r @ [Normal (lit ''peers.json'')]" "sub_path r ''snapshots'' = r @ [Normal (lit ''snapshots'')]"
  "sub_path r ''history'' = r @ [Normal (lit ''history'')]"
  "sub_path r ''snapshot.loro'' = r @ [Normal (lit ''snapshot.loro'')]"
  by (rule sub_path_eq; simp add: lit_def slash_def dot_def)+

lemma founder_tmp: "with_extension (founder_path root) (lit ''tmp'') = root @ [Normal (lit ''founder.tmp'')]"
  by (simp add: founder_path_def sub_paths with_extension_def file_stem_def lit_def dot_def)

context lawful_fs
begin

text \<open>The pin that was written is the pin that is read, and nothing else changes.\<close>

lemma write_founder_read:
  assumes "ok s" "okp (founder_path root)" "okp (root @ [Normal (lit ''founder.tmp'')])" "room s (root @ [Normal (lit ''founder.tmp'')])"
  shows "\<exists>s'. write_founder fs root p s = (Inr (), s') \<and> ok s' \<and> read_founder fs root s' = (Inr (Some p), s')
    \<and> files s' = (files s)(root @ [Normal (lit ''founder.tmp'')] := None, founder_path root \<mapsto> u64_to_le p)"
proof -
  let ?tmp = "root @ [Normal (lit ''founder.tmp'')]"
  obtain s1 where s1: "fs_create_dir_all fs root s = (Inr (), s1)" "ok s1" "files s1 = files s"
    using create_dir_all_law [OF assms(1), of root] by (auto simp: ok_step_def)
  have "room s1 ?tmp" by (rule room_dirs [OF assms(1) s1(1) assms(4)])
  then obtain s2 where s2: "fs_write fs ?tmp (u64_to_le p) s1 = (Inr (), s2)" "ok s2" "files s2 = (files s1)(?tmp \<mapsto> u64_to_le p)"
    using write_law [OF s1(2) assms(3)] by (auto simp: ok_step_def)
  have ne: "?tmp \<noteq> founder_path root" by (simp add: founder_path_def sub_paths lit_def)
  obtain s3 where s3: "fs_rename fs ?tmp (founder_path root) s2 = (Inr (), s3)" "ok s3"
    "files s3 = (files s2)(?tmp := None, founder_path root \<mapsto> u64_to_le p)"
    using rename_law [OF s2(2) _ assms(2) ne, of "u64_to_le p"] s2(3) by (auto simp: ok_step_def)
  have "read_founder fs root s3 = (Inr (Some p), s3)"
    using read_law [OF s3(2), of "founder_path root"] s3(3) by (simp add: read_founder_def)
  moreover have "write_founder fs root p s = (Inr (), s3)"
    using s1(1) s2(1) s3(1) by (simp add: write_founder_def founder_tmp Let_def)
  moreover have "files s3 = (files s)(?tmp := None, founder_path root \<mapsto> u64_to_le p)"
    using s3(3) s2(3) s1(3) by (auto simp: fun_eq_iff)
  ultimately show ?thesis using s3(2) by blast
qed

end

end
