(* ===== verification/Keychain.thy ===== *)
theory Keychain
  imports Key_Wrap Roster
begin

text \<open>
  The keychain (\<open>roam-storage/src/keychain.rs\<close>): folding the verified key-log entries into a DAG of
  epochs, the keys this device holds, the write head, the classifier of stored ciphertexts, the
  recovery diagnosis and the planner of missing wraps. The two passes of \<open>build\<close> are two folds; the
  lemmas reduce them to what happens at one epoch id (\<open>announced\<close> and \<open>node_step\<close>).
\<close>

definition EPOCH0_ID :: bytes where "EPOCH0_ID = replicate 32 0"

record epoch_node =
  en_parents :: "bytes list"
  en_minted_by :: peer
  en_nonce :: bytes
  en_key :: "bytes option"
  en_wrapped_to :: "peer list"
  en_wrapped_paper :: bool

type_synonym epochs = "(bytes, epoch_node) btree"

record keychain =
  kc_id_key :: bytes
  kc_epochs :: epochs
  kc_head :: bytes

datatype vault_issue =
    WaitingKey bytes "peer list"
  | KeyOrphaned bytes
  | KeyRedundancyLow bytes "peer list"

record read_plan =
  rp_epoch :: bytes
  rp_key :: "bytes option"
  rp_body_offset :: nat

definition epoch_input :: "bytes list \<Rightarrow> peer \<Rightarrow> bytes \<Rightarrow> bytes \<Rightarrow> bytes" where
  "epoch_input parents minted_by nonce key = concat parents @ u64_to_le minted_by @ nonce @ key"

definition compute_epoch_id :: "crypto \<Rightarrow> bytes list \<Rightarrow> peer \<Rightarrow> bytes \<Rightarrow> bytes \<Rightarrow> bytes" where
  "compute_epoch_id C parents minted_by nonce key = cr_blake3 C (epoch_input parents minted_by nonce key)"

section \<open>Building the DAG\<close>

definition genesis_node :: "bytes \<Rightarrow> epoch_node" where
  "genesis_node epoch0_key =
     \<lparr>en_parents = [], en_minted_by = 0, en_nonce = replicate 32 0, en_key = Some epoch0_key,
      en_wrapped_to = [], en_wrapped_paper = False\<rparr>"

definition rotate_node :: "key_log_entry \<Rightarrow> bytes list \<Rightarrow> bytes \<Rightarrow> epoch_node" where
  "rotate_node e parent_epochs nonce =
     \<lparr>en_parents = parent_epochs, en_minted_by = ke_author e, en_nonce = nonce, en_key = None,
      en_wrapped_to = [], en_wrapped_paper = False\<rparr>"

definition rotate_step :: "key_log_entry \<Rightarrow> epochs \<Rightarrow> epochs" where
  "rotate_step e m =
     (case ke_body e of
        Rotate parent_epochs nonce \<Rightarrow> bt_upsert (ke_epoch_id e) (\<lambda>node. node) (rotate_node e parent_epochs nonce) m
      | Wrap _ _ \<Rightarrow> m)"

definition wrap_node :: "crypto \<Rightarrow> peer \<Rightarrow> bytes \<Rightarrow> bytes \<Rightarrow> recipient \<Rightarrow> bytes \<Rightarrow> epoch_node \<Rightarrow> epoch_node" where
  "wrap_node C self_peer secret epoch_id r blob node =
     (case r of
        Device p \<Rightarrow>
          let node' = node\<lparr>en_wrapped_to := bs_insert p (en_wrapped_to node)\<rparr> in
          if p = self_peer \<and> en_key node' = None then
            case key_unwrap C secret blob of
              Inr k \<Rightarrow>
                if compute_epoch_id C (en_parents node') (en_minted_by node') (en_nonce node') k = epoch_id
                then node'\<lparr>en_key := Some k\<rparr> else node'
            | Inl _ \<Rightarrow> node'
          else node'
      | Paper \<Rightarrow> node\<lparr>en_wrapped_paper := True\<rparr>)"

definition wrap_step :: "crypto \<Rightarrow> peer \<Rightarrow> bytes \<Rightarrow> key_log_entry \<Rightarrow> epochs \<Rightarrow> epochs" where
  "wrap_step C self_peer secret e m =
     (case ke_body e of
        Rotate _ _ \<Rightarrow> m
      | Wrap r blob \<Rightarrow>
          (case bt_get m (ke_epoch_id e) of
             None \<Rightarrow> m
           | Some node \<Rightarrow> bt_insert (ke_epoch_id e) (wrap_node C self_peer secret (ke_epoch_id e) r blob node) m))"

definition parents_of :: "epochs \<Rightarrow> bytes list" where
  "parents_of m = fold (\<lambda>(_, node) s. fold bs_insert (en_parents node) s) m []"

fun min_of :: "bytes list \<Rightarrow> bytes option" where
  "min_of [] = None"
| "min_of (x # xs) = Some (fold min xs x)"

definition select_head :: "epochs \<Rightarrow> bytes" where
  "select_head m =
     (case min_of (filter (\<lambda>i. i \<notin> set (parents_of m)) (bt_keys m)) of None \<Rightarrow> EPOCH0_ID | Some h \<Rightarrow> h)"

definition build_epochs :: "crypto \<Rightarrow> bytes \<Rightarrow> peer \<Rightarrow> bytes \<Rightarrow> key_log_entry list \<Rightarrow> epochs" where
  "build_epochs C epoch0_key self_peer secret entries =
     fold (wrap_step C self_peer secret) entries
       (fold rotate_step entries (bt_insert EPOCH0_ID (genesis_node epoch0_key) []))"

definition keychain_build :: "crypto \<Rightarrow> bytes \<Rightarrow> bytes \<Rightarrow> peer \<Rightarrow> bytes \<Rightarrow> key_log_entry list \<Rightarrow> keychain" where
  "keychain_build C id_key epoch0_key self_peer secret entries =
     (let m = build_epochs C epoch0_key self_peer secret entries in
      \<lparr>kc_id_key = id_key, kc_epochs = m, kc_head = select_head m\<rparr>)"

section \<open>Using the keychain\<close>

definition key_matches_epoch :: "crypto \<Rightarrow> keychain \<Rightarrow> bytes \<Rightarrow> bytes \<Rightarrow> bool" where
  "key_matches_epoch C kc epoch key =
     (if epoch = EPOCH0_ID then False
      else case bt_get (kc_epochs kc) epoch of
             Some node \<Rightarrow> compute_epoch_id C (en_parents node) (en_minted_by node) (en_nonce node) key = epoch
           | None \<Rightarrow> False)"

definition epoch_key :: "keychain \<Rightarrow> bytes \<Rightarrow> bytes option" where
  "epoch_key kc epoch = Option.bind (bt_get (kc_epochs kc) epoch) en_key"

definition head_write_key :: "keychain \<Rightarrow> (bytes \<times> bytes) option" where
  "head_write_key kc = map_option (\<lambda>k. (kc_head kc, k)) (epoch_key kc (kc_head kc))"

definition classify :: "keychain \<Rightarrow> bytes \<Rightarrow> read_plan" where
  "classify kc payload =
     (let legacy = \<lparr>rp_epoch = EPOCH0_ID, rp_key = epoch_key kc EPOCH0_ID, rp_body_offset = 0\<rparr> in
      if 32 \<le> length payload \<and> take 32 payload \<noteq> EPOCH0_ID then
        case bt_get (kc_epochs kc) (take 32 payload) of
          Some node \<Rightarrow> \<lparr>rp_epoch = take 32 payload, rp_key = en_key node, rp_body_offset = 32\<rparr>
        | None \<Rightarrow> legacy
      else legacy)"

definition active_peers :: "peer_record list \<Rightarrow> peer list" where
  "active_peers roster = bs_of (map pr_peer_id (filter (\<lambda>p. pr_status p = Active) roster))"

definition diagnose_node :: "peer list \<Rightarrow> bytes \<Rightarrow> epoch_node \<Rightarrow> vault_issue list" where
  "diagnose_node active epoch node =
     (let live = filter (\<lambda>p. p \<in> set active) (en_wrapped_to node) in
      if en_key node = None then
        if live = [] \<and> \<not> en_wrapped_paper node then [KeyOrphaned epoch] else [WaitingKey epoch live]
      else if length live = 1 \<and> \<not> en_wrapped_paper node then [KeyRedundancyLow epoch live]
      else [])"

definition diagnose :: "keychain \<Rightarrow> peer_record list \<Rightarrow> vault_issue list" where
  "diagnose kc roster =
     concat (map (\<lambda>(epoch, node). diagnose_node (active_peers roster) epoch node) (kc_epochs kc))"

definition backfill_node :: "peer_record list \<Rightarrow> bytes \<Rightarrow> epoch_node \<Rightarrow> (bytes \<times> bytes \<times> peer) list" where
  "backfill_node roster epoch node =
     (if epoch = EPOCH0_ID then []
      else case en_key node of
             None \<Rightarrow> []
           | Some key \<Rightarrow>
               map (\<lambda>p. (epoch, key, pr_peer_id p))
                 (filter (\<lambda>p. pr_peer_id p \<notin> set (en_wrapped_to node))
                   (filter (\<lambda>p. pr_status p = Active) roster)))"

definition backfill_targets :: "keychain \<Rightarrow> peer_record list \<Rightarrow> (bytes \<times> bytes \<times> peer) list" where
  "backfill_targets kc roster = concat (map (\<lambda>(epoch, node). backfill_node roster epoch node) (kc_epochs kc))"

definition dag_heads :: "keychain \<Rightarrow> bytes list" where
  "dag_heads kc =
     (let heads = filter (\<lambda>i. i \<notin> set (parents_of (kc_epochs kc))) (bt_keys (kc_epochs kc)) in
      if heads = [] then [EPOCH0_ID] else heads)"

section \<open>What happens at one epoch id\<close>

definition is_rotate :: "bytes \<Rightarrow> key_log_entry \<Rightarrow> bool" where
  "is_rotate i e \<longleftrightarrow> ke_epoch_id e = i \<and> (case ke_body e of Rotate _ _ \<Rightarrow> True | Wrap _ _ \<Rightarrow> False)"

fun announce :: "key_log_entry \<Rightarrow> epoch_node" where
  "announce e = (case ke_body e of Rotate ps n \<Rightarrow> rotate_node e ps n | Wrap _ _ \<Rightarrow> rotate_node e [] [])"

definition announced :: "bytes \<Rightarrow> key_log_entry list \<Rightarrow> bytes \<Rightarrow> epoch_node option" where
  "announced k0 es i = (if i = EPOCH0_ID then Some (genesis_node k0) else map_option announce (find (is_rotate i) es))"

definition node_step :: "crypto \<Rightarrow> peer \<Rightarrow> bytes \<Rightarrow> bytes \<Rightarrow> key_log_entry \<Rightarrow> epoch_node \<Rightarrow> epoch_node" where
  "node_step C self sec i e node =
     (if ke_epoch_id e = i then case ke_body e of Rotate _ _ \<Rightarrow> node | Wrap r b \<Rightarrow> wrap_node C self sec i r b node
      else node)"

lemma bt_ok_rotate_step: "bt_ok m \<Longrightarrow> bt_ok (rotate_step e m)"
  by (auto simp: rotate_step_def split: key_body.splits)

lemma bt_ok_wrap_step: "bt_ok m \<Longrightarrow> bt_ok (wrap_step C self sec e m)"
  by (auto simp: wrap_step_def split: key_body.splits option.splits)

lemma fold_rotate_step:
  "bt_ok m \<Longrightarrow> bt_ok (fold rotate_step es m)
     \<and> bt_get (fold rotate_step es m) i =
        (case bt_get m i of Some n \<Rightarrow> Some n | None \<Rightarrow> map_option announce (find (is_rotate i) es))"
proof (induction es arbitrary: m)
  case (Cons e es)
  have "bt_get (rotate_step e m) i =
      (case bt_get m i of Some n \<Rightarrow> Some n | None \<Rightarrow> if is_rotate i e then Some (announce e) else None)"
    using Cons.prems
    by (auto simp: rotate_step_def is_rotate_def bt_get_upsert split: key_body.splits option.splits)
  then show ?case using Cons.IH [OF bt_ok_rotate_step [OF Cons.prems]] by (auto split: option.splits)
qed (auto split: option.splits)

lemma fold_wrap_step:
  "bt_ok m \<Longrightarrow> bt_ok (fold (wrap_step C self sec) es m)
     \<and> bt_get (fold (wrap_step C self sec) es m) i = map_option (fold (node_step C self sec i) es) (bt_get m i)"
proof (induction es arbitrary: m)
  case (Cons e es)
  have "bt_get (wrap_step C self sec e m) i = map_option (node_step C self sec i e) (bt_get m i)"
    using Cons.prems
    by (cases "bt_get m i"; auto simp: wrap_step_def node_step_def bt_get_insert split: key_body.splits option.splits)
  then show ?case
    using Cons.IH [OF bt_ok_wrap_step [OF Cons.prems]] by (simp add: option.map_comp comp_def)
qed (simp add: option.map_id)

lemma build_get:
  "bt_get (build_epochs C k0 self sec es) i = map_option (fold (node_step C self sec i) es) (announced k0 es i)"
  and build_ok: "bt_ok (build_epochs C k0 self sec es)"
proof -
  let ?g = "bt_insert EPOCH0_ID (genesis_node k0) []"
  have g: "bt_ok ?g" "bt_get ?g i = (if i = EPOCH0_ID then Some (genesis_node k0) else None)" for i
    by (auto simp: bt_get_insert)
  note r = fold_rotate_step [OF g(1), of es]
  have "bt_get (fold rotate_step es ?g) i = announced k0 es i" using r [of i] by (simp add: g(2) announced_def)
  then show "bt_get (build_epochs C k0 self sec es) i = map_option (fold (node_step C self sec i) es) (announced k0 es i)"
    unfolding build_epochs_def using fold_wrap_step [of _ C self sec es i] r by simp
  show "bt_ok (build_epochs C k0 self sec es)" unfolding build_epochs_def using fold_wrap_step [of _ C self sec es] r by simp
qed

lemma keychain_build_simps [simp]:
  "kc_epochs (keychain_build C idk k0 self sec es) = build_epochs C k0 self sec es"
  "kc_head (keychain_build C idk k0 self sec es) = select_head (build_epochs C k0 self sec es)"
  "kc_id_key (keychain_build C idk k0 self sec es) = idk"
  by (simp_all add: keychain_build_def Let_def)

definition wraps_to :: "bytes \<Rightarrow> key_log_entry list \<Rightarrow> peer set" where
  "wraps_to i es = {p. \<exists>e \<in> set es. ke_epoch_id e = i \<and> (\<exists>b. ke_body e = Wrap (Device p) b)}"

definition delivers :: "crypto \<Rightarrow> peer \<Rightarrow> bytes \<Rightarrow> bytes \<Rightarrow> key_log_entry \<Rightarrow> bytes \<Rightarrow> bool" where
  "delivers C self sec i e k \<longleftrightarrow>
     ke_epoch_id e = i \<and> (\<exists>b. ke_body e = Wrap (Device self) b \<and> key_unwrap C sec b = Inr k)"

abbreviation commits :: "crypto \<Rightarrow> epoch_node \<Rightarrow> bytes \<Rightarrow> bytes" where
  "commits C n k \<equiv> compute_epoch_id C (en_parents n) (en_minted_by n) (en_nonce n) k"

lemma node_step_fields [simp]:
  "en_parents (node_step C self sec i e n) = en_parents n"
  "en_minted_by (node_step C self sec i e n) = en_minted_by n"
  "en_nonce (node_step C self sec i e n) = en_nonce n"
  by (auto simp: node_step_def wrap_node_def Let_def split: key_body.splits recipient.splits sum.splits)

lemma node_fold_fields [simp]:
  "en_parents (fold (node_step C self sec i) es n) = en_parents n"
  "en_minted_by (fold (node_step C self sec i) es n) = en_minted_by n"
  "en_nonce (fold (node_step C self sec i) es n) = en_nonce n"
  by (induction es arbitrary: n) simp_all

lemma node_step_wrapped:
  "set (en_wrapped_to (node_step C self sec i e n)) = set (en_wrapped_to n) \<union> wraps_to i [e]"
  by (auto simp: node_step_def wrap_node_def wraps_to_def Let_def split: key_body.splits recipient.splits sum.splits)

lemma node_fold_wrapped:
  "set (en_wrapped_to (fold (node_step C self sec i) es n)) = set (en_wrapped_to n) \<union> wraps_to i es"
proof (induction es arbitrary: n)
  case (Cons e es)
  have "wraps_to i (e # es) = wraps_to i [e] \<union> wraps_to i es" by (auto simp: wraps_to_def)
  then show ?case by (simp add: Cons node_step_wrapped Un_assoc)
qed (simp add: wraps_to_def)

lemma node_step_key:
  "en_key (node_step C self sec i e n) =
     (case en_key n of Some k \<Rightarrow> Some k
      | None \<Rightarrow> (case ke_body e of Wrap (Device p) b \<Rightarrow>
                  if ke_epoch_id e = i \<and> p = self then
                    case key_unwrap C sec b of Inr k \<Rightarrow> if commits C n k = i then Some k else None | Inl _ \<Rightarrow> None
                  else None | _ \<Rightarrow> None))"
  by (auto simp: node_step_def wrap_node_def Let_def split: key_body.splits recipient.splits sum.splits option.splits)

lemma node_fold_key_Some: "en_key n = Some k \<Longrightarrow> en_key (fold (node_step C self sec i) es n) = Some k"
  by (induction es arbitrary: n) (simp_all add: node_step_key)

lemma node_fold_key_origin:
  "en_key (fold (node_step C self sec i) es n) = Some k \<Longrightarrow>
     en_key n = Some k \<or> commits C n k = i \<and> (\<exists>e \<in> set es. delivers C self sec i e k)"
proof (induction es arbitrary: n)
  case (Cons e es)
  have "en_key (node_step C self sec i e n) = Some k \<or>
      commits C n k = i \<and> (\<exists>e \<in> set es. delivers C self sec i e k)"
    using Cons.IH [of "node_step C self sec i e n"] Cons.prems by simp
  then show ?case
    by (auto simp: node_step_key delivers_def split: option.splits key_body.splits recipient.splits if_splits sum.splits)
qed simp

lemma node_fold_key_delivered:
  assumes "e \<in> set es" "delivers C self sec i e k" "commits C n k = i"
  shows "\<exists>k'. en_key (fold (node_step C self sec i) es n) = Some k'"
proof -
  obtain es1 es2 where es: "es = es1 @ e # es2" using assms(1) by (auto dest: split_list)
  let ?n1 = "fold (node_step C self sec i) es1 n"
  have "\<exists>k'. en_key (node_step C self sec i e ?n1) = Some k'"
    using assms(2,3) by (auto simp: node_step_key delivers_def split: option.splits)
  then show ?thesis using node_fold_key_Some by (fastforce simp: es)
qed

lemma find_is_rotate: "find (is_rotate i) es = Some e \<Longrightarrow> e \<in> set es \<and> is_rotate i e"
  by (auto simp: find_Some_iff)

lemma key_unwrap_length: "key_unwrap C sec b = Inr k \<Longrightarrow> length k = 32"
  by (auto simp: key_unwrap_def Let_def bind_r_def split: if_splits sum.splits)

text \<open>An installed key other than the genesis key commits to its epoch and came in a wrap.\<close>

lemma build_key:
  assumes "bt_get (build_epochs C k0 self sec es) i = Some node" "i \<noteq> EPOCH0_ID"
  shows "\<exists>e \<in> set es. \<exists>ps n. ke_epoch_id e = i \<and> ke_body e = Rotate ps n
      \<and> en_parents node = ps \<and> en_minted_by node = ke_author e \<and> en_nonce node = n"
    and "en_key node = Some k \<Longrightarrow> commits C node k = i \<and> length k = 32 \<and> (\<exists>e \<in> set es. delivers C self sec i e k)"
proof -
  obtain e where e: "find (is_rotate i) es = Some e" "node = fold (node_step C self sec i) es (announce e)"
    using assms by (auto simp: build_get announced_def)
  then obtain ps n where b: "ke_body e = Rotate ps n" "ke_epoch_id e = i" "e \<in> set es"
    using find_is_rotate [OF e(1)] by (auto simp: is_rotate_def split: key_body.splits)
  show "\<exists>e \<in> set es. \<exists>ps n. ke_epoch_id e = i \<and> ke_body e = Rotate ps n
      \<and> en_parents node = ps \<and> en_minted_by node = ke_author e \<and> en_nonce node = n"
    using b by (intro bexI [of _ e]) (auto simp: e(2) rotate_node_def)
  show "commits C node k = i \<and> length k = 32 \<and> (\<exists>e \<in> set es. delivers C self sec i e k)" if "en_key node = Some k"
    using node_fold_key_origin [of C self sec i es "announce e" k] that
    by (auto simp: e(2) b rotate_node_def delivers_def dest: key_unwrap_length)
qed

section \<open>Leaves of the DAG\<close>

lemma set_parents_of: "set (parents_of m) = (\<Union>(i, n) \<in> set m. set (en_parents n))"
proof -
  have fi: "set (fold bs_insert xs s) = set s \<union> set xs" for xs s :: "bytes list"
    by (induction xs arbitrary: s) auto
  have "set (fold (\<lambda>(_, node) s. fold bs_insert (en_parents node) s) m s) = set s \<union> (\<Union>(i, n) \<in> set m. set (en_parents n))" for s
    by (induction m arbitrary: s) (auto simp: fi)
  then show ?thesis by (simp add: parents_of_def)
qed

lemma fold_min_mem: "fold min xs x \<in> insert x (set xs)" for x :: "'a::linorder"
proof (induction xs arbitrary: x)
  case (Cons a xs)
  then show ?case using Cons [of "min a x"] by (auto simp: min_def split: if_splits)
qed simp

lemma fold_min_le: "y \<in> insert x (set xs) \<Longrightarrow> fold min xs x \<le> y" for x :: "'a::linorder"
proof (induction xs arbitrary: x y)
  case (Cons a xs)
  have "fold min xs (min a x) \<le> min a x" by (rule Cons.IH) simp
  then show ?case using Cons by auto
qed simp

lemma select_head_dag_heads:
  "select_head (kc_epochs kc) \<in> set (dag_heads kc) \<and> (\<forall>h \<in> set (dag_heads kc). select_head (kc_epochs kc) \<le> h)"
proof -
  let ?l = "filter (\<lambda>i. i \<notin> set (parents_of (kc_epochs kc))) (bt_keys (kc_epochs kc))"
  show ?thesis
  proof (cases ?l)
    case Nil
    then show ?thesis by (simp only: select_head_def dag_heads_def Let_def) simp
  next
    case (Cons x xs)
    then show ?thesis
      using fold_min_mem [of xs x] fold_min_le [of _ x xs] by (simp only: select_head_def dag_heads_def Let_def) auto
  qed
qed

lemma bt_keys_build: "set (bt_keys m) = {i. bt_get m i \<noteq> None}"
  by (auto simp: bt_keys_def bt_get_None)

lemma build_same_shape:
  assumes "\<And>i. map_option (\<lambda>n. set (en_parents n)) (bt_get m1 i) = map_option (\<lambda>n. set (en_parents n)) (bt_get m2 i)"
    "bt_ok m1" "bt_ok m2"
  shows "bt_keys m1 = bt_keys m2" "set (parents_of m1) = set (parents_of m2)"
proof -
  have "bt_get m1 i = None \<longleftrightarrow> bt_get m2 i = None" for i using assms(1) [of i] by (metis option.map_disc_iff)
  then show "bt_keys m1 = bt_keys m2"
    using assms(2,3) by (intro strict_sorted_ext) (simp_all add: bt_keys_build, simp_all add: bt_ok_def bt_keys_def)
  have rep: "(\<Union>(i, n) \<in> set m. set (en_parents n)) = (\<Union>i. case map_option (\<lambda>n. set (en_parents n)) (bt_get m i) of None \<Rightarrow> {} | Some S \<Rightarrow> S)"
    if "bt_ok m" for m
    by (force simp: bt_get_iff [OF that, symmetric] split: option.splits)
  show "set (parents_of m1) = set (parents_of m2)"
    unfolding set_parents_of rep [OF assms(2)] rep [OF assms(3)] assms(1) ..
qed

lemma announced_parents:
  "map_option (\<lambda>n. set (en_parents n)) (bt_get (build_epochs C k0 self sec es) i) =
     (if i = EPOCH0_ID then Some {} else map_option (\<lambda>e. set (en_parents (announce e))) (find (is_rotate i) es))"
  by (auto simp: build_get announced_def option.map_comp comp_def genesis_node_def)

text \<open>The rotations a log announces, and that no two of them claim one epoch id.\<close>

definition rotations :: "key_log_entry list \<Rightarrow> key_log_entry set" where
  "rotations es = {e \<in> set es. is_rotate (ke_epoch_id e) e}"

definition rotations_unambiguous :: "key_log_entry list \<Rightarrow> bool" where
  "rotations_unambiguous es \<longleftrightarrow>
     (\<forall>e \<in> rotations es. \<forall>e' \<in> rotations es. ke_epoch_id e = ke_epoch_id e' \<longrightarrow> announce e = announce e')"

lemma find_rotation_set:
  assumes "rotations es1 = rotations es2" "rotations_unambiguous es1"
  shows "map_option announce (find (is_rotate i) es1) = map_option announce (find (is_rotate i) es2)"
proof -
  have mem: "e \<in> rotations es \<and> ke_epoch_id e = i" if "find (is_rotate i) es = Some e" for e es
    using find_is_rotate [OF that] by (auto simp: rotations_def is_rotate_def)
  have none: "find (is_rotate i) es = None \<longleftrightarrow> (\<forall>e \<in> rotations es. ke_epoch_id e \<noteq> i)" for es
    by (auto simp: find_None_iff rotations_def is_rotate_def)
  show ?thesis
  proof (cases "find (is_rotate i) es1")
    case None
    then have "find (is_rotate i) es2 = None" using none assms(1) by auto
    then show ?thesis using None by simp
  next
    case (Some e1)
    then have "find (is_rotate i) es2 \<noteq> None" using none [of es2] mem [OF Some] assms(1) by auto
    then obtain e2 where e2: "find (is_rotate i) es2 = Some e2" by blast
    have "announce e1 = announce e2"
      using mem [OF Some] mem [OF e2] assms unfolding rotations_unambiguous_def by metis
    then show ?thesis unfolding Some e2 option.map by (rule arg_cong)
  qed
qed

section \<open>Back-filling\<close>

definition fulfils :: "(bytes \<times> bytes \<times> peer) list \<Rightarrow> key_log_entry list \<Rightarrow> bool" where
  "fulfils targets ws \<longleftrightarrow>
     list_all2 (\<lambda>(i, k, p) w. ke_epoch_id w = i \<and> (\<exists>b. ke_body w = Wrap (Device p) b)) targets ws"

lemma fulfils_wraps:
  assumes "fulfils ts ws"
  shows "wraps_to i ws = {p. \<exists>k. (i, k, p) \<in> set ts}" "find (is_rotate i) ws = None"
proof -
  have "wraps_to i ws = {p. \<exists>k. (i, k, p) \<in> set ts} \<and> find (is_rotate i) ws = None"
    using assms unfolding fulfils_def
  proof (induction ts ws rule: list_all2_induct)
    case (Cons t ts w ws)
    have "wraps_to i (w # ws) = wraps_to i [w] \<union> wraps_to i ws" by (auto simp: wraps_to_def)
    moreover have "wraps_to i [w] = {p. \<exists>k. (i, k, p) = t}" "\<not> is_rotate i w"
      using Cons(1) by (auto simp: wraps_to_def is_rotate_def split: prod.splits)
    ultimately show ?case using Cons(3) by auto
  qed (simp add: wraps_to_def)
  then show "wraps_to i ws = {p. \<exists>k. (i, k, p) \<in> set ts}" "find (is_rotate i) ws = None" by auto
qed

lemma find_append: "find P (xs @ ys) = (case find P xs of Some x \<Rightarrow> Some x | None \<Rightarrow> find P ys)"
  by (induction xs) auto

lemma build_append:
  assumes "\<And>i. find (is_rotate i) ws = None"
  shows "bt_get (build_epochs C k0 self sec (es @ ws)) i =
    map_option (fold (node_step C self sec i) ws) (bt_get (build_epochs C k0 self sec es) i)"
  using assms by (simp add: build_get announced_def find_append option.map_comp comp_def split: option.splits)

lemma backfill_targets_mem:
  assumes "bt_ok (kc_epochs kc)"
  shows "(i, k, p) \<in> set (backfill_targets kc roster) \<longleftrightarrow>
    i \<noteq> EPOCH0_ID \<and> (\<exists>node. bt_get (kc_epochs kc) i = Some node \<and> en_key node = Some k
      \<and> p \<in> set (active_peers roster) \<and> p \<notin> set (en_wrapped_to node))"
proof -
  have node: "(i, k, p) \<in> set (backfill_node roster i' node) \<longleftrightarrow> i' = i \<and> i \<noteq> EPOCH0_ID \<and> en_key node = Some k
      \<and> p \<in> set (active_peers roster) \<and> p \<notin> set (en_wrapped_to node)" for i' node
    by (cases "en_key node") (auto simp: backfill_node_def active_peers_def bs_of_props)
  have "(i, k, p) \<in> set (backfill_targets kc roster) \<longleftrightarrow>
      (\<exists>i' node. (i', node) \<in> set (kc_epochs kc) \<and> (i, k, p) \<in> set (backfill_node roster i' node))"
    by (auto simp: backfill_targets_def)
  then show ?thesis unfolding node bt_get_iff [OF assms] by blast
qed

lemma node_fold_sorted:
  "sorted_wrt (<) (en_wrapped_to n) \<Longrightarrow> sorted_wrt (<) (en_wrapped_to (fold (node_step C self sec i) es n))"
proof (induction es arbitrary: n)
  case (Cons e es)
  have "sorted_wrt (<) (en_wrapped_to (node_step C self sec i e n))"
    using Cons.prems by (auto simp: node_step_def wrap_node_def Let_def sorted_bs_insert
        split: key_body.splits recipient.splits sum.splits)
  then show ?case using Cons.IH by simp
qed simp

lemma announce_wrapped: "en_wrapped_to (announce e) = []"
  by (simp add: rotate_node_def split: key_body.splits)

lemma build_wrapped_sorted:
  assumes "bt_get (build_epochs C k0 self sec es) i = Some node"
  shows "sorted_wrt (<) (en_wrapped_to node)"
proof -
  obtain n where n: "announced k0 es i = Some n" "node = fold (node_step C self sec i) es n"
    using assms by (auto simp: build_get)
  have "en_wrapped_to n = []"
    using n(1) by (auto simp: announced_def genesis_node_def announce_wrapped simp del: announce.simps split: if_splits)
  then show ?thesis using node_fold_sorted [of n] n(2) by simp
qed

text \<open>What the published wraps change at one epoch.\<close>

lemma backfill_node_after:
  assumes f: "fulfils (backfill_targets (keychain_build C idk k0 self sec es) roster) ws"
    and g: "bt_get (build_epochs C k0 self sec (es @ ws)) i = Some node'"
  obtains node where "bt_get (build_epochs C k0 self sec es) i = Some node" "en_key node' = en_key node"
    "i \<noteq> EPOCH0_ID \<Longrightarrow> en_key node \<noteq> None \<Longrightarrow> set (active_peers roster) \<subseteq> set (en_wrapped_to node')"
proof -
  note w = fulfils_wraps [OF f]
  obtain node where n: "bt_get (build_epochs C k0 self sec es) i = Some node" "node' = fold (node_step C self sec i) ws node"
    using g by (auto simp: build_append [OF w(2)])
  have t: "(i, k, p) \<in> set (backfill_targets (keychain_build C idk k0 self sec es) roster) \<longleftrightarrow>
      i \<noteq> EPOCH0_ID \<and> en_key node = Some k \<and> p \<in> set (active_peers roster) \<and> p \<notin> set (en_wrapped_to node)" for k p
    using backfill_targets_mem [of "keychain_build C idk k0 self sec es"] by (simp add: build_ok n(1))
  have "en_key node' = en_key node"
  proof (cases "en_key node")
    case None
    then have "wraps_to i ws = {}" by (simp add: w(1) t)
    then have "\<not> delivers C self sec i e k" if "e \<in> set ws" for e k
      using that by (auto simp: wraps_to_def delivers_def)
    then show ?thesis using node_fold_key_origin [of C self sec i ws node] None n(2) by fastforce
  qed (simp add: node_fold_key_Some n(2))
  moreover have "set (active_peers roster) \<subseteq> set (en_wrapped_to node')" if "i \<noteq> EPOCH0_ID" "en_key node \<noteq> None"
    using that by (auto simp: n(2) node_fold_wrapped w(1) t)
  ultimately show thesis using that n(1) by blast
qed

section \<open>Properties\<close>

text \<open>
  A small instance of the cryptographic parameters: the hash keeps the last 32 bytes, sealing is the
  identity. It satisfies the laws, which are therefore consistent.
\<close>

definition toy_crypto :: crypto where
  "toy_crypto = \<lparr>cr_blake3 = \<lambda>x. drop (length x - 32) x, cr_derive_key = \<lambda>_ k. k, cr_keyed_hash = \<lambda>_ m. m,
     cr_x_public = \<lambda>_. replicate 32 0, cr_dh = \<lambda>_ _. [], cr_seal = \<lambda>_ _ m. m, cr_open = \<lambda>_ _ c. Some c,
     cr_argon2 = \<lambda>p _. p\<rparr>"

lemma toy_crypto_laws: "crypto_laws toy_crypto"
  by (simp add: crypto_laws_def toy_crypto_def)

definition ex_ekey :: bytes where "ex_ekey = replicate 32 7"
definition ex_rotate :: key_log_entry where
  "ex_rotate = \<lparr>ke_seq = 1, ke_author = 5, ke_epoch_id = ex_ekey, ke_body = Rotate [EPOCH0_ID] (replicate 32 1)\<rparr>"
definition ex_wrap :: key_log_entry where
  "ex_wrap = \<lparr>ke_seq = 2, ke_author = 5, ke_epoch_id = ex_ekey,
     ke_body = Wrap (Device 9) (key_wrap toy_crypto [] (replicate 24 0) (replicate 32 0) ex_ekey)\<rparr>"

lemma toy_epoch_id: "length k = 32 \<Longrightarrow> compute_epoch_id toy_crypto ps a n k = k"
  by (simp add: compute_epoch_id_def epoch_input_def toy_crypto_def)

lemma ex_ekey_facts: "ex_ekey \<noteq> EPOCH0_ID" "length ex_ekey = 32"
  by (simp_all add: ex_ekey_def EPOCH0_ID_def replicate_eq_replicate)



text \<open>
  No phantom epochs and no substituted keys. Every epoch of the keychain other than the
  genesis was announced by a rotation of the log and keeps its parents, author and nonce; a key is
  installed for it only if a wrap to this device delivered it and it reproduces the epoch id.
\<close>

theorem installed_keys_committed:
  assumes "(i, node) \<in> set (kc_epochs (keychain_build C idk k0 self sec es))" "i \<noteq> EPOCH0_ID"
  shows "(\<exists>e \<in> set es. ke_epoch_id e = i \<and> ke_body e = Rotate (en_parents node) (en_nonce node) \<and> en_minted_by node = ke_author e)
    \<and> (\<forall>k. en_key node = Some k \<longrightarrow>
          key_matches_epoch C (keychain_build C idk k0 self sec es) i k
          \<and> (\<exists>e \<in> set es. ke_epoch_id e = i \<and> (\<exists>b. ke_body e = Wrap (Device self) b \<and> key_unwrap C sec b = Inr k)))"
proof -
  have get: "bt_get (build_epochs C k0 self sec es) i = Some node" using assms(1) by (simp add: bt_get_iff build_ok)
  show ?thesis
    using build_key(1) [OF get assms(2)] build_key(2) [OF get assms(2)] get assms(2)
    by (auto simp: key_matches_epoch_def delivers_def)
qed

text \<open>
  C11: a vault is never split by one epoch id. Two devices that hold keys for the same minted epoch
  hold the same key, or their two hash inputs are a BLAKE3 collision; the devices may differ in
  everything else, including the logs they have seen.
\<close>

theorem epoch_keys_agree:
  assumes "bt_get (kc_epochs (keychain_build C idk1 k01 self1 sec1 es1)) i = Some n1" "en_key n1 = Some k1"
    and "bt_get (kc_epochs (keychain_build C idk2 k02 self2 sec2 es2)) i = Some n2" "en_key n2 = Some k2"
    and "i \<noteq> EPOCH0_ID"
  shows "let x1 = epoch_input (en_parents n1) (en_minted_by n1) (en_nonce n1) k1;
             x2 = epoch_input (en_parents n2) (en_minted_by n2) (en_nonce n2) k2 in
    k1 = k2 \<or> x1 \<noteq> x2 \<and> cr_blake3 C x1 = cr_blake3 C x2"
proof -
  have "commits C n1 k1 = i \<and> length k1 = 32" "commits C n2 k2 = i \<and> length k2 = 32"
    using build_key(2) [of C k01 self1 sec1 es1 i n1 k1] build_key(2) [of C k02 self2 sec2 es2 i n2 k2] assms by simp_all
  then show ?thesis
    by (auto simp: Let_def compute_epoch_id_def epoch_input_def simp del: append_assoc simp add: append_assoc [symmetric])
qed

theorem epoch_keys_agree_witness:
  "\<exists>n1 n2. bt_get (kc_epochs (keychain_build toy_crypto [] [] 9 [] [ex_rotate, ex_wrap])) ex_ekey = Some n1
     \<and> bt_get (kc_epochs (keychain_build toy_crypto [] [] 9 [1] [ex_wrap, ex_rotate])) ex_ekey = Some n2 \<and> en_key n1 = en_key n2"
proof -
  have "\<exists>node. bt_get (build_epochs toy_crypto [] 9 sec es) ex_ekey = Some node \<and> en_key node = Some ex_ekey"
    if "es = [ex_rotate, ex_wrap] \<or> es = [ex_wrap, ex_rotate]" for sec es
    using that
    by (auto simp: build_get announced_def ex_ekey_facts is_rotate_def ex_rotate_def ex_wrap_def node_step_key rotate_node_def
        key_unwrap_def key_wrap_def Let_def EPH_PUB_LEN_def NONCE_LEN_def toy_epoch_id [unfolded toy_crypto_def] toy_crypto_def)
  then obtain n1 n2 where n: "bt_get (kc_epochs (keychain_build toy_crypto [] [] 9 [] [ex_rotate, ex_wrap])) ex_ekey = Some n1"
    "en_key n1 = Some ex_ekey" "bt_get (kc_epochs (keychain_build toy_crypto [] [] 9 [1] [ex_wrap, ex_rotate])) ex_ekey = Some n2"
    "en_key n2 = Some ex_ekey" by (metis keychain_build_simps(1))
  then show ?thesis using epoch_keys_agree [OF n ex_ekey_facts(1)] by auto
qed

text \<open>
  Writers converge. Two devices whose logs announce the same rotations, in any order and with
  any wraps, keys and secrets, compute the same DAG leaves and the same write head, when no epoch id
  is announced twice with different contents.
\<close>

theorem head_converges:
  assumes "rotations es1 = rotations es2" "rotations_unambiguous es1"
  shows "dag_heads (keychain_build C idk1 k01 self1 sec1 es1) = dag_heads (keychain_build C idk2 k02 self2 sec2 es2)
    \<and> kc_head (keychain_build C idk1 k01 self1 sec1 es1) = kc_head (keychain_build C idk2 k02 self2 sec2 es2)"
proof -
  let ?m1 = "build_epochs C k01 self1 sec1 es1" and ?m2 = "build_epochs C k02 self2 sec2 es2"
  have "map_option (\<lambda>e. set (en_parents (announce e))) (find (is_rotate i) es1) =
      map_option (\<lambda>e. set (en_parents (announce e))) (find (is_rotate i) es2)" for i
    using arg_cong [OF find_rotation_set [OF assms, of i], of "map_option (\<lambda>n. set (en_parents n))"]
    by (simp only: option.map_comp comp_def)
  then have "map_option (\<lambda>n. set (en_parents n)) (bt_get ?m1 i) = map_option (\<lambda>n. set (en_parents n)) (bt_get ?m2 i)" for i
    unfolding announced_parents by simp
  note shape = build_same_shape [OF this build_ok build_ok]
  show ?thesis unfolding dag_heads_def select_head_def keychain_build_simps shape by blast
qed

text \<open>
  The write head is the least leaf. It is one of the leaves a rotation parents on, no leaf is
  smaller, and a leaf is either the genesis fallback or an epoch that no epoch has as its parent.
\<close>

theorem head_is_least_leaf:
  "kc_head (keychain_build C idk k0 self sec es) = Min (set (dag_heads (keychain_build C idk k0 self sec es)))
   \<and> set (dag_heads (keychain_build C idk k0 self sec es)) \<subseteq>
      insert EPOCH0_ID {i. bt_get (build_epochs C k0 self sec es) i \<noteq> None
        \<and> (\<forall>j n. bt_get (build_epochs C k0 self sec es) j = Some n \<longrightarrow> i \<notin> set (en_parents n))}"
proof -
  let ?kc = "keychain_build C idk k0 self sec es"
  have "kc_head ?kc = Min (set (dag_heads ?kc))"
    using select_head_dag_heads [of ?kc] by (intro Min_eqI [symmetric]) auto
  moreover have "i \<notin> set (en_parents n)"
    if "i \<notin> set (parents_of (build_epochs C k0 self sec es))" "bt_get (build_epochs C k0 self sec es) j = Some n" for i j n
    using that bt_get_mem [OF that(2)] by (auto simp: set_parents_of)
  ultimately show ?thesis by (auto simp: dag_heads_def Let_def bt_keys_build split: if_splits)
qed

text \<open>
  Back-filling finishes. Once the device publishes one wrap for each planned target, no target
  is left, the keys it holds are unchanged, and a minted epoch is reported as having a single holder
  only if the roster has a single active member.
\<close>

theorem backfill_complete:
  assumes "fulfils (backfill_targets (keychain_build C idk k0 self sec es) roster) ws"
  shows "let kc' = keychain_build C idk k0 self sec (es @ ws) in
    backfill_targets kc' roster = []
    \<and> (\<forall>i. epoch_key kc' i = epoch_key (keychain_build C idk k0 self sec es) i)
    \<and> (\<forall>i hs. KeyRedundancyLow i hs \<in> set (diagnose kc' roster) \<longrightarrow> i = EPOCH0_ID \<or> length (active_peers roster) = 1)"
proof -
  let ?m' = "build_epochs C k0 self sec (es @ ws)"
  let ?kc' = "keychain_build C idk k0 self sec (es @ ws)"
  have "t \<notin> set (backfill_targets ?kc' roster)" for t
  proof
    assume mem: "t \<in> set (backfill_targets ?kc' roster)"
    obtain i k p where t: "t = (i, k, p)" by (cases t)
    have mem': "i \<noteq> EPOCH0_ID \<and> (\<exists>node. bt_get ?m' i = Some node \<and> en_key node = Some k
        \<and> p \<in> set (active_peers roster) \<and> p \<notin> set (en_wrapped_to node))"
      using mem backfill_targets_mem [of ?kc' i k p roster] by (simp add: t build_ok)
    then obtain node' where n: "bt_get ?m' i = Some node'" "en_key node' = Some k" "p \<in> set (active_peers roster)" "p \<notin> set (en_wrapped_to node')"
      by blast
    obtain node :: epoch_node where "en_key node' = en_key node" "i \<noteq> EPOCH0_ID \<Longrightarrow> en_key node \<noteq> None \<Longrightarrow> set (active_peers roster) \<subseteq> set (en_wrapped_to node')"
      using backfill_node_after [OF assms n(1)] by blast
    then have "set (active_peers roster) \<subseteq> set (en_wrapped_to node')" using mem' n(2) by (metis option.distinct(1))
    then show False using n(3,4) by blast
  qed
  then have none: "backfill_targets ?kc' roster = []" by (metis list.set_intros(1) neq_Nil_conv)
  have keys: "epoch_key ?kc' i = epoch_key (keychain_build C idk k0 self sec es) i" for i
  proof (cases "bt_get ?m' i")
    case None
    then show ?thesis by (simp add: epoch_key_def build_append [OF fulfils_wraps(2) [OF assms]])
  next
    case (Some node')
    obtain node where "bt_get (build_epochs C k0 self sec es) i = Some node" "en_key node' = en_key node"
      using backfill_node_after [OF assms Some] by blast
    then show ?thesis using Some by (simp add: epoch_key_def)
  qed
  have "length (active_peers roster) = 1" if low: "KeyRedundancyLow i hs \<in> set (diagnose ?kc' roster)" and i: "i \<noteq> EPOCH0_ID" for i hs
  proof -
    obtain node' where n: "bt_get ?m' i = Some node'" "en_key node' \<noteq> None"
      "length (filter (\<lambda>p. p \<in> set (active_peers roster)) (en_wrapped_to node')) = 1"
      using low by (auto simp: diagnose_def diagnose_node_def Let_def bt_get_iff build_ok split: if_splits)
    obtain node :: epoch_node where "en_key node' = en_key node" "i \<noteq> EPOCH0_ID \<Longrightarrow> en_key node \<noteq> None \<Longrightarrow> set (active_peers roster) \<subseteq> set (en_wrapped_to node')"
      using backfill_node_after [OF assms n(1)] by blast
    then have sub: "set (active_peers roster) \<subseteq> set (en_wrapped_to node')" using i n(2) by simp
    have "distinct (en_wrapped_to node')" "distinct (active_peers roster)"
      using build_wrapped_sorted [OF n(1)] bs_of_props(2) [of "map pr_peer_id (filter (\<lambda>p. pr_status p = Active) roster)"]
      by (auto simp: active_peers_def strict_sorted_iff)
    then have "length (filter (\<lambda>p. p \<in> set (active_peers roster)) (en_wrapped_to node')) = length (active_peers roster)"
      using sub by (auto simp: distinct_card [symmetric] Int_absorb1 intro!: arg_cong [of _ _ card])
    then show ?thesis using n(3) by simp
  qed
  then show ?thesis using none keys by (auto simp: Let_def)
qed

end
