(* ===== verification/Document.thy ===== *)
theory Document
  imports Storage_Base
begin

text \<open>
  The CRDT document (\<open>roam-crdt/src/doc.rs\<close>) over the loro library. Loro is the parameter \<open>loro\<close>: the
  calls the wrapper makes on a \<open>LoroDoc\<close>, with version vectors and frontiers as abstract types; a call
  that loro documents as fallible may change the document also when it fails. The wrapper's own logic
  is the set-up of a document, the string-only view of maps and the check of an update's author.
\<close>

datatype loro_value = LString ustr | LOther

text \<open>What an import reports: the peers whose changes were applied, and those whose changes wait.\<close>

record import_status =
  is_success :: "peer list"
  is_pending :: "peer list option"

record ('d, 'v, 'f) loro =
  lo_new :: 'd
  lo_set_peer_id :: "peer \<Rightarrow> ('d, unit, unit) op"
  lo_set_record_timestamp :: "bool \<Rightarrow> 'd \<Rightarrow> 'd"
  lo_set_change_merge_interval :: "int \<Rightarrow> 'd \<Rightarrow> 'd"
  lo_text_insert :: "ustr \<Rightarrow> nat \<Rightarrow> ustr \<Rightarrow> ('d, unit, unit) op"
  lo_text_delete :: "ustr \<Rightarrow> nat \<Rightarrow> nat \<Rightarrow> ('d, unit, unit) op"
  lo_text :: "ustr \<Rightarrow> 'd \<Rightarrow> ustr"
  lo_map_insert :: "ustr \<Rightarrow> ustr \<Rightarrow> ustr \<Rightarrow> ('d, unit, unit) op"
  lo_map_delete :: "ustr \<Rightarrow> ustr \<Rightarrow> ('d, unit, unit) op"
  lo_map_get :: "ustr \<Rightarrow> ustr \<Rightarrow> 'd \<Rightarrow> loro_value option"
  lo_map_keys :: "ustr \<Rightarrow> 'd \<Rightarrow> ustr list"
  lo_commit :: "'d \<Rightarrow> 'd"
  lo_commit_at :: "int \<Rightarrow> 'd \<Rightarrow> 'd"
  lo_import :: "bytes \<Rightarrow> ('d, unit, import_status) op"
  lo_oplog_vv :: "'d \<Rightarrow> 'v"
  lo_export_snapshot :: "('d, unit, bytes) op"
  lo_export_updates :: "'v \<Rightarrow> ('d, unit, bytes) op"
  lo_export_shallow :: "'f \<Rightarrow> ('d, unit, bytes) op"
  lo_oplog_frontiers :: "'d \<Rightarrow> 'f"
  lo_checkout :: "'f \<Rightarrow> ('d, unit, unit) op"
  lo_checkout_latest :: "'d \<Rightarrow> 'd"
  lo_vv_encode :: "'v \<Rightarrow> bytes"
  lo_vv_decode :: "bytes \<Rightarrow> 'v option"
  lo_includes_vv :: "'v \<Rightarrow> 'v \<Rightarrow> bool"
  lo_frontier_encode :: "'f \<Rightarrow> bytes"
  lo_frontier_decode :: "bytes \<Rightarrow> 'f option"

datatype crdt_error = LoroError | ForeignAuthor peer peer | FrontierNotRetained

text \<open>A call on the document that only passes loro's error on.\<close>

definition loro_call :: "('d, unit, 'a) op \<Rightarrow> ('d, crdt_error, 'a) op" where
  "loro_call m = errE (\<lambda>_. LoroError) m"

definition CHANGE_MERGE_SECS :: int where "CHANGE_MERGE_SECS = 10"

definition doc_setup :: "('d, 'v, 'f) loro \<Rightarrow> peer \<Rightarrow> ('d, crdt_error, unit) op" where
  "doc_setup L peer_id =
     bindE (loro_call (lo_set_peer_id L peer_id)) (\<lambda>_ d.
       (Inr (), lo_set_change_merge_interval L CHANGE_MERGE_SECS (lo_set_record_timestamp L True d)))"

definition doc_of :: "('d, crdt_error, unit) op \<Rightarrow> 'd \<Rightarrow> (crdt_error, 'd) res" where
  "doc_of m d = (case m d of (Inr _, d') \<Rightarrow> Inr d' | (Inl e, _) \<Rightarrow> Inl e)"

definition doc_new :: "('d, 'v, 'f) loro \<Rightarrow> peer \<Rightarrow> (crdt_error, 'd) res" where
  "doc_new L peer_id = doc_of (doc_setup L peer_id) (lo_new L)"

definition doc_from_snapshot :: "('d, 'v, 'f) loro \<Rightarrow> peer \<Rightarrow> bytes \<Rightarrow> (crdt_error, 'd) res" where
  "doc_from_snapshot L peer_id snapshot =
     doc_of (bindE (loro_call (lo_import L snapshot)) (\<lambda>_. doc_setup L peer_id)) (lo_new L)"

definition doc_insert_text :: "('d, 'v, 'f) loro \<Rightarrow> ustr \<Rightarrow> nat \<Rightarrow> ustr \<Rightarrow> ('d, crdt_error, unit) op" where
  "doc_insert_text L i pos s = loro_call (lo_text_insert L i pos s)"

definition doc_delete_text :: "('d, 'v, 'f) loro \<Rightarrow> ustr \<Rightarrow> nat \<Rightarrow> nat \<Rightarrow> ('d, crdt_error, unit) op" where
  "doc_delete_text L i pos len = loro_call (lo_text_delete L i pos len)"

definition doc_text :: "('d, 'v, 'f) loro \<Rightarrow> ustr \<Rightarrow> 'd \<Rightarrow> ustr" where
  "doc_text L i d = lo_text L i d"

definition doc_set_entry :: "('d, 'v, 'f) loro \<Rightarrow> ustr \<Rightarrow> ustr \<Rightarrow> ustr \<Rightarrow> ('d, crdt_error, unit) op" where
  "doc_set_entry L m k v = loro_call (lo_map_insert L m k v)"

definition doc_remove_entry :: "('d, 'v, 'f) loro \<Rightarrow> ustr \<Rightarrow> ustr \<Rightarrow> ('d, crdt_error, unit) op" where
  "doc_remove_entry L m k = loro_call (lo_map_delete L m k)"

definition doc_get_entry :: "('d, 'v, 'f) loro \<Rightarrow> ustr \<Rightarrow> ustr \<Rightarrow> 'd \<Rightarrow> ustr option" where
  "doc_get_entry L m k d = (case lo_map_get L m k d of Some (LString s) \<Rightarrow> Some s | _ \<Rightarrow> None)"

definition doc_entries :: "('d, 'v, 'f) loro \<Rightarrow> ustr \<Rightarrow> 'd \<Rightarrow> (ustr \<times> ustr) list" where
  "doc_entries L m d = List.map_filter (\<lambda>k. map_option (\<lambda>v. (k, v)) (doc_get_entry L m k d)) (lo_map_keys L m d)"

definition doc_import :: "('d, 'v, 'f) loro \<Rightarrow> bytes \<Rightarrow> ('d, crdt_error, unit) op" where
  "doc_import L b = bindE (loro_call (lo_import L b)) (\<lambda>_. returnE ())"

text \<open>The update is first imported into a throwaway document, which tells the peers it names.\<close>

definition doc_import_authored_by :: "('d, 'v, 'f) loro \<Rightarrow> peer \<Rightarrow> bytes \<Rightarrow> ('d, crdt_error, unit) op" where
  "doc_import_authored_by L author b d =
     (case lo_import L b (lo_new L) of
        (Inl _, _) \<Rightarrow> (Inl LoroError, d)
      | (Inr status, _) \<Rightarrow>
          let peers = is_success status @ (case is_pending status of None \<Rightarrow> [] | Some ps \<Rightarrow> ps) in
          case find (\<lambda>p. p \<noteq> author) peers of
            Some found \<Rightarrow> (Inl (ForeignAuthor author found), d)
          | None \<Rightarrow> doc_import L b d)"

definition version_dominates :: "('d, 'v, 'f) loro \<Rightarrow> bytes \<Rightarrow> bytes \<Rightarrow> bool" where
  "version_dominates L a b =
     (case (lo_vv_decode L a, lo_vv_decode L b) of
        (Some v, Some w) \<Rightarrow> lo_includes_vv L v w
      | _ \<Rightarrow> False)"

text \<open>The peers an update names when it is imported into an empty document.\<close>

definition update_peers :: "('d, 'v, 'f) loro \<Rightarrow> bytes \<Rightarrow> peer set" where
  "update_peers L b =
     (case lo_import L b (lo_new L) of
        (Inl _, _) \<Rightarrow> {}
      | (Inr st, _) \<Rightarrow> set (is_success st) \<union> (case is_pending st of None \<Rightarrow> {} | Some ps \<Rightarrow> set ps))"

lemma import_authored_by_ok:
  assumes "doc_import_authored_by L author b d = (Inr u, d')"
  shows "update_peers L b \<subseteq> {author}" "doc_import L b d = (Inr u, d')"
  using assms
  by (auto simp: doc_import_authored_by_def update_peers_def find_None_iff Let_def split: prod.splits sum.splits option.splits)

lemma import_authored_by_foreign:
  assumes "p \<in> update_peers L b" "p \<noteq> author"
  shows "\<exists>q. doc_import_authored_by L author b d = (Inl (ForeignAuthor author q), d)"
proof -
  obtain st d1 where st: "lo_import L b (lo_new L) = (Inr st, d1)"
    "p \<in> set (is_success st @ (case is_pending st of None \<Rightarrow> [] | Some ps \<Rightarrow> ps))"
    using assms(1) by (auto simp: update_peers_def split: prod.splits sum.splits option.splits)
  then obtain q where "find (\<lambda>p. p \<noteq> author) (is_success st @ (case is_pending st of None \<Rightarrow> [] | Some ps \<Rightarrow> ps)) = Some q"
    using assms(2) by (metis (mono_tags, lifting) find_None_iff not_None_eq)
  then show ?thesis using st(1) by (simp add: doc_import_authored_by_def Let_def)
qed

end
