(* ===== verification/Role_Clock.thy ===== *)
theory Role_Clock
  imports Roster_Merge
begin

text \<open>
  The clock of role decisions (\<open>next_role_lamport\<close> and \<open>role_of\<close> in \<open>roam-storage/src/store.rs\<close>) against
  the gap rule of the merge: a decision stamped with the next clock value decides the role when the
  clock values seen so far were all spent on role decisions, and is ignored when one of them was spent
  on a device name.
\<close>

definition max_lamport :: "roster_entry list \<Rightarrow> peer \<Rightarrow> u64" where
  "max_lamport es s = fold max (map re_lamport (filter (\<lambda>e. re_subject_peer e = s) es)) 0"

definition next_lamport :: "roster_entry list \<Rightarrow> peer \<Rightarrow> u64" where
  "next_lamport es s = sat_add64 (max_lamport es s) 1"

definition role_of :: "peer_record list \<Rightarrow> peer \<Rightarrow> role option" where
  "role_of peers s = map_option pr_role (find (\<lambda>p. pr_peer_id p = s) peers)"

lemma fold_max_ge: "x \<in> insert a (set xs) \<Longrightarrow> x \<le> fold max xs a" for a :: "'a::linorder"
proof (induction xs arbitrary: a x)
  case (Cons b xs)
  have "max b a \<le> fold max xs (max b a)" by (rule Cons.IH) simp
  then show ?case using Cons by auto
qed simp

lemma max_lamport_ge: "e \<in> set es \<Longrightarrow> re_lamport e \<le> max_lamport es (re_subject_peer e)"
  unfolding max_lamport_def by (rule fold_max_ge) auto

lemma max_lamport_snoc:
  "max_lamport (es @ [e]) s = (if re_subject_peer e = s then max (re_lamport e) (max_lamport es s) else max_lamport es s)"
  by (simp add: max_lamport_def)

lemma next_lamport_succ: "max_lamport es s \<noteq> - 1 \<Longrightarrow> next_lamport es s = max_lamport es s + 1 \<and> max_lamport es s < next_lamport es s"
proof -
  assume "max_lamport es s \<noteq> - 1"
  then have "max_lamport es s < - 1" by (simp add: word_order.not_eq_extremum)
  then have "unat (max_lamport es s) + 1 < 2 ^ 64" by (simp add: word_less_nat_alt unsigned_minus_1_eq_mask mask_eq_exp_minus_1)
  then show ?thesis by (simp add: next_lamport_def sat_add64_def word_less_nat_alt unat_word_ariths(1))
qed

lemma max_u64_facts: "unat m + 2 < 2 ^ 64 \<Longrightarrow> m \<noteq> - 1 \<and> m + 1 \<noteq> - 1" for m :: u64
proof -
  assume m: "unat m + 2 < 2 ^ 64"
  have u: "unat (- 1 :: u64) = 2 ^ 64 - 1" by (simp add: unsigned_minus_1_eq_mask mask_eq_exp_minus_1)
  have "unat (m + 1) = unat m + 1" using m by (simp add: unat_word_ariths(1))
  then have "unat m \<noteq> unat (- 1 :: u64)" "unat (m + 1) \<noteq> unat (- 1 :: u64)" using m by (simp_all add: u)
  then show ?thesis by (metis (no_types))
qed

lemma role_of_winning: "role_of (merge_roster es f) s = Some r \<longleftrightarrow> winning (trusted_set (set es) f) s r"
proof -
  have "find (\<lambda>p. pr_peer_id p = s) ps = Some p \<longleftrightarrow> p \<in> set ps \<and> pr_peer_id p = s"
    if "distinct (map pr_peer_id ps)" for ps :: "peer_record list" and p
    using that by (induction ps) (auto simp: image_iff)
  moreover have "distinct (map pr_peer_id (merge_roster es f))"
    using merge_roster_sorted [of es f] by (simp add: strict_sorted_iff)
  ultimately have "role_of (merge_roster es f) s = Some r \<longleftrightarrow>
      (\<exists>p \<in> set (merge_roster es f). pr_peer_id p = s \<and> pr_role p = r)"
    by (auto simp: role_of_def)
  also have "\<dots> \<longleftrightarrow> (s, r) \<in> (\<lambda>(s, r, _). (s, r)) ` set (privileges (merge_roster es f))"
    by (force simp: privileges_def)
  also have "\<dots> \<longleftrightarrow> winning (trusted_set (set es) f) s r" by (force simp: set_privileges)
  finally show ?thesis .
qed

text \<open>The role decisions about a subject after one more decision by an admin.\<close>

lemma trusted_decisions_snoc:
  assumes all: "\<forall>d \<in> set es. valid_entry d \<and> re_subject_peer d = s \<and> op_role (re_op d) \<noteq> None \<longrightarrow> d \<in> trusted_set (set es) f"
    and e: "valid_entry e" "re_subject_peer e = s" "op_role (re_op e) \<noteq> None"
      "admin_closure {d \<in> set es. valid_entry d} f (re_added_by e)"
    and d: "re_subject_peer d = s" "op_role (re_op d) \<noteq> None"
  shows "d \<in> trusted_set (set (es @ [e])) f \<longleftrightarrow> d = e \<or> d \<in> trusted_set (set es) f"
proof -
  have mono: "admin_closure {d \<in> set es. valid_entry d} f p \<Longrightarrow> admin_closure {d \<in> set (es @ [e]). valid_entry d} f p" for p
    by (erule admin_closure_mono) auto
  show ?thesis using all e d mono by (auto simp: trusted_set_def)
qed

text \<open>
  An admin's decision takes effect. When every role decision about the subject so far was made
  by an admin and the clock values up to the highest one seen for the subject were all spent on role
  decisions, a decision stamped with the next clock value is the subject's role after the merge.
\<close>

theorem role_decision_takes_effect:
  assumes all: "\<forall>d \<in> set es. valid_entry d \<and> re_subject_peer d = s \<and> op_role (re_op d) \<noteq> None \<longrightarrow> d \<in> trusted_set (set es) founder"
    and contiguous: "grant_lamports (trusted_set (set es) founder) s = {}
      \<or> grounded (grant_lamports (trusted_set (set es) founder) s) (Min (grant_lamports (trusted_set (set es) founder) s)) (max_lamport es s)"
    and fresh: "max_lamport es s \<noteq> - 1"
    and e: "valid_entry e" "re_subject_peer e = s" "op_role (re_op e) = Some r" "re_lamport e = next_lamport es s"
      "admin_closure {d \<in> set es. valid_entry d} founder (re_added_by e)"
  shows "role_of (merge_roster (es @ [e]) founder) s = Some r"
proof -
  let ?T = "trusted_set (set es) founder" and ?T' = "trusted_set (set (es @ [e])) founder"
  let ?G = "grant_lamports ?T s" and ?G' = "grant_lamports ?T' s" and ?M = "max_lamport es s"
  note nx = next_lamport_succ [OF fresh]
  have mem: "d \<in> ?T' \<longleftrightarrow> d = e \<or> d \<in> ?T" if "re_subject_peer d = s" "op_role (re_op d) \<noteq> None" for d
    using trusted_decisions_snoc [OF all e(1,2) _ e(5) that] e(3) by simp
  have "?G' = grant_lamports (insert e ?T) s" unfolding grant_lamports_def using mem by auto
  then have G': "?G' = insert (?M + 1) ?G" using e nx by (simp add: grant_lamports_insert)
  have le: "re_lamport d \<le> ?M" if "d \<in> ?T" "re_subject_peer d = s" for d
    using that max_lamport_ge [of d es] by (auto simp: trusted_set_def)
  have fin: "finite ?G" by (rule finite_subset [of _ "re_lamport ` set es"]) (auto simp: grant_lamports_def trusted_set_def)
  have "admissible ?T' s (?M + 1)"
  proof (cases "?G = {}")
    case True
    then show ?thesis unfolding admissible_def G' grounded_def by auto
  next
    case False
    have "x \<le> ?M" if "x \<in> ?G" for x using that le by (auto simp: grant_lamports_def)
    then have "Min ?G \<le> ?M" using Min_in [OF fin False] by blast
    then have "Min ?G < ?M + 1" using nx by (metis le_less_trans)
    then have "Min ?G' = Min ?G" unfolding G' Min_insert [OF fin False] by simp
    moreover have "y \<in> ?G'" if "Min ?G \<le> y" "y \<le> ?M + 1" for y
    proof (cases "y \<le> ?M")
      case True
      then show ?thesis unfolding G' using contiguous that(1) False unfolding grounded_def by blast
    next
      case False
      then have "y = ?M + 1" using inc_le [of ?M y] that(2) by (simp only: not_le order_antisym)
      then show ?thesis unfolding G' by blast
    qed
    ultimately show ?thesis unfolding admissible_def grounded_def by presburger
  qed
  moreover have lam: "re_lamport e = ?M + 1" using e(4) nx by simp
  moreover have "e \<in> ?T'" using mem [of e] e(2,3) by simp
  ultimately have top: "(?M + 1, re_added_by e, r) \<in> decisions ?T' s"
    using e(2,3) unfolding decisions_def by (intro CollectI exI [of _ e] exI [of _ r]) simp
  have "cand_rank d \<le> cand_rank (?M + 1, re_added_by e, r)" if "d \<in> decisions ?T' s" for d
  proof -
    from that obtain d' r' where d': "d = (re_lamport d', re_added_by d', r')" "d' \<in> ?T'" "re_subject_peer d' = s" "op_role (re_op d') = Some r'"
      by (auto simp: decisions_def)
    consider "d' = e" | "re_lamport d' \<le> ?M" using mem [of d'] le [of d'] d'(2-4) by auto
    then show ?thesis
    proof cases
      case 1
      then show ?thesis using d'(1,4) e(3) lam by simp
    next
      case 2
      then have "re_lamport d' < ?M + 1" using nx by (metis le_less_trans)
      then show ?thesis unfolding d'(1) by simp
    qed
  qed
  then have "winning ?T' s r" using top unfolding winning_def by blast
  then show ?thesis by (simp add: role_of_winning)
qed

definition ex_founder :: roster_entry where "ex_founder = ex_entry 1 1 (Add Admin) 1 1"
definition ex_member :: roster_entry where "ex_member = ex_entry 2 1 (Add Writer) 7 1"
definition ex_demote :: "u64 \<Rightarrow> roster_entry" where "ex_demote l = ex_entry 3 l (SetRole Reader) 7 1"
definition ex_naming :: roster_entry where "ex_naming = ex_entry 1 2 (SetName (lit ''a'')) 7 7"

lemmas ex_clock_defs = ex_founder_def ex_member_def ex_demote_def ex_naming_def

lemma ex_trusted_grants: "trusted_set {ex_founder, ex_member} (Some 1) = {ex_founder, ex_member}"
  by (auto simp: trusted_set_def ex_clock_defs intro: admin_closure.founder)

lemma ex_clock: "grant_lamports {ex_founder, ex_member} 7 = {1}" "max_lamport [ex_founder, ex_member] 7 = 1"
    "next_lamport [ex_founder, ex_member] 7 = 2" "max_lamport [ex_founder, ex_member, ex_naming] 7 = 2"
    "next_lamport [ex_founder, ex_member, ex_naming] 7 = 3"
  by (auto simp: grant_lamports_def [of "{}"] grant_lamports_insert ex_clock_defs max_lamport_def next_lamport_def sat_add64_def)

section \<open>Clock values spent on names\<close>

lemma admin_closure_insert_other:
  assumes "\<not> grants_admin x"
  shows "admin_closure (insert x E) f p \<longleftrightarrow> admin_closure E f p"
proof
  assume "admin_closure (insert x E) f p"
  then show "admin_closure E f p"
    by induction (use assms in \<open>auto intro: admin_closure.intros\<close>)
qed (erule admin_closure_mono, auto)

lemma trusted_set_insert_other:
  assumes "\<not> grants_admin x"
  shows "trusted_set (insert x E) f =
    trusted_set E f \<union> {d. d = x \<and> valid_entry x \<and> admin_closure {d \<in> E. valid_entry d} f (re_added_by x)}"
proof -
  have eq: "{d \<in> insert x E. valid_entry d} = (if valid_entry x then insert x {d \<in> E. valid_entry d} else {d \<in> E. valid_entry d})"
    by auto
  show ?thesis unfolding trusted_set_def eq using admin_closure_insert_other [OF assms] by auto
qed

text \<open>A decision whose clock skips a value above the grounded run decides nothing.\<close>

lemma gap_decisions:
  assumes fin: "finite G" "grant_lamports T s = G" "G \<noteq> {}"
    and below: "\<forall>x \<in> G. x \<le> m" "m < g" "g < l"
    and T': "grant_lamports T' s = G \<or> grant_lamports T' s = insert l G"
      "\<And>d. re_subject_peer d = s \<Longrightarrow> op_role (re_op d) \<noteq> None \<Longrightarrow> d \<in> T' \<longleftrightarrow> d \<in> T \<or> d = e \<and> Q"
      "re_lamport e = l"
  shows "decisions T' s = decisions T s"
proof -
  let ?G' = "grant_lamports T' s"
  have min: "Min G \<in> G" "Min G \<le> m" using fin below Min_in [of G] by auto
  then have "Min G < l" using below by (metis le_less_trans less_trans)
  then have min': "Min ?G' = Min G" using T'(1) Min_insert [OF fin(1,3), of l] by auto
  have "m < l" using below(2,3) by (rule less_trans)
  have adm: "admissible T' s x \<longleftrightarrow> admissible T s x" if "x \<le> m" for x
  proof -
    have "y \<in> ?G' \<longleftrightarrow> y \<in> G" if "y \<le> x" for y using that \<open>x \<le> m\<close> \<open>m < l\<close> T'(1) by auto
    then show ?thesis unfolding admissible_def grounded_def fin(2) min' by blast
  qed
  have "Min G \<le> g" "g \<notin> G" using min(2) below(1,2) by auto
  then have "g \<notin> ?G'" using T'(1) below(3) by auto
  then have no: "\<not> admissible T' s l"
    using \<open>Min G \<le> g\<close> less_imp_le [OF below(3)] unfolding admissible_def grounded_def min' by blast
  have "re_lamport d \<le> m" if "d \<in> T" "re_subject_peer d = s" "op_role (re_op d) \<noteq> None" for d
    using that below(1) fin(2) by (auto simp: grant_lamports_def)
  then have "e' \<in> T' \<and> admissible T' s (re_lamport e') \<longleftrightarrow> e' \<in> T \<and> admissible T s (re_lamport e')"
    if "re_subject_peer e' = s" "op_role (re_op e') = Some r" for e' r
    using T'(2) [OF that(1)] T'(3) adm no that by auto
  then show ?thesis unfolding decisions_def by blast
qed

text \<open>
  C13: a device that names itself freezes its role. A device name takes the next clock value of its
  device; the next role decision about the device then skips a value above the run of role decisions,
  the merge takes it for a forged clock, and the role stays what it was before.
\<close>

theorem role_change_after_naming_ignored:
  assumes known: "grant_lamports (trusted_set (set es) founder) s \<noteq> {}" and room: "unat (max_lamport es s) + 2 < 2 ^ 64"
    and n: "re_op n = SetName name" "re_subject_peer n = s" "re_lamport n = next_lamport es s"
    and e: "re_subject_peer e = s" "re_op e = SetRole r" "r \<noteq> Admin" "re_lamport e = next_lamport (es @ [n]) s"
  shows "role_of (merge_roster (es @ [n, e]) founder) s = role_of (merge_roster es founder) s"
proof -
  let ?T = "trusted_set (set es) founder" and ?T' = "trusted_set (set (es @ [n, e])) founder" and ?M = "max_lamport es s"
  have M: "?M \<noteq> - 1" "max_lamport (es @ [n]) s = ?M + 1" "?M + 1 \<noteq> - 1"
    using room next_lamport_succ [of es s] max_u64_facts [of ?M] n by (auto simp: max_lamport_snoc)
  have clocks: "?M < ?M + 1" "?M + 1 < re_lamport e"
    using next_lamport_succ [of es s] next_lamport_succ [of "es @ [n]" s] M e(4) by auto
  have ng: "\<not> grants_admin n" "\<not> grants_admin e" using n e by (auto simp: grants_admin_def)
  obtain P Q where T': "?T' = ?T \<union> {d. d = n \<and> P} \<union> {d. d = e \<and> Q}"
    using trusted_set_insert_other [OF ng(1), of "set es" founder] trusted_set_insert_other [OF ng(2), of "insert n (set es)" founder]
    by (auto simp: insert_commute)
  have mem: "d \<in> ?T' \<longleftrightarrow> d \<in> ?T \<or> d = e \<and> Q" if "op_role (re_op d) \<noteq> None" for d
    unfolding T' using that n(1) by auto
  have "grant_lamports ?T' s = grant_lamports (if Q then insert e ?T else ?T) s"
    unfolding grant_lamports_def using mem by auto
  then have G': "grant_lamports ?T' s = grant_lamports ?T s \<or> grant_lamports ?T' s = insert (re_lamport e) (grant_lamports ?T s)"
    using e by (simp add: grant_lamports_insert)
  have "finite (grant_lamports ?T s)"
    by (rule finite_subset [of _ "re_lamport ` set es"]) (auto simp: grant_lamports_def trusted_set_def)
  moreover have "\<forall>x \<in> grant_lamports ?T s. x \<le> ?M"
    using max_lamport_ge [of _ es] by (auto simp: grant_lamports_def trusted_set_def)
  ultimately have "decisions ?T' s = decisions ?T s"
    by (rule gap_decisions [OF _ refl known _ clocks G' mem refl])
  then have "winning ?T' s x \<longleftrightarrow> winning ?T s x" for x by (simp only: winning_def)
  then show ?thesis using role_of_winning by (metis not_Some_eq)
qed

theorem role_change_after_naming_ignored_witness:
  "role_of (merge_roster ([ex_founder, ex_member] @ [ex_naming, ex_demote 3]) (Some 1)) 7 = role_of (merge_roster [ex_founder, ex_member] (Some 1)) 7"
  by (rule role_change_after_naming_ignored [where name = "lit ''a''" and r = Reader])
     (simp_all add: ex_trusted_grants ex_clock, simp_all add: ex_clock_defs ex_clock [unfolded ex_clock_defs])

end
