(* ===== verification/Store.thy ===== *)
theory Store
  imports Founder Keychain Document Role_Clock
begin

text \<open>
  The vault store (\<open>roam-storage/src/store.rs\<close>): its state, the fixpoint that collects the roster
  entries of the trusted authors, and the membership operations. A store holds the disk it writes to;
  the file system, the document library and the codecs are the fields of \<open>vault_env\<close>. A hash map is
  an association list; the order in which \<open>keys()\<close> enumerates it is \<open>ve_order\<close>, since Rust leaves it
  open.
\<close>

record ('s, 'd, 'v, 'f) vault_env =
  ve_fs :: "'s vault_fs"
  ve_env :: env
  ve_crypto :: crypto
  ve_loro :: "('d, 'v, 'f) loro"
  ve_valid_key :: "bytes \<Rightarrow> bool"
  ve_x_secret :: "bytes \<Rightarrow> bytes"
  ve_to_x :: "bytes \<Rightarrow> bytes"
  ve_parse_op :: "ustr \<Rightarrow> entry_line option"
  ve_ser_op :: "entry_line \<Rightarrow> ustr"
  ve_parse_roster :: "ustr \<Rightarrow> roster_line option"
  ve_ser_roster :: "roster_line \<Rightarrow> ustr"
  ve_parse_key :: "ustr \<Rightarrow> key_line option"
  ve_ser_key :: "key_line \<Rightarrow> ustr"
  ve_ser_peers :: "peer_record list \<Rightarrow> bytes"
  ve_order :: "peer list \<Rightarrow> peer list"

record ('s, 'd, 'v) store =
  st_disk :: 's
  st_root :: path
  st_identity :: identity
  st_doc :: 'd
  st_persisted :: 'v
  st_peers :: "peer_record list"
  st_founder :: "peer option"

definition on_disk :: "('s, 'e, 'a) op \<Rightarrow> (('s, 'd, 'v) store, 'e, 'a) op" where
  "on_disk m st = (case m (st_disk st) of (r, s') \<Rightarrow> (r, st\<lparr>st_disk := s'\<rparr>))"

definition on_doc :: "('d, crdt_error, 'a) op \<Rightarrow> (('s, 'd, 'v) store, storage_error, 'a) op" where
  "on_doc m st = (case m (st_doc st) of (r, d') \<Rightarrow> (map_err (\<lambda>_. Crdt) r, st\<lparr>st_doc := d'\<rparr>))"

definition self_id :: "('s, 'd, 'v) store \<Rightarrow> peer" where
  "self_id st = id_peer_id (st_identity st)"

definition self_key :: "('s, 'd, 'v, 'f) vault_env \<Rightarrow> ('s, 'd, 'v) store \<Rightarrow> bytes" where
  "self_key V st = verifying_key (ve_env V) (st_identity st)"

section \<open>Collecting the trusted roster\<close>

definition derived_peer_id :: "bytes \<Rightarrow> peer" where
  "derived_peer_id key = u64_of_le (take 8 key)"

definition roster_dir :: "path \<Rightarrow> path" where
  "roster_dir root = sub_path root ''roster''"

text \<open>Trust in the founder is taken from the founder's own log, bound by the peer id.\<close>

definition seed_trust :: "('s, 'd, 'v, 'f) vault_env \<Rightarrow> path \<Rightarrow> peer \<Rightarrow> bytes \<Rightarrow> peer option
    \<Rightarrow> ('s, storage_error, (peer \<times> bytes) list) op" where
  "seed_trust V root self key founder =
     (let trusted = [(self, key)] in
      case founder of
        None \<Rightarrow> returnE trusted
      | Some fid \<Rightarrow>
          if map_of trusted fid \<noteq> None then returnE trusted
          else bindE (peek_self_key (ve_env V) (ve_parse_roster V) (roster_log_new (roster_dir root) fid (ve_fs V))) (\<lambda>fkey.
               case fkey of
                 Some k \<Rightarrow> if derived_peer_id k = fid then returnE (trusted @ [(fid, k)]) else returnE trusted
               | None \<Rightarrow> returnE trusted))"

definition learn :: "roster_entry \<Rightarrow> (peer \<times> bytes) list \<Rightarrow> (peer \<times> bytes) list" where
  "learn e trusted =
     (if derived_peer_id (re_subject_key e) \<noteq> re_subject_peer e then trusted
      else if map_of trusted (re_subject_peer e) = None then trusted @ [(re_subject_peer e, re_subject_key e)]
      else trusted)"

definition author_log :: "('s, 'd, 'v, 'f) vault_env \<Rightarrow> path \<Rightarrow> peer \<Rightarrow> bytes \<Rightarrow> ('s, storage_error, roster_entry list) op" where
  "author_log V root author key =
     roster_read_verified (ve_env V) (ve_parse_roster V) (roster_log_new (roster_dir root) author (ve_fs V)) key"

function collect_loop :: "('s, 'd, 'v, 'f) vault_env \<Rightarrow> path \<Rightarrow> (peer \<times> bytes) list \<Rightarrow> peer list \<Rightarrow> roster_entry list
    \<Rightarrow> ('s, storage_error, roster_entry list) op" where
  "collect_loop V root trusted processed acc s =
     (case find (\<lambda>a. a \<notin> set processed) (ve_order V (map fst trusted)) of
        None \<Rightarrow> (Inr acc, s)
      | Some author \<Rightarrow>
          let key = the (map_of trusted author) in
          if \<not> ve_valid_key V key then collect_loop V root trusted (author # processed) acc s
          else case author_log V root author key s of
                 (Inl _, s') \<Rightarrow> collect_loop V root trusted (author # processed) acc s'
               | (Inr es, s') \<Rightarrow> collect_loop V root (fold learn es trusted) (author # processed) (acc @ es) s')"
  by pat_completeness auto
termination
proof (relation "measure (\<lambda>(V, root, trusted, processed, acc, s). card (UNIV - set processed))", goal_cases)
  have dec: "card (UNIV - set (a # ps)) < card (UNIV - set ps)" if "find (\<lambda>a. a \<notin> set ps) xs = Some a" for a ps and xs :: "peer list"
  proof -
    have "a \<notin> set ps" using that by (auto simp: find_Some_iff)
    then show ?thesis by (intro psubset_card_mono) auto
  qed
  { case 2 then show ?case using dec by simp }
  { case 3 then show ?case using dec by simp }
  { case 4 then show ?case using dec by simp }
qed simp

declare collect_loop.simps [simp del]

definition collect_roster_entries :: "('s, 'd, 'v, 'f) vault_env \<Rightarrow> path \<Rightarrow> peer \<Rightarrow> bytes \<Rightarrow> peer option
    \<Rightarrow> ('s, storage_error, roster_entry list) op" where
  "collect_roster_entries V root self key founder =
     bindE (seed_trust V root self key founder) (\<lambda>trusted. collect_loop V root trusted [] [])"

definition rebuild_peers :: "('s, 'd, 'v, 'f) vault_env \<Rightarrow> path \<Rightarrow> peer \<Rightarrow> bytes \<Rightarrow> peer option
    \<Rightarrow> ('s, storage_error, peer_record list) op" where
  "rebuild_peers V root self key founder =
     bindE (collect_roster_entries V root self key founder) (\<lambda>es. returnE (merge_roster es founder))"

section \<open>Membership\<close>

definition write_peers_cache :: "('s, 'd, 'v, 'f) vault_env \<Rightarrow> (('s, 'd, 'v) store, storage_error, unit) op" where
  "write_peers_cache V st =
     (let p = sub_path (st_root st) ''peers.json''; tmp = with_extension p (lit ''json.tmp'') in
      on_disk
        (bindE (case path_parent p of Some d \<Rightarrow> errE Io (fs_create_dir_all (ve_fs V) d) | None \<Rightarrow> returnE ()) (\<lambda>_.
         bindE (errE Io (fs_write (ve_fs V) tmp (ve_ser_peers V (st_peers st)))) (\<lambda>_.
         errE Io (fs_rename (ve_fs V) tmp p)))) st)"

definition refresh_peers :: "('s, 'd, 'v, 'f) vault_env \<Rightarrow> (('s, 'd, 'v) store, storage_error, unit) op" where
  "refresh_peers V st =
     bindE (on_disk (rebuild_peers V (st_root st) (self_id st) (self_key V st) (st_founder st)))
       (\<lambda>peers st. write_peers_cache V (st\<lparr>st_peers := peers\<rparr>)) st"

definition next_role_lamport :: "('s, 'd, 'v, 'f) vault_env \<Rightarrow> peer \<Rightarrow> (('s, 'd, 'v) store, storage_error, u64) op" where
  "next_role_lamport V subject st =
     bindE (on_disk (collect_roster_entries V (st_root st) (self_id st) (self_key V st) (st_founder st)))
       (\<lambda>es. returnE (next_lamport es subject)) st"

definition find_peer :: "peer_record list \<Rightarrow> peer \<Rightarrow> peer_record option" where
  "find_peer ps p = find (\<lambda>r. pr_peer_id r = p) ps"

definition is_active_admin :: "('s, 'd, 'v) store \<Rightarrow> bool" where
  "is_active_admin st =
     (case find_peer (st_peers st) (self_id st) of
        Some p \<Rightarrow> pr_status p = Active \<and> pr_role p = Admin
      | None \<Rightarrow> False)"

definition require_admin :: "(('s, 'd, 'v) store, storage_error, unit) op" where
  "require_admin st = (if is_active_admin st then (Inr (), st) else (Inl Peer, st))"

definition check_peer_id_binding :: "peer \<Rightarrow> bytes \<Rightarrow> (('s, 'd, 'v) store, storage_error, unit) op" where
  "check_peer_id_binding p key = (if p \<noteq> derived_peer_id key then failE Peer else returnE ())"

definition own_roster_append :: "('s, 'd, 'v, 'f) vault_env \<Rightarrow> u64 \<Rightarrow> roster_op \<Rightarrow> peer \<Rightarrow> bytes
    \<Rightarrow> (('s, 'd, 'v) store, storage_error, unit) op" where
  "own_roster_append V lamport opn p key st =
     bindE (on_disk (roster_append (ve_env V) (ve_parse_roster V) (ve_ser_roster V)
         (roster_log_new (roster_dir (st_root st)) (self_id st) (ve_fs V)) (st_identity st) lamport opn p key))
       (\<lambda>_. returnE ()) st"

text \<open>The three admin operations differ only in the entry they sign.\<close>

definition admin_change :: "('s, 'd, 'v, 'f) vault_env \<Rightarrow> roster_op \<Rightarrow> peer \<Rightarrow> bytes
    \<Rightarrow> (('s, 'd, 'v) store, storage_error, unit) op" where
  "admin_change V opn p key =
     bindE require_admin (\<lambda>_.
     bindE (check_peer_id_binding p key) (\<lambda>_.
     bindE (next_role_lamport V p) (\<lambda>lamport.
     bindE (own_roster_append V lamport opn p key) (\<lambda>_.
     refresh_peers V))))"

definition add_peer :: "('s, 'd, 'v, 'f) vault_env \<Rightarrow> peer \<Rightarrow> bytes \<Rightarrow> role \<Rightarrow> (('s, 'd, 'v) store, storage_error, unit) op" where
  "add_peer V p key r = admin_change V (Add r) p key"

definition set_role :: "('s, 'd, 'v, 'f) vault_env \<Rightarrow> peer \<Rightarrow> bytes \<Rightarrow> role \<Rightarrow> (('s, 'd, 'v) store, storage_error, unit) op" where
  "set_role V p key r = admin_change V (SetRole r) p key"

definition revoke_peer :: "('s, 'd, 'v, 'f) vault_env \<Rightarrow> peer \<Rightarrow> bytes \<Rightarrow> (('s, 'd, 'v) store, storage_error, unit) op" where
  "revoke_peer V p key = admin_change V Revoke p key"

definition declare_founder :: "('s, 'd, 'v, 'f) vault_env \<Rightarrow> role \<Rightarrow> (('s, 'd, 'v) store, storage_error, unit) op" where
  "declare_founder V r st =
     (if r \<noteq> Admin then (Inl Peer, st)
      else bindE (on_disk (read_founder (ve_fs V) (st_root st))) (\<lambda>pin.
           if pin \<noteq> None then failE Peer
           else bindE (on_disk (write_founder (ve_fs V) (st_root st) (self_id st))) (\<lambda>_ st.
                bindE (next_role_lamport V (self_id st)) (\<lambda>lamport.
                bindE (own_roster_append V lamport (Add r) (self_id st) (self_key V st)) (\<lambda>_.
                refresh_peers V)) (st\<lparr>st_founder := Some (self_id st)\<rparr>))) st)"

definition set_device_name :: "('s, 'd, 'v, 'f) vault_env \<Rightarrow> ustr \<Rightarrow> (('s, 'd, 'v) store, storage_error, unit) op" where
  "set_device_name V name st =
     (if length name > MAX_NAME_LEN then (Inl Peer, st)
      else bindE (next_role_lamport V (self_id st)) (\<lambda>lamport.
           bindE (own_roster_append V lamport (SetName name) (self_id st) (self_key V st)) (\<lambda>_.
           refresh_peers V)) st)"

definition pin_founder :: "('s, 'd, 'v, 'f) vault_env \<Rightarrow> peer \<Rightarrow> (('s, 'd, 'v) store, storage_error, unit) op" where
  "pin_founder V p st =
     bindE (on_disk (read_founder (ve_fs V) (st_root st))) (\<lambda>pin.
       case pin of
         Some q \<Rightarrow> if q = p then returnE () else failE Peer
       | None \<Rightarrow>
           bindE (on_disk (write_founder (ve_fs V) (st_root st) p)) (\<lambda>_ st.
             refresh_peers V (st\<lparr>st_founder := Some p\<rparr>))) st"

definition self_role :: "('s, 'd, 'v) store \<Rightarrow> role option" where
  "self_role st = role_of (st_peers st) (self_id st)"

definition may_write :: "('s, 'd, 'v) store \<Rightarrow> bool" where
  "may_write st \<longleftrightarrow> self_role st = Some Writer \<or> self_role st = Some Admin"

end
