(* ===== verification/Roster_Trust.thy ===== *)
theory Roster_Trust
  imports Store
begin

text \<open>
  What the fixpoint of \<open>collect_roster_entries\<close> computes: the entries of the authors reachable from the
  seed by vouching. The closure is an inductive relation; the loop reaches it in any iteration order
  of the hash map, as long as no peer id is vouched for with two keys.
\<close>

inductive trusts :: "(bytes \<Rightarrow> bool) \<Rightarrow> (peer \<Rightarrow> bytes \<Rightarrow> roster_entry list option) \<Rightarrow> (peer \<times> bytes) set \<Rightarrow> peer \<times> bytes \<Rightarrow> bool"
  for valid :: "bytes \<Rightarrow> bool" and L :: "peer \<Rightarrow> bytes \<Rightarrow> roster_entry list option" and S :: "(peer \<times> bytes) set" where
  seed: "x \<in> S \<Longrightarrow> trusts valid L S x"
| vouch: "trusts valid L S (a, k) \<Longrightarrow> valid k \<Longrightarrow> L a k = Some es \<Longrightarrow> e \<in> set es
    \<Longrightarrow> derived_peer_id (re_subject_key e) = re_subject_peer e
    \<Longrightarrow> trusts valid L S (re_subject_peer e, re_subject_key e)"

definition logs_of :: "(bytes \<Rightarrow> bool) \<Rightarrow> (peer \<Rightarrow> bytes \<Rightarrow> roster_entry list option) \<Rightarrow> (peer \<times> bytes) set \<Rightarrow> roster_entry set" where
  "logs_of valid L A = {e. \<exists>a k es. (a, k) \<in> A \<and> valid k \<and> L a k = Some es \<and> e \<in> set es}"

definition vouched :: "(bytes \<Rightarrow> bool) \<Rightarrow> (peer \<Rightarrow> bytes \<Rightarrow> roster_entry list option) \<Rightarrow> (peer \<times> bytes) set \<Rightarrow> roster_entry set" where
  "vouched valid L S = logs_of valid L {x. trusts valid L S x}"

definition one_key_each :: "(bytes \<Rightarrow> bool) \<Rightarrow> (peer \<Rightarrow> bytes \<Rightarrow> roster_entry list option) \<Rightarrow> (peer \<times> bytes) set \<Rightarrow> bool" where
  "one_key_each valid L S \<longleftrightarrow> (\<forall>a k k'. trusts valid L S (a, k) \<and> trusts valid L S (a, k') \<longrightarrow> k = k')"

lemma learn_props:
  "distinct (map fst tr) \<Longrightarrow> distinct (map fst (learn e tr))"
  "set tr \<subseteq> set (learn e tr)"
  "set (learn e tr) \<subseteq> set tr \<union> {(re_subject_peer e, re_subject_key e) | _::unit. derived_peer_id (re_subject_key e) = re_subject_peer e}"
  "derived_peer_id (re_subject_key e) = re_subject_peer e \<Longrightarrow> re_subject_peer e \<in> fst ` set (learn e tr)"
  by (auto simp: learn_def map_of_eq_None_iff)

lemma fold_learn_props:
  "distinct (map fst tr) \<Longrightarrow> distinct (map fst (fold learn es tr))"
  "set tr \<subseteq> set (fold learn es tr)"
  "set (fold learn es tr) \<subseteq> set tr \<union>
     {(re_subject_peer e, re_subject_key e) | e. e \<in> set es \<and> derived_peer_id (re_subject_key e) = re_subject_peer e}"
  "e \<in> set es \<Longrightarrow> derived_peer_id (re_subject_key e) = re_subject_peer e \<Longrightarrow> re_subject_peer e \<in> fst ` set (fold learn es tr)"
proof (induction es arbitrary: tr)
  case (Cons d es)
  { case 1 then show ?case using Cons(1) learn_props(1) by simp }
  { case 2 then show ?case using Cons(2) [of "learn d tr"] learn_props(2) [of tr d] by auto }
  { case 3 then show ?case using Cons(3) [of "learn d tr"] learn_props(3) [of d tr] by force }
  { case 4
    have "fst ` set (learn d tr) \<subseteq> fst ` set (fold learn es (learn d tr))" using Cons(2) [of "learn d tr"] by auto
    then show ?case using 4 Cons(4) [of "learn d tr"] learn_props(4) [of d tr] by auto }
qed auto

definition log_view :: "('s, 'd, 'v, 'f) vault_env \<Rightarrow> path \<Rightarrow> 's \<Rightarrow> peer \<Rightarrow> bytes \<Rightarrow> roster_entry list option" where
  "log_view V root s a k = (case fst (author_log V root a k s) of Inl _ \<Rightarrow> None | Inr es \<Rightarrow> Some es)"

text \<open>The state of the loop: what is trusted was vouched for, and the logs already read are in \<open>acc\<close>.\<close>

definition loop_inv :: "(bytes \<Rightarrow> bool) \<Rightarrow> (peer \<Rightarrow> bytes \<Rightarrow> roster_entry list option) \<Rightarrow> (peer \<times> bytes) set
    \<Rightarrow> (peer \<times> bytes) list \<Rightarrow> peer list \<Rightarrow> roster_entry list \<Rightarrow> bool" where
  "loop_inv valid L S tr ps acc \<longleftrightarrow>
     distinct (map fst tr) \<and> S \<subseteq> set tr \<and> (\<forall>x \<in> set tr. trusts valid L S x) \<and> set ps \<subseteq> fst ` set tr
     \<and> set acc = logs_of valid L {x \<in> set tr. fst x \<in> set ps}
     \<and> (\<forall>e \<in> set acc. derived_peer_id (re_subject_key e) = re_subject_peer e \<longrightarrow> re_subject_peer e \<in> fst ` set tr)"

lemma loop_inv_skip:
  assumes inv: "loop_inv valid L S tr ps acc" and a: "(a, k) \<in> set tr" and no: "\<not> valid k \<or> L a k = None"
  shows "loop_inv valid L S tr (a # ps) acc"
proof -
  have "k' = k" if "(a, k') \<in> set tr" for k'
    using that a inv by (auto simp: loop_inv_def dest: eq_key_imp_eq_value)
  then have eq: "logs_of valid L {x \<in> set tr. fst x \<in> set (a # ps)} = logs_of valid L {x \<in> set tr. fst x \<in> set ps}"
    using no unfolding logs_of_def by (auto; blast)
  have "a \<in> fst ` set tr" using imageI [OF a, of fst] by simp
  then have "set (a # ps) \<subseteq> fst ` set tr" using inv by (simp add: loop_inv_def)
  then show ?thesis using inv unfolding loop_inv_def eq by blast
qed

lemma loop_inv_read:
  assumes inv: "loop_inv valid L S tr ps acc" and a: "(a, k) \<in> set tr" "a \<notin> set ps" and es: "valid k" "L a k = Some es"
  shows "loop_inv valid L S (fold learn es tr) (a # ps) (acc @ es)"
proof -
  note l = fold_learn_props [where tr = tr and es = es]
  have d: "distinct (map fst (fold learn es tr))" using l(1) inv by (simp add: loop_inv_def)
  have key: "k' = k'' " if "(b, k') \<in> set (fold learn es tr)" "(b, k'') \<in> set (fold learn es tr)" for b k' k''
    using d that by (auto dest: eq_key_imp_eq_value)
  have same: "x \<in> set tr" if x: "x \<in> set (fold learn es tr)" and f: "fst x \<in> fst ` set tr" for x
  proof -
    obtain b k' where xb: "x = (b, k')" by (cases x)
    then obtain k'' where k'': "(b, k'') \<in> set tr" using f by auto
    then show ?thesis using key [of b k' k''] x l(2) xb by blast
  qed
  have ps: "set ps \<subseteq> fst ` set tr" "a \<in> fst ` set tr" using inv imageI [OF a(1), of fst] by (simp_all add: loop_inv_def)
  have "{x \<in> set (fold learn es tr). fst x \<in> set (a # ps)} = {x \<in> set tr. fst x \<in> set (a # ps)}"
  proof -
    have "fst x \<in> fst ` set tr" if "fst x \<in> set (a # ps)" for x :: "peer \<times> bytes" using that ps by auto
    then show ?thesis using same l(2) by blast
  qed
  also have "\<dots> = insert (a, k) {x \<in> set tr. fst x \<in> set ps}"
  proof -
    have "k' = k" if "(a, k') \<in> set tr" for k' using that a(1) key [of a k' k] l(2) by blast
    then have "x = (a, k)" if "x \<in> set tr" "fst x = a" for x using that by (metis prod.collapse)
    moreover have "fst (a, k) = a" by simp
    ultimately show ?thesis using a(1) unfolding list.set by blast
  qed
  finally have split: "{x \<in> set (fold learn es tr). fst x \<in> set (a # ps)} = insert (a, k) {x \<in> set tr. fst x \<in> set ps}" .
  have "logs_of valid L (insert (a, k) X) = logs_of valid L X \<union> set es" for X
    using es by (auto simp: logs_of_def)
  then have logs: "logs_of valid L {x \<in> set (fold learn es tr). fst x \<in> set (a # ps)} = set (acc @ es)"
    unfolding split using inv by (simp add: loop_inv_def)
  have t: "trusts valid L S (a, k)" using inv a by (simp add: loop_inv_def)
  have all: "trusts valid L S x" if "x \<in> set (fold learn es tr)" for x
    using that l(3) inv trusts.vouch [OF t es] unfolding loop_inv_def by blast
  have sub: "fst ` set tr \<subseteq> fst ` set (fold learn es tr)" using l(2) by (rule image_mono)
  have "re_subject_peer e \<in> fst ` set (fold learn es tr)"
    if "e \<in> set (acc @ es)" "derived_peer_id (re_subject_key e) = re_subject_peer e" for e
    using that inv l(4) sub unfolding loop_inv_def by auto
  moreover have "S \<subseteq> set (fold learn es tr)" "set (a # ps) \<subseteq> fst ` set (fold learn es tr)"
    using inv l(2) ps sub unfolding loop_inv_def by auto
  ultimately show ?thesis unfolding loop_inv_def logs using d all by blast
qed

lemma loop_inv_done:
  assumes inv: "loop_inv valid L S tr ps acc" and all: "fst ` set tr \<subseteq> set ps" and one: "one_key_each valid L S"
  shows "set acc = vouched valid L S"
proof -
  have "x \<in> set tr" if "trusts valid L S x" for x
    using that
  proof induction
    case (seed x)
    then show ?case using inv by (auto simp: loop_inv_def)
  next
    case (vouch a k es e)
    have "(a, k) \<in> {x \<in> set tr. fst x \<in> set ps}" using vouch all by force
    then have "e \<in> set acc" using inv vouch.hyps by (auto simp: loop_inv_def logs_of_def)
    then obtain k' where k': "(re_subject_peer e, k') \<in> set tr" using inv vouch.hyps by (force simp: loop_inv_def)
    moreover have "trusts valid L S (re_subject_peer e, k')" using k' inv by (auto simp: loop_inv_def)
    ultimately show ?case using one trusts.vouch [OF vouch.hyps(1-5)] unfolding one_key_each_def by metis
  qed
  then have "{x \<in> set tr. fst x \<in> set ps} = {x. trusts valid L S x}" using inv all by (force simp: loop_inv_def)
  then show ?thesis using inv by (simp add: loop_inv_def vouched_def)
qed

section \<open>The loop on a lawful backend\<close>

definition order_ok :: "(peer list \<Rightarrow> peer list) \<Rightarrow> bool" where
  "order_ok ord \<longleftrightarrow> (\<forall>ks. set (ord ks) = set ks)"

context lawful_fs
begin

lemma read_verified_state: "ok s \<Longrightarrow> snd (read_verified fs p parse chk s) = s"
  using read_to_string_ok [of s p]
  by (auto simp: read_verified_def split: prod.splits sum.splits io_kind.splits)

lemma author_log_state:
  assumes "ok s" "ve_fs V = fs"
  shows "author_log V root a k s = (fst (author_log V root a k s), s)"
  using read_verified_state [OF assms(1)]
  by (simp add: author_log_def roster_read_verified_def roster_log_new_def assms(2) prod_eq_iff)

lemma collect_loop_result:
  assumes s: "ok s" "ve_fs V = fs" "order_ok (ve_order V)"
    and inv: "loop_inv (ve_valid_key V) (log_view V root s) S tr ps acc"
    and one: "one_key_each (ve_valid_key V) (log_view V root s) S"
  shows "\<exists>es. collect_loop V root tr ps acc s = (Inr es, s) \<and> set es = vouched (ve_valid_key V) (log_view V root s) S"
  using s inv one
proof (induction V root tr ps acc s rule: collect_loop.induct)
  case (1 V root tr ps acc s)
  let ?valid = "ve_valid_key V" and ?L = "log_view V root s"
  note simps = collect_loop.simps [of V root tr ps acc s]
  show ?case
  proof (cases "find (\<lambda>a. a \<notin> set ps) (ve_order V (map fst tr))")
    case None
    then have "fst ` set tr \<subseteq> set ps" using "1.prems"(3) by (auto simp: find_None_iff order_ok_def)
    then have "set acc = vouched ?valid ?L S" by (rule loop_inv_done [OF "1.prems"(4) _ "1.prems"(5)])
    then show ?thesis by (simp add: simps None)
  next
    case (Some a)
    have ord: "set (ve_order V (map fst tr)) = fst ` set tr" using "1.prems"(3) by (simp add: order_ok_def)
    obtain as where as: "a \<in> set (ve_order V (map fst tr))" "a \<notin> set ps"
      using Some by (auto simp: find_Some_iff)
    have dist: "distinct (map fst tr)" using "1.prems"(4) by (simp add: loop_inv_def)
    obtain k where k: "(a, k) \<in> set tr" using as(1) ord by auto
    then have key: "map_of tr a = Some k" using dist by simp
    note st = author_log_state [OF "1.prems"(1,2), of root a k]
    show ?thesis
    proof (cases "?valid k")
      case False
      then show ?thesis
        using "1.IH"(1) [OF Some refl] "1.prems" loop_inv_skip [OF "1.prems"(4) k] by (simp add: simps Some key)
    next
      case valid: True
      show ?thesis
      proof (cases "fst (author_log V root a k s)")
        case (Inl e)
        then have eq: "author_log V root a k s = (Inl e, s)" using st by simp
        have "?L a k = None" using Inl by (simp add: log_view_def)
        then have inv': "loop_inv ?valid ?L S tr (a # ps) acc" using loop_inv_skip [OF "1.prems"(4) k] by simp
        show ?thesis
          using "1.IH"(2) [OF Some refl] "1.prems"(1-3,5) inv' valid eq by (simp add: simps Some key)
      next
        case (Inr es)
        then have eq: "author_log V root a k s = (Inr es, s)" using st by simp
        have "?L a k = Some es" using Inr by (simp add: log_view_def)
        then have inv': "loop_inv ?valid ?L S (fold learn es tr) (a # ps) (acc @ es)"
          using loop_inv_read [OF "1.prems"(4) k as(2) valid] by simp
        show ?thesis
          using "1.IH"(3) [OF Some refl] "1.prems"(1-3,5) inv' valid eq by (simp add: simps Some key)
      qed
    qed
  qed
qed

lemma peek_state: "ok s \<Longrightarrow> rlog_fs rl = fs \<Longrightarrow> snd (peek_self_key E parse rl s) = s"
  using read_to_string_ok [of s "rlog_path rl"]
  by (auto simp: peek_self_key_def split: prod.splits sum.splits io_kind.splits)

lemma seed_trust_state:
  assumes "ok s" "ve_fs V = fs"
  shows "snd (seed_trust V root self key f s) = s"
    and "fst (seed_trust V root self key f s) = Inr tr \<Longrightarrow> distinct (map fst tr) \<and> (self, key) \<in> set tr"
proof -
  let ?m = "\<lambda>fid. peek_self_key (ve_env V) (ve_parse_roster V) (roster_log_new (roster_dir root) fid (ve_fs V))"
  have m: "snd (?m fid s) = s" for fid using peek_state [OF assms(1)] assms(2) by (simp add: roster_log_new_def)
  show "snd (seed_trust V root self key f s) = s"
    using m [of "the f"]
    by (cases "?m (the f) s") (auto simp: seed_trust_def bindE_def Let_def split: option.splits sum.splits)
  show "distinct (map fst tr) \<and> (self, key) \<in> set tr" if "fst (seed_trust V root self key f s) = Inr tr"
    using that
    by (cases "?m (the f) s") (auto simp: seed_trust_def bindE_def Let_def split: option.splits sum.splits if_splits)
qed

text \<open>The roster of a disk is the merge of what the trusted authors' logs say.\<close>

lemma collect_result:
  assumes "ok s" "ve_fs V = fs" "order_ok (ve_order V)" "fst (seed_trust V root self key f s) = Inr tr"
    and "one_key_each (ve_valid_key V) (log_view V root s) (set tr)"
  shows "\<exists>es. collect_roster_entries V root self key f s = (Inr es, s)
    \<and> set es = vouched (ve_valid_key V) (log_view V root s) (set tr)"
proof -
  have st: "seed_trust V root self key f s = (Inr tr, s)"
    using seed_trust_state(1) [OF assms(1,2)] assms(4) by (simp add: prod_eq_iff)
  have "loop_inv (ve_valid_key V) (log_view V root s) (set tr) tr [] []"
    using seed_trust_state(2) [OF assms(1,2,4)] by (auto simp: loop_inv_def logs_of_def intro: trusts.seed)
  from collect_loop_result [OF assms(1-3) this assms(5)] show ?thesis
    using st by (simp add: collect_roster_entries_def)
qed

end

section \<open>The guarantee\<close>


text \<open>A vault environment over the slot pool with the toy codecs and a document library that does nothing.\<close>

definition toy_loro :: "(unit, unit, unit) loro" where
  "toy_loro = \<lparr>lo_new = (), lo_set_peer_id = \<lambda>_. returnE (), lo_set_record_timestamp = \<lambda>_ d. d,
     lo_set_change_merge_interval = \<lambda>_ d. d, lo_text_insert = \<lambda>_ _ _. returnE (), lo_text_delete = \<lambda>_ _ _. returnE (),
     lo_text = \<lambda>_ _. [], lo_map_insert = \<lambda>_ _ _. returnE (), lo_map_delete = \<lambda>_ _. returnE (), lo_map_get = \<lambda>_ _ _. None,
     lo_map_keys = \<lambda>_ _. [], lo_commit = \<lambda>d. d, lo_commit_at = \<lambda>_ d. d,
     lo_import = \<lambda>_. returnE \<lparr>is_success = [], is_pending = None\<rparr>, lo_oplog_vv = \<lambda>_. (),
     lo_export_snapshot = returnE [], lo_export_updates = \<lambda>_. returnE [], lo_export_shallow = \<lambda>_. returnE [],
     lo_oplog_frontiers = \<lambda>_. (), lo_checkout = \<lambda>_. returnE (), lo_checkout_latest = \<lambda>d. d,
     lo_vv_encode = \<lambda>_. [], lo_vv_decode = \<lambda>_. Some (), lo_includes_vv = \<lambda>_ _. True,
     lo_frontier_encode = \<lambda>_. [], lo_frontier_decode = \<lambda>_. Some ()\<rparr>"

definition toy_vault :: "(pool, unit, unit, unit) vault_env" where
  "toy_vault = \<lparr>ve_fs = pool_fs, ve_env = toy_env, ve_crypto = toy_crypto, ve_loro = toy_loro, ve_valid_key = \<lambda>_. True,
     ve_x_secret = \<lambda>k. k, ve_to_x = \<lambda>k. k, ve_parse_op = toy_parse ex_line, ve_ser_op = \<lambda>_. toy_json,
     ve_parse_roster = toy_parse (roster_line_of toy_env ex_id ex_rentry), ve_ser_roster = \<lambda>_. toy_json,
     ve_parse_key = \<lambda>_. None, ve_ser_key = \<lambda>_. toy_json, ve_ser_peers = \<lambda>_. [], ve_order = \<lambda>ks. ks\<rparr>"

lemma toy_read: "read_verified pool_fs p parse chk ex_pool = (Inr [], ex_pool)"
  using slots.read_verified_eq [OF ex_pool_ok, of p "[]" parse chk] by (simp add: ex_pool_files verify_text_def)

lemma toy_log_view: "log_view toy_vault root ex_pool a k = Some []"
  by (simp add: log_view_def author_log_def roster_read_verified_def roster_log_new_def toy_vault_def toy_read)

lemma toy_trusts: "trusts (ve_valid_key toy_vault) (log_view toy_vault root ex_pool) S x \<longleftrightarrow> x \<in> S"
proof
  assume "trusts (ve_valid_key toy_vault) (log_view toy_vault root ex_pool) S x"
  then show "x \<in> S" by induction (simp_all add: toy_log_view)
qed (rule trusts.seed)


end
