(* ===== verification/Store_Sync.thy ===== *)
theory Store_Sync
  imports Roster_Trust
begin

text \<open>
  The parts of the store (\<open>roam-storage/src/store.rs\<close>) that peers can reach: exporting logs, importing
  roster, key and operation logs, and merging received operations. A received log is verified before
  it is written, and the calls are the steps of a transition relation along which stored logs only
  grow and the device's own logs never change.
\<close>

definition ops_dir :: "path \<Rightarrow> path" where
  "ops_dir root = sub_path root ''ops''"

definition keylog_dir :: "path \<Rightarrow> path" where
  "keylog_dir root = sub_path root ''keylog''"

definition op_log_path :: "path \<Rightarrow> peer \<Rightarrow> path" where
  "op_log_path root a = log_path (ops_dir root) ''ops-'' a"

definition roster_log_path :: "path \<Rightarrow> peer \<Rightarrow> path" where
  "roster_log_path root a = log_path (roster_dir root) ''roster-'' a"

definition key_log_path :: "path \<Rightarrow> peer \<Rightarrow> path" where
  "key_log_path root a = log_path (keylog_dir root) ''keylog-'' a"

section \<open>Exporting logs\<close>

definition read_or_empty :: "'s vault_fs \<Rightarrow> path \<Rightarrow> ('s, storage_error, bytes) op" where
  "read_or_empty fs p s =
     (case fs_read fs p s of
        (Inr b, s') \<Rightarrow> (Inr b, s')
      | (Inl NotFound, s') \<Rightarrow> (Inr [], s')
      | (Inl e, s') \<Rightarrow> (Inl (Io e), s'))"

definition export_peer_log :: "('s, 'd, 'v, 'f) vault_env \<Rightarrow> peer \<Rightarrow> (('s, 'd, 'v) store, storage_error, bytes) op" where
  "export_peer_log V p st = on_disk (read_or_empty (ve_fs V) (op_log_path (st_root st) p)) st"

definition export_own_log :: "('s, 'd, 'v, 'f) vault_env \<Rightarrow> (('s, 'd, 'v) store, storage_error, bytes) op" where
  "export_own_log V st = on_disk (read_or_empty (ve_fs V) (op_log_path (st_root st) (self_id st))) st"

definition export_own_roster :: "('s, 'd, 'v, 'f) vault_env \<Rightarrow> (('s, 'd, 'v) store, storage_error, bytes) op" where
  "export_own_roster V st = on_disk (read_or_empty (ve_fs V) (roster_log_path (st_root st) (self_id st))) st"

definition export_keylog :: "('s, 'd, 'v, 'f) vault_env \<Rightarrow> peer \<Rightarrow> (('s, 'd, 'v) store, storage_error, bytes) op" where
  "export_keylog V p st = on_disk (read_or_empty (ve_fs V) (key_log_path (st_root st) p)) st"

definition export_own_keylog :: "('s, 'd, 'v, 'f) vault_env \<Rightarrow> (('s, 'd, 'v) store, storage_error, bytes) op" where
  "export_own_keylog V st = export_keylog V (self_id st) st"

text \<open>\<open>str::parse::<u64>\<close>: an optional plus sign and decimal digits that fit.\<close>

definition parse_u64 :: "ustr \<Rightarrow> u64 option" where
  "parse_u64 s =
     (let ds = (if s \<noteq> [] \<and> hd s = 43 then tl s else s) in
      if ds \<noteq> [] \<and> list_all (\<lambda>c. 48 \<le> c \<and> c \<le> 57) ds \<and> num_of ds < 2 ^ 64 then Some (of_nat (num_of ds)) else None)"

definition str_strip_prefix :: "ustr \<Rightarrow> ustr \<Rightarrow> ustr option" where
  "str_strip_prefix p s = (if take (length p) s = p then Some (drop (length p) s) else None)"

definition str_strip_suffix :: "ustr \<Rightarrow> ustr \<Rightarrow> ustr option" where
  "str_strip_suffix p s = map_option rev (str_strip_prefix (rev p) (rev s))"

definition roster_author_of :: "path \<Rightarrow> peer option" where
  "roster_author_of entry =
     Option.bind (file_name entry) (\<lambda>name.
     Option.bind (str_strip_prefix (lit ''roster-'') name) (\<lambda>rest.
     Option.bind (str_strip_suffix (lit ''.jsonl'') rest) parse_u64))"

fun read_rosters :: "'s vault_fs \<Rightarrow> path list \<Rightarrow> ('s, storage_error, (peer \<times> bytes) list) op" where
  "read_rosters fs [] = returnE []"
| "read_rosters fs (entry # es) =
     (case roster_author_of entry of
        None \<Rightarrow> read_rosters fs es
      | Some author \<Rightarrow>
          bindE (errE Io (fs_read fs entry)) (\<lambda>b.
          bindE (read_rosters fs es) (\<lambda>rest. returnE ((author, b) # rest))))"

definition export_all_rosters :: "('s, 'd, 'v, 'f) vault_env \<Rightarrow> (('s, 'd, 'v) store, storage_error, (peer \<times> bytes) list) op" where
  "export_all_rosters V st =
     on_disk (\<lambda>s. case fs_read_dir (ve_fs V) (roster_dir (st_root st)) s of
         (Inr entries, s') \<Rightarrow> read_rosters (ve_fs V) entries s'
       | (Inl NotFound, s') \<Rightarrow> (Inr [], s')
       | (Inl e, s') \<Rightarrow> (Inl (Io e), s')) st"

section \<open>Importing roster and key logs\<close>

definition starts_with :: "bytes \<Rightarrow> bytes \<Rightarrow> bool" where
  "starts_with b p \<longleftrightarrow> take (length p) b = p"

text \<open>Logs are append-only: bytes that do not extend the stored log are refused.\<close>

definition refuse_fork :: "'s vault_fs \<Rightarrow> path \<Rightarrow> bytes \<Rightarrow> ('s, storage_error, unit) op" where
  "refuse_fork fs p b s =
     (case fs_read fs p s of
        (Inr existing, s') \<Rightarrow> (if starts_with b existing then Inr () else Inl Peer, s')
      | (Inl _, s') \<Rightarrow> (Inr (), s'))"

definition import_roster :: "('s, 'd, 'v, 'f) vault_env \<Rightarrow> peer \<Rightarrow> bytes \<Rightarrow> bytes
    \<Rightarrow> (('s, 'd, 'v) store, storage_error, unit) op" where
  "import_roster V author key b st =
     (if author = self_id st then (Inl Peer, st)
      else let p = roster_log_path (st_root st) author in
           bindE (on_disk (errE Io (fs_create_dir_all (ve_fs V) (roster_dir (st_root st))))) (\<lambda>_.
           bindE (on_disk (refuse_fork (ve_fs V) p b)) (\<lambda>_.
           bindE (liftE (roster_verify_bytes (ve_env V) (ve_parse_roster V) author key b)) (\<lambda>_.
           bindE (on_disk (errE Io (fs_write (ve_fs V) p b))) (\<lambda>_.
           refresh_peers V)))) st)"

definition bundle_step :: "'s vault_fs \<Rightarrow> path \<Rightarrow> peer \<Rightarrow> peer \<times> bytes \<Rightarrow> ('s, storage_error, unit) op" where
  "bundle_step fs root me ab s =
     (case ab of (author, b) \<Rightarrow>
        if author = me then (Inr (), s)
        else let p = roster_log_path root author in
             case fs_read fs p s of
               (Inr existing, s') \<Rightarrow> if starts_with b existing then errE Io (fs_write fs p b) s' else (Inr (), s')
             | (Inl _, s') \<Rightarrow> errE Io (fs_write fs p b) s')"

definition import_roster_bundle :: "('s, 'd, 'v, 'f) vault_env \<Rightarrow> (peer \<times> bytes) list
    \<Rightarrow> (('s, 'd, 'v) store, storage_error, unit) op" where
  "import_roster_bundle V logs st =
     bindE (on_disk (errE Io (fs_create_dir_all (ve_fs V) (roster_dir (st_root st))))) (\<lambda>_.
     bindE (on_disk (eachE (bundle_step (ve_fs V) (st_root st) (self_id st)) logs)) (\<lambda>_.
     refresh_peers V)) st"

definition import_keylog :: "('s, 'd, 'v, 'f) vault_env \<Rightarrow> peer \<Rightarrow> bytes \<Rightarrow> bytes
    \<Rightarrow> (('s, 'd, 'v) store, storage_error, unit) op" where
  "import_keylog V author key b st =
     (if author = self_id st then (Inl Peer, st)
      else let p = key_log_path (st_root st) author in
           bindE (on_disk (errE Io (fs_create_dir_all (ve_fs V) (keylog_dir (st_root st))))) (\<lambda>_.
           bindE (on_disk (refuse_fork (ve_fs V) p b)) (\<lambda>_.
           bindE (liftE (key_verify_bytes (ve_env V) (ve_parse_key V) author key b)) (\<lambda>_.
           on_disk (errE Io (fs_write (ve_fs V) p b))))) st)"

section \<open>Importing operations\<close>

text \<open>Every update must name only its author; each is probed in a fresh document.\<close>

fun check_authors :: "('d, 'v, 'f) loro \<Rightarrow> peer \<Rightarrow> peer \<Rightarrow> op_entry list \<Rightarrow> (storage_error, unit) res" where
  "check_authors L self author [] = Inr ()"
| "check_authors L self author (e # es) =
     bind_r (map_err (\<lambda>_. Crdt) (doc_new L self)) (\<lambda>probe.
     bind_r (map_err (\<lambda>_. Crdt) (fst (doc_import_authored_by L author (oe_update e) probe))) (\<lambda>_.
     check_authors L self author es))"

text \<open>Verification before anything is written: every line signed, every update by its author.\<close>

definition verify_authored :: "('s, 'd, 'v, 'f) vault_env \<Rightarrow> peer \<Rightarrow> peer \<Rightarrow> bytes \<Rightarrow> bytes \<Rightarrow> (storage_error, op_entry list) res" where
  "verify_authored V self p key b =
     bind_r (oplog_verify_bytes (ve_env V) (ve_parse_op V) p key b) (\<lambda>entries.
     bind_r (check_authors (ve_loro V) self p entries) (\<lambda>_. Inr entries))"

definition may_send_ops :: "('s, 'd, 'v) store \<Rightarrow> peer \<Rightarrow> bool" where
  "may_send_ops st p =
     (case find_peer (st_peers st) p of
        Some r \<Rightarrow> pr_status r = Active \<and> pr_role r \<noteq> Reader
      | None \<Rightarrow> False)"

definition refuse_shrink :: "'s vault_fs \<Rightarrow> path \<Rightarrow> bytes \<Rightarrow> ('s, storage_error, unit) op" where
  "refuse_shrink fs p b s =
     (case fs_read fs p s of
        (Inr existing, s') \<Rightarrow> (if length b < length existing then Inl Peer else Inr (), s')
      | (Inl _, s') \<Rightarrow> (Inr (), s'))"

definition merge_entries :: "('s, 'd, 'v, 'f) vault_env \<Rightarrow> op_entry list \<Rightarrow> (('s, 'd, 'v) store, storage_error, unit) op" where
  "merge_entries V es =
     bindE (eachE (\<lambda>e. on_doc (doc_import (ve_loro V) (oe_update e))) es) (\<lambda>_ st.
       let d = lo_commit (ve_loro V) (st_doc st) in
       (Inr (), st\<lparr>st_doc := d, st_persisted := lo_oplog_vv (ve_loro V) d\<rparr>))"

definition import_peer :: "('s, 'd, 'v, 'f) vault_env \<Rightarrow> peer \<Rightarrow> bytes \<Rightarrow> bytes
    \<Rightarrow> (('s, 'd, 'v) store, storage_error, unit) op" where
  "import_peer V p key b st =
     (if \<not> may_send_ops st p then (Inl Peer, st)
      else if p = self_id st then (Inl Peer, st)
      else let path = op_log_path (st_root st) p in
           bindE (on_disk (errE Io (fs_create_dir_all (ve_fs V) (ops_dir (st_root st))))) (\<lambda>_.
           bindE (on_disk (refuse_shrink (ve_fs V) path b)) (\<lambda>_.
           bindE (liftE (verify_authored V (self_id st) p key b)) (\<lambda>entries.
           bindE (on_disk (errE Io (fs_write (ve_fs V) path b))) (\<lambda>_.
           merge_entries V entries)))) st)"

text \<open>The longest suffix of the stored log that the received bytes start with.\<close>

definition ends_with :: "bytes \<Rightarrow> bytes \<Rightarrow> bool" where
  "ends_with b q \<longleftrightarrow> length q \<le> length b \<and> drop (length b - length q) b = q"

definition overlap :: "bytes \<Rightarrow> bytes \<Rightarrow> nat" where
  "overlap stored appended =
     (case find (\<lambda>k. ends_with stored (take k appended)) (rev [1..<Suc (min (length stored) (length appended))]) of
        None \<Rightarrow> 0
      | Some k \<Rightarrow> k)"

definition merge_log :: "bytes \<Rightarrow> bytes \<Rightarrow> bytes" where
  "merge_log stored appended =
     (if starts_with appended stored then appended
      else if starts_with stored appended then stored
      else stored @ drop (overlap stored appended) appended)"

definition apply_peer_ops :: "('s, 'd, 'v, 'f) vault_env \<Rightarrow> peer \<Rightarrow> bytes \<Rightarrow> bytes
    \<Rightarrow> (('s, 'd, 'v) store, storage_error, unit) op" where
  "apply_peer_ops V author key appended st =
     (if author = self_id st then (Inr (), st)
      else bindE (export_peer_log V author) (\<lambda>stored. import_peer V author key (merge_log stored appended)) st)"

text \<open>Splitting a log into lines that keep their newline.\<close>

fun split_lines :: "bytes \<Rightarrow> bytes \<Rightarrow> bytes list" where
  "split_lines cur [] = (if cur = [] then [] else [cur])"
| "split_lines cur (b # bs) = (if b = 10 then (cur @ [b]) # split_lines [] bs else split_lines (cur @ [b]) bs)"

definition split_log_lines_bytes :: "bytes \<Rightarrow> bytes list" where
  "split_log_lines_bytes log = split_lines [] log"

definition end_line :: "bytes \<Rightarrow> bytes" where
  "end_line w = (if \<not> ends_with w [10] then w @ [10] else w)"

definition add_line :: "bytes \<Rightarrow> bytes \<Rightarrow> bytes" where
  "add_line whole line = (if whole \<noteq> [] then end_line whole else whole) @ line"

definition dedup_log :: "bytes \<Rightarrow> bytes \<Rightarrow> bytes option" where
  "dedup_log existing line =
     (if line \<in> set (split_log_lines_bytes existing) then None else Some (end_line (add_line existing line)))"

definition dedup_append_peer_line :: "('s, 'd, 'v, 'f) vault_env \<Rightarrow> peer \<Rightarrow> bytes \<Rightarrow> bytes
    \<Rightarrow> (('s, 'd, 'v) store, storage_error, unit) op" where
  "dedup_append_peer_line V author key line st =
     (if author = self_id st then (Inr (), st)
      else bindE (export_peer_log V author) (\<lambda>existing.
           case dedup_log existing line of
             None \<Rightarrow> returnE ()
           | Some whole \<Rightarrow> import_peer V author key whole) st)"

text \<open>The batch: the lines already seen, the log built so far and the number of lines added.\<close>

definition batch_step :: "bytes \<Rightarrow> bytes list \<times> bytes \<times> nat \<Rightarrow> bytes list \<times> bytes \<times> nat" where
  "batch_step line st =
     (case st of (seen, whole, added) \<Rightarrow>
        if line \<in> set seen then (seen, whole, added) else (line # seen, add_line whole line, added + 1))"

definition dedup_append_peer_lines :: "('s, 'd, 'v, 'f) vault_env \<Rightarrow> peer \<Rightarrow> bytes \<Rightarrow> bytes list
    \<Rightarrow> (('s, 'd, 'v) store, storage_error, nat) op" where
  "dedup_append_peer_lines V author key lines st =
     (if author = self_id st then (Inr 0, st)
      else bindE (export_peer_log V author) (\<lambda>existing.
           case fold batch_step lines (split_log_lines_bytes existing, existing, 0) of
             (seen, whole, added) \<Rightarrow>
               if added = 0 then returnE 0
               else bindE (import_peer V author key (end_line whole)) (\<lambda>_. returnE added)) st)"

section \<open>Merging logs\<close>

lemma starts_with_append [simp]: "starts_with (p @ q) p" "starts_with p p"
  by (simp_all add: starts_with_def)

lemma starts_with_iff: "starts_with b p \<longleftrightarrow> (\<exists>q. b = p @ q)"
  unfolding starts_with_def by (metis append_eq_conv_conj)

lemma merge_log_extends: "starts_with (merge_log stored appended) stored"
  by (simp add: merge_log_def)

lemma end_line_extends: "starts_with (end_line w) w"
  by (simp add: end_line_def)

lemma add_line_extends: "starts_with (add_line w l) w"
  by (auto simp: add_line_def end_line_def starts_with_def)

lemma starts_with_trans: "starts_with a b \<Longrightarrow> starts_with b c \<Longrightarrow> starts_with a c"
  by (auto simp: starts_with_iff)

lemma batch_extends:
  "fold batch_step lines (seen, w, n) = (seen', w', n') \<Longrightarrow> starts_with w' w"
proof (induction lines arbitrary: seen w n)
  case (Cons l ls)
  show ?case
  proof (cases "l \<in> set seen")
    case True
    then show ?thesis using Cons by (simp add: batch_step_def)
  next
    case False
    then have "starts_with w' (add_line w l)" using Cons by (simp add: batch_step_def)
    then show ?thesis using add_line_extends by (rule starts_with_trans)
  qed
qed simp

lemma find_mem: "find P xs = Some x \<Longrightarrow> x \<in> set xs \<and> P x"
  by (auto simp: find_Some_iff)

text \<open>Lines that end in their only newline.\<close>

definition line_ok :: "bytes \<Rightarrow> bool" where
  "line_ok l \<longleftrightarrow> l \<noteq> [] \<and> last l = 10 \<and> 10 \<notin> set (butlast l)"

lemma line_ok_snoc: "line_ok l \<longleftrightarrow> (\<exists>b. l = b @ [10] \<and> 10 \<notin> set b)"
  unfolding line_ok_def by (metis append_butlast_last_id butlast_snoc last_snoc snoc_eq_iff_butlast)

lemma split_lines_line: "10 \<notin> set b \<Longrightarrow> split_lines cur (b @ 10 # bs) = (cur @ b @ [10]) # split_lines [] bs"
  by (induction b arbitrary: cur) auto

lemma split_complete: "list_all line_ok ls \<Longrightarrow> split_log_lines_bytes (concat ls) = ls"
proof (induction ls)
  case (Cons l ls)
  then obtain b where "l = b @ [10]" "10 \<notin> set b" by (auto simp: line_ok_snoc)
  then show ?case using Cons by (simp add: split_log_lines_bytes_def split_lines_line)
qed (simp add: split_log_lines_bytes_def)

lemma ends_with_newline: "ends_with w [10] \<longleftrightarrow> w \<noteq> [] \<and> last w = 10"
  by (cases w rule: rev_cases) (auto simp: ends_with_def)

lemma concat_last: "list_all line_ok ls \<Longrightarrow> concat ls \<noteq> [] \<Longrightarrow> last (concat ls) = 10"
  by (induction ls rule: rev_induct) (auto simp: line_ok_def)

lemma end_line_concat: "list_all line_ok ls \<Longrightarrow> concat ls \<noteq> [] \<Longrightarrow> end_line (concat ls) = concat ls"
  by (simp add: end_line_def ends_with_newline concat_last)

lemma add_line_concat: "list_all line_ok ls \<Longrightarrow> line_ok l \<Longrightarrow> add_line (concat ls) l = concat (ls @ [l])"
  using end_line_concat [of ls] by (cases "concat ls = []") (simp_all add: add_line_def)

lemma dedup_log_concat:
  assumes "list_all line_ok ls" "line_ok l"
  shows "dedup_log (concat ls) l = (if l \<in> set ls then None else Some (concat (ls @ [l])))"
  using end_line_concat [of "ls @ [l]"] assms by (simp add: dedup_log_def split_complete add_line_concat line_ok_def)

definition single_step :: "bytes \<Rightarrow> bytes \<Rightarrow> bytes" where
  "single_step l w = (case dedup_log w l of None \<Rightarrow> w | Some w' \<Rightarrow> w')"

lemma batch_singles:
  assumes "list_all line_ok lines" "list_all line_ok ls" "set seen = set ls"
  shows "\<exists>seen' ls' n'. fold batch_step lines (seen, concat ls, n) = (seen', concat ls', n')
    \<and> fold single_step lines (concat ls) = concat ls' \<and> list_all line_ok ls' \<and> n \<le> n' \<and> length ls' = length ls + (n' - n) \<and> (n' = n \<longrightarrow> ls' = ls)"
  using assms
proof (induction lines arbitrary: ls seen n)
  case (Cons l lines)
  show ?case
  proof (cases "l \<in> set ls")
    case True
    then show ?thesis
      using Cons.IH [of ls seen n] Cons.prems by (simp add: batch_step_def single_step_def dedup_log_concat)
  next
    case False
    have "fold batch_step (l # lines) (seen, concat ls, n) = fold batch_step lines (l # seen, concat (ls @ [l]), n + 1)"
      using False Cons.prems add_line_concat [of ls l] by (simp add: batch_step_def)
    moreover have "fold single_step (l # lines) (concat ls) = fold single_step lines (concat (ls @ [l]))"
      using False Cons.prems by (simp add: single_step_def dedup_log_concat)
    moreover obtain seen' ls' n' where "fold batch_step lines (l # seen, concat (ls @ [l]), n + 1) = (seen', concat ls', n')"
      "fold single_step lines (concat (ls @ [l])) = concat ls'" "list_all line_ok ls'" "n + 1 \<le> n'" "length ls' = Suc (length ls) + (n' - (n + 1))"
      using Cons.IH [of "ls @ [l]" "l # seen" "n + 1"] Cons.prems by (auto simp del: concat_append)
    ultimately show ?thesis by (intro exI [of _ seen'] exI [of _ ls'] exI [of _ n']) simp
  qed
qed auto

text \<open>
  A log whose lines are told apart: no line occurs twice and no line is the tail of another one. Then a
  received tail of the log lines up with the stored prefix in one way only.
\<close>

definition log_lines_ok :: "bytes list \<Rightarrow> bool" where
  "log_lines_ok ls \<longleftrightarrow> list_all line_ok ls \<and> distinct ls \<and> (\<forall>a \<in> set ls. \<forall>b \<in> set ls. \<forall>x. a = x @ b \<longrightarrow> x = [])"

lemma first_line_unique:
  assumes "line_ok a" "line_ok b" "a @ x = b @ y"
  shows "a = b \<and> x = y"
proof -
  obtain a' b' where ab: "a = a' @ [10]" "10 \<notin> set a'" "b = b' @ [10]" "10 \<notin> set b'"
    using assms(1,2) by (auto simp: line_ok_snoc)
  then have "split_lines [] (a @ x) = a # split_lines [] x" "split_lines [] (b @ y) = b # split_lines [] y"
    using split_lines_line by simp_all
  then have "a = b" using assms(3) by simp
  then show ?thesis using assms(3) by simp
qed

text \<open>A tail of whole lines that starts a log of lines starts at a line.\<close>

lemma concat_tail_line:
  assumes "list_all line_ok ls" "concat ls = p @ q" "q \<noteq> []" "line_ok b" "q = b @ r"
  shows "\<exists>n x. n < length ls \<and> ls ! n = x @ b \<and> p = concat (take n ls) @ x \<and> r = concat (drop (Suc n) ls)"
  using assms
proof (induction ls arbitrary: p)
  case (Cons l ls)
  show ?case
  proof (cases "length l \<le> length p")
    case True
    then obtain p' where p': "p = l @ p'" "concat ls = p' @ q"
      using Cons.prems(2) by (auto simp: append_eq_append_conv2)
    then show ?thesis
      using Cons.IH [of p'] Cons.prems by (metis Suc_less_eq append.assoc concat.simps(2) drop_Suc_Cons length_Cons list.pred_inject(2) nth_Cons_Suc take_Suc_Cons)
  next
    case False
    then obtain y where y: "l = p @ y" "q = y @ concat ls" "y \<noteq> []"
      using Cons.prems(2) by (auto simp: append_eq_append_conv2)
    have "line_ok y" using Cons.prems(1) y(1,3) by (auto simp: line_ok_def butlast_append)
    then have "y = b" "concat ls = r" using first_line_unique [of y b "concat ls" r] Cons.prems(4,5) y(2) by auto
    then show ?thesis using y(1) by (intro exI [of _ 0] exI [of _ p]) auto
  qed
qed simp

lemma line_prefix:
  assumes "line_ok b" "q @ z = b @ y" "q \<noteq> []" "last q = 10"
  shows "\<exists>r. q = b @ r"
proof (rule ccontr)
  assume no: "\<nexists>r. q = b @ r"
  then obtain w where w: "b = q @ w" "w \<noteq> []" using assms(2) by (auto simp: append_eq_append_conv2)
  then have "last q \<in> set (butlast b)" using assms(3) by (simp add: butlast_append)
  then show False using assms(1,4) by (simp add: line_ok_def)
qed

lemma overlap_aligned:
  assumes ok: "log_lines_ok ls" and ij: "j < length ls" "i \<le> length ls"
    and k: "1 \<le> k" "k \<le> length (concat (drop j ls))" "ends_with (concat (take i ls)) (take k (concat (drop j ls)))"
  shows "j < i \<and> k + length (concat (take j ls)) = length (concat (take i ls))"
proof -
  let ?S = "concat (take i ls)" and ?A = "concat (drop j ls)" and ?q = "take k (concat (drop j ls))"
  have lines: "list_all line_ok (take i ls)" "list_all line_ok ls"
    using ok by (auto simp: log_lines_ok_def list_all_iff dest: in_set_takeD)
  have b: "line_ok (ls ! j)" using lines(2) ij(1) by (simp add: list_all_length)
  have A: "?A = ls ! j @ concat (drop (Suc j) ls)" using ij(1) by (metis Cons_nth_drop_Suc concat.simps(2))
  have len: "length ?q = k" using k(2) by simp
  then have q: "?q \<noteq> []" using k(1) by (metis list.size(3) not_one_le_zero)
  obtain p where p: "?S = p @ ?q" using k(3) by (metis append_take_drop_id ends_with_def)
  have "last ?q = last ?S" using p q by simp
  also have "\<dots> = 10" using concat_last [OF lines(1)] p q by simp
  finally have l: "last ?q = 10" .
  have "?q @ drop k ?A = ls ! j @ concat (drop (Suc j) ls)" unfolding append_take_drop_id by (rule A)
  from line_prefix [OF b this q l] obtain r where r: "?q = ls ! j @ r" by blast
  obtain n x where n: "n < length (take i ls)" "take i ls ! n = x @ ls ! j" "p = concat (take n (take i ls)) @ x"
    using concat_tail_line [OF lines(1) p q b r] by blast
  then have nx: "ls ! n = x @ ls ! j" "n < length ls" "n < i" by simp_all
  then have "x = []" using ok nth_mem [OF nx(2)] nth_mem [OF ij(1)] unfolding log_lines_ok_def by blast
  then have "n = j" using nx ok ij(1) by (simp add: log_lines_ok_def nth_eq_iff_index_eq)
  then have "p = concat (take j ls)" using n(3) \<open>x = []\<close> nx(3) by (simp add: min_def)
  then show ?thesis using p len nx(3) \<open>n = j\<close> by (metis add.commute length_append)
qed

text \<open>
  C17: a racing tail is merged without loss or repetition. When the store holds a prefix of a log's
  lines and receives a tail that starts at or before the end of the prefix, merging the two gives the
  whole log, for a log in which no line repeats and no line ends in another one.
\<close>

theorem merge_log_recovers:
  assumes ok: "log_lines_ok ls" and ij: "j \<le> i" "i \<le> length ls"
  shows "merge_log (concat (take i ls)) (concat (drop j ls)) = concat ls"
proof (cases "j = 0 \<or> j = length ls")
  case True
  have "take i ls = ls" if "j = length ls" using that ij by simp
  moreover have "starts_with (concat ls) (concat (take i ls))"
    by (metis append_take_drop_id concat_append starts_with_append(1))
  ultimately show ?thesis using True by (auto simp: merge_log_def starts_with_def [of "[]"] starts_with_def [of _ "[]"])
next
  case False
  let ?S = "concat (take i ls)" and ?A = "concat (drop j ls)" and ?k = "length (concat (drop j (take i ls)))"
  have j: "j < length ls" "0 < j" "0 < length ls" using False ij by auto
  have lines: "line_ok (ls ! n)" if "n < length ls" for n using ok that by (simp add: log_lines_ok_def list_all_length)
  have A: "?A = ls ! j @ concat (drop (Suc j) ls)" using j(1) by (metis Cons_nth_drop_Suc concat.simps(2))
  have S: "?S = ls ! 0 @ concat (take (i - 1) (tl ls))" using j ij by (cases ls; cases i) auto
  have "distinct ls" using ok by (simp add: log_lines_ok_def)
  then have "ls ! j \<noteq> ls ! 0" using j nth_eq_iff_index_eq [of ls j 0] by (metis gr_implies_not0 not_gr_zero)
  then have ne: "ls ! 0 @ x \<noteq> ls ! j @ y" for x y using first_line_unique [of "ls ! 0" "ls ! j" x y] lines [OF j(3)] lines [OF j(1)] by auto
  have "\<not> starts_with ?A ?S" "\<not> starts_with ?S ?A"
    unfolding starts_with_iff S A using ne by (metis append.assoc)+
  moreover have "overlap ?S ?A = ?k"
  proof (cases "find (\<lambda>k. ends_with ?S (take k ?A)) (rev [1..<Suc (min (length ?S) (length ?A))])")
    case (Some k)
    from find_mem [OF this] have "1 \<le> k" "k \<le> length ?A" "ends_with ?S (take k ?A)" by auto
    then have "k + length (concat (take j ls)) = length ?S" using overlap_aligned [OF ok j(1) ij(2)] by blast
    moreover have "length ?S = length (concat (take j ls)) + ?k"
      using ij by (metis append_take_drop_id concat_append length_append min.absorb1 take_take)
    ultimately show ?thesis using Some by (simp add: overlap_def)
  next
    case None
    have "?S = concat (take j ls) @ concat (drop j (take i ls))"
      using ij by (metis append_take_drop_id concat_append min.absorb1 take_take)
    moreover have "?A = concat (drop j (take i ls)) @ concat (drop i ls)"
      using ij by (metis append_take_drop_id concat_append drop_take le_add_diff_inverse add.commute drop_drop)
    ultimately have "ends_with ?S (take ?k ?A)" "?k \<le> min (length ?S) (length ?A)" by (simp_all add: ends_with_def)
    moreover have "\<forall>k \<in> set (rev [1..<Suc (min (length ?S) (length ?A))]). \<not> ends_with ?S (take k ?A)"
      using None by (metis find_None_iff)
    ultimately have "\<not> 1 \<le> ?k" by (metis atLeastLessThan_iff less_Suc_eq_le set_rev set_upt)
    then have "?k = 0" by linarith
    then show ?thesis using None by (simp add: overlap_def)
  qed
  moreover have "?A = concat (drop j (take i ls)) @ concat (drop i ls)"
    using ij by (metis append_take_drop_id concat_append drop_take le_add_diff_inverse add.commute drop_drop)
  ultimately show ?thesis by (simp add: merge_log_def) (metis append_take_drop_id concat_append)
qed

theorem merge_log_recovers_witness:
  "merge_log (concat (take 2 [[1, 10], [2, 10], [3, 10 :: byte]])) (concat (drop 1 [[1, 10], [2, 10], [3, 10]])) = [1, 10, 2, 10, 3, 10]"
  using merge_log_recovers [of "[[1, 10], [2, 10], [3, 10]]" 1 2]
  by (auto simp: log_lines_ok_def line_ok_def append_eq_Cons_conv)

text \<open>
  Batching changes only how often a log is verified. For lines that end in their only newline
  and a stored log of such lines, the batch hands over the log that appending the lines one at a time
  would have built, and reports no new line exactly when the log stays as it is.
\<close>

theorem batch_builds_same_log:
  assumes "list_all line_ok ls" "list_all line_ok lines"
  shows "case fold batch_step lines (split_log_lines_bytes (concat ls), concat ls, 0) of
    (seen, whole, added) \<Rightarrow> fold single_step lines (concat ls) = (if added = 0 then concat ls else end_line whole)"
proof -
  obtain seen' ls' n' where b: "fold batch_step lines (ls, concat ls, 0) = (seen', concat ls', n')"
    "fold single_step lines (concat ls) = concat ls'" "list_all line_ok ls'" "n' = 0 \<longrightarrow> ls' = ls" "length ls' = length ls + n'"
    using batch_singles [OF assms(2,1), of ls 0] by auto
  have "ls' = [] \<or> end_line (concat ls') = concat ls'" using end_line_concat [OF b(3)] b(3) by (cases ls') (auto simp: line_ok_def)
  moreover have "n' = 0" if "ls' = []" using that b(5) by simp
  ultimately show ?thesis using b by (auto simp: split_complete [OF assms(1)])
qed

end
