(* ===== verification/Sync_Steps.thy ===== *)
theory Sync_Steps
  imports Store_Sync
begin

text \<open>
  The calls a peer can cause, as steps on the store. Along any sequence of steps every stored log only
  grows at its end and the logs the device signs itself are never touched. The effect of one call is
  the relation \<open>log_growth\<close>; the lemmas for single calls share one lemma about a guarded write.
\<close>

definition logs :: "path \<Rightarrow> path set" where
  "logs root = range (op_log_path root) \<union> range (roster_log_path root) \<union> range (key_log_path root)"

definition own_logs :: "path \<Rightarrow> peer \<Rightarrow> path set" where
  "own_logs root self = {op_log_path root self, roster_log_path root self, key_log_path root self}"

definition layout_ok :: "(path \<Rightarrow> bool) \<Rightarrow> path \<Rightarrow> bool" where
  "layout_ok okp root \<longleftrightarrow> (\<forall>p \<in> logs root. okp p) \<and> okp (root @ [Normal (lit ''peers.json'')]) \<and> okp (root @ [Normal (lit ''peers.json.tmp'')])"

definition log_growth :: "('s \<Rightarrow> bool) \<Rightarrow> ('s \<Rightarrow> path \<Rightarrow> bytes option) \<Rightarrow> ('s, 'd, 'v) store \<Rightarrow> ('s, 'd, 'v) store \<Rightarrow> bool" where
  "log_growth ok files st st' \<longleftrightarrow>
     ok (st_disk st') \<and> st_root st' = st_root st \<and> st_identity st' = st_identity st
     \<and> (\<forall>p \<in> logs (st_root st). files (st_disk st') p = files (st_disk st) p
          \<or> p \<notin> own_logs (st_root st) (self_id st)
            \<and> (\<exists>b. files (st_disk st') p = Some b \<and> starts_with b (contents (files (st_disk st) p))))"

inductive net_step :: "('s, 'd, 'v, 'f) vault_env \<Rightarrow> ('s, 'd, 'v) store \<Rightarrow> ('s, 'd, 'v) store \<Rightarrow> bool"
  for V :: "('s, 'd, 'v, 'f) vault_env" where
  step_roster: "import_roster V a k b st = (r, st') \<Longrightarrow> net_step V st st'"
| step_bundle: "import_roster_bundle V ls st = (r, st') \<Longrightarrow> net_step V st st'"
| step_keylog: "import_keylog V a k b st = (r, st') \<Longrightarrow> net_step V st st'"
| step_ops: "apply_peer_ops V a k b st = (r, st') \<Longrightarrow> net_step V st st'"
| step_line: "dedup_append_peer_line V a k b st = (r, st') \<Longrightarrow> net_step V st st'"
| step_lines: "dedup_append_peer_lines V a k bs st = (n, st') \<Longrightarrow> net_step V st st'"

section \<open>Authorship\<close>

lemma check_authors_ok: "check_authors L self p es = Inr () \<Longrightarrow> \<forall>e \<in> set es. update_peers L (oe_update e) \<subseteq> {p}"
proof (induction es)
  case (Cons e es)
  obtain d where "doc_new L self = Inr d" using Cons.prems by (cases "doc_new L self") auto
  moreover from this obtain u where u: "fst (doc_import_authored_by L p (oe_update e) d) = Inr u"
    using Cons.prems by (cases "fst (doc_import_authored_by L p (oe_update e) d)") auto
  moreover have "update_peers L (oe_update e) \<subseteq> {p}" using u import_authored_by_ok(1) by (metis prod.collapse)
  ultimately show ?case using Cons by simp
qed simp

section \<open>Paths\<close>

lemma log_path_forms:
  "op_log_path root a = root @ [Normal (lit ''ops''), Normal (lit ''ops-'' @ show_nat (unat a) @ lit ''.jsonl'')]"
  "roster_log_path root a = root @ [Normal (lit ''roster''), Normal (lit ''roster-'' @ show_nat (unat a) @ lit ''.jsonl'')]"
  "key_log_path root a = root @ [Normal (lit ''keylog''), Normal (lit ''keylog-'' @ show_nat (unat a) @ lit ''.jsonl'')]"
  by (simp_all add: op_log_path_def roster_log_path_def key_log_path_def ops_dir_def roster_dir_def keylog_dir_def sub_paths log_paths)

lemma own_log_iff:
  "op_log_path root a \<in> own_logs root self \<longleftrightarrow> a = self"
  "roster_log_path root a \<in> own_logs root self \<longleftrightarrow> a = self"
  "key_log_path root a \<in> own_logs root self \<longleftrightarrow> a = self"
  by (auto simp: own_logs_def log_path_forms show_nat_inj lit_def word_unat_eq_iff)

lemma peers_cache_paths:
  "sub_path root ''peers.json'' = root @ [Normal (lit ''peers.json'')]"
  "with_extension (root @ [Normal (lit ''peers.json'')]) (lit ''json.tmp'') = root @ [Normal (lit ''peers.json.tmp'')]"
  "root @ [Normal x] \<notin> logs root"
  by (auto simp: sub_paths with_extension_def file_stem_def lit_def dot_def logs_def log_path_forms)

section \<open>Growth\<close>

lemma growth_refl: "ok (st_disk st) \<Longrightarrow> log_growth ok files st st"
  by (simp add: log_growth_def)

lemma growth_ok: "log_growth ok files st st' \<Longrightarrow> ok (st_disk st')"
  by (simp add: log_growth_def)

lemma growth_trans:
  assumes "log_growth ok files st st1" "log_growth ok files st1 st2"
  shows "log_growth ok files st st2"
  unfolding log_growth_def
proof (intro conjI ballI)
  have id: "self_id st1 = self_id st" "st_root st1 = st_root st" using assms(1) by (simp_all add: log_growth_def self_id_def)
  show "ok (st_disk st2)" "st_root st2 = st_root st" "st_identity st2 = st_identity st" using assms by (simp_all add: log_growth_def)
  fix p assume p: "p \<in> logs (st_root st)"
  note g1 = assms(1) [unfolded log_growth_def, THEN conjunct2, THEN conjunct2, THEN conjunct2, rule_format, OF p]
  have "p \<in> logs (st_root st1)" using p id by simp
  note g2 = assms(2) [unfolded log_growth_def, THEN conjunct2, THEN conjunct2, THEN conjunct2, rule_format, OF this, unfolded id]
  show "files (st_disk st2) p = files (st_disk st) p
      \<or> p \<notin> own_logs (st_root st) (self_id st)
        \<and> (\<exists>b. files (st_disk st2) p = Some b \<and> starts_with b (contents (files (st_disk st) p)))"
    using g1 g2
  proof (elim disjE conjE exE)
    fix b b1
    assume "files (st_disk st1) p = Some b" "starts_with b (contents (files (st_disk st) p))"
      "files (st_disk st2) p = Some b1" "starts_with b1 (contents (files (st_disk st1) p))" "p \<notin> own_logs (st_root st) (self_id st)"
    then show ?thesis using starts_with_trans by auto
  qed auto
qed

text \<open>A change of the disk that leaves the logs alone.\<close>

lemma growth_disk:
  assumes "ok s'" "\<forall>p \<in> logs (st_root st). files s' p = files (st_disk st) p"
  shows "log_growth ok files st (st\<lparr>st_disk := s'\<rparr>)"
  using assms by (simp add: log_growth_def)

lemma growth_bind:
  assumes "log_growth ok files st (snd (m st))" "\<And>a st1. log_growth ok files st st1 \<Longrightarrow> m st = (Inr a, st1) \<Longrightarrow> log_growth ok files st1 (snd (f a st1))"
  shows "log_growth ok files st (snd (bindE m f st))"
proof (cases "m st")
  case (Pair r st1)
  show ?thesis
  proof (cases r)
    case (Inl e)
    then show ?thesis using assms(1) Pair by simp
  next
    case (Inr a)
    have "log_growth ok files st st1" using assms(1) Pair by simp
    then show ?thesis using assms(2) [of st1 a] growth_trans Pair Inr by fastforce
  qed
qed

lemma bind_return: "bindE m (\<lambda>_. returnE ()) = m"
  by (auto simp: bindE_def fun_eq_iff split: prod.splits sum.splits)

context lawful_fs
begin

lemma collect_loop_state:
  assumes "ok s" "ve_fs V = fs"
  shows "snd (collect_loop V root tr ps acc s) = s"
  using assms
proof (induction V root tr ps acc s rule: collect_loop.induct)
  case (1 V root tr ps acc s)
  note simps = collect_loop.simps [of V root tr ps acc s]
  show ?case
  proof (cases "find (\<lambda>a. a \<notin> set ps) (ve_order V (map fst tr))")
    case None
    then show ?thesis by (simp add: simps)
  next
    case (Some a)
    let ?k = "the (map_of tr a)"
    have st: "author_log V root a ?k s = (fst (author_log V root a ?k s), s)" by (rule author_log_state [OF "1.prems"])
    show ?thesis
      using "1.IH"(1) [OF Some refl] "1.IH"(2) [OF Some refl] "1.IH"(3) [OF Some refl] "1.prems" st
      by (cases "fst (author_log V root a ?k s)") (auto simp: simps Some Let_def)
  qed
qed

lemma rebuild_peers_state:
  assumes "ok s" "ve_fs V = fs"
  shows "snd (rebuild_peers V root self key f s) = s"
proof -
  have "snd (collect_roster_entries V root self key f s) = s"
    using seed_trust_state(1) [OF assms, of root self key f] collect_loop_state [OF assms, of root]
    by (auto simp: collect_roster_entries_def bindE_def split: prod.splits sum.splits)
  then show ?thesis by (auto simp: rebuild_peers_def bindE_def split: prod.splits sum.splits)
qed

lemma write_files:
  assumes "ok s" "okp q"
  shows "ok (snd (fs_write fs q b s)) \<and>
    (files (snd (fs_write fs q b s)) = files s \<and> fst (fs_write fs q b s) \<noteq> Inr ()
     \<or> files (snd (fs_write fs q b s)) = (files s)(q \<mapsto> b) \<and> fst (fs_write fs q b s) = Inr ())"
  using write_law [OF assms, of b] full [OF assms, of b] assms(1) by (cases "room s q") (auto simp: ok_step_def)

lemma dir_files:
  assumes "ok s"
  shows "ok (snd (fs_create_dir_all fs d s)) \<and> files (snd (fs_create_dir_all fs d s)) = files s \<and> fst (fs_create_dir_all fs d s) = Inr ()"
  using create_dir_all_law [OF assms, of d] by (auto simp: ok_step_def)

lemma rename_files:
  assumes "ok s" "okp q" "p \<noteq> q"
  shows "ok (snd (fs_rename fs p q s)) \<and> (\<forall>x. x \<noteq> p \<longrightarrow> x \<noteq> q \<longrightarrow> files (snd (fs_rename fs p q s)) x = files s x)"
proof (cases "files s p")
  case None
  then show ?thesis using rename_missing [OF assms(1) None, of q] assms(1) by simp
next
  case (Some b)
  then show ?thesis using rename_law [OF assms(1) Some assms(2,3)] by (auto simp: ok_step_def)
qed

text \<open>Lifting a disk operation that keeps the logs.\<close>

lemma on_disk_growth:
  assumes "ok (snd (m (st_disk st)))" "\<forall>p \<in> logs (st_root st). files (snd (m (st_disk st))) p = files (st_disk st) p"
  shows "log_growth ok files st (snd (on_disk m st))"
  using assms by (auto simp: on_disk_def log_growth_def split: prod.splits)

lemma snd_errE [simp]: "snd (errE g m s) = snd (m s)"
  by (simp add: errE_def split: prod.splits)

lemma cache_growth:
  assumes "ok (st_disk st)" "ve_fs V = fs" "layout_ok okp (st_root st)"
  shows "log_growth ok files st (snd (write_peers_cache V st))"
proof -
  let ?root = "st_root st"
  let ?p = "?root @ [Normal (lit ''peers.json'')]" and ?tmp = "?root @ [Normal (lit ''peers.json.tmp'')]"
  let ?m = "\<lambda>x. bindE (errE Io (fs_write fs ?tmp (ve_ser_peers V (st_peers st)))) (\<lambda>_. errE Io (fs_rename fs ?tmp ?p)) x"
  have okp: "okp ?p" "okp ?tmp" using assms(3) by (simp_all add: layout_ok_def)
  have ne: "?tmp \<noteq> ?p" by (simp add: lit_def)
  have m: "ok (snd (?m s)) \<and> (\<forall>x. x \<noteq> ?p \<longrightarrow> x \<noteq> ?tmp \<longrightarrow> files (snd (?m s)) x = files s x)" if "ok s" for s
  proof -
    note w = write_files [OF that okp(2), of "ve_ser_peers V (st_peers st)"]
    let ?s1 = "snd (fs_write fs ?tmp (ve_ser_peers V (st_peers st)) s)"
    have "ok ?s1" using w by simp
    note r = rename_files [OF this okp(1) ne]
    show ?thesis
      using w r by (auto simp: bindE_def errE_def map_err_def split: prod.splits sum.splits)
  qed
  have parent: "path_parent ?p = Some ?root" by (simp add: path_parent_def)
  obtain s1 where s1: "fs_create_dir_all fs ?root (st_disk st) = (Inr (), s1)" "ok s1" "files s1 = files (st_disk st)"
    using dir_files [OF assms(1), of ?root] by (metis prod.collapse)
  have "write_peers_cache V st = on_disk ?m (st\<lparr>st_disk := s1\<rparr>)"
    using s1(1) by (simp add: write_peers_cache_def peers_cache_paths parent assms(2) on_disk_def Let_def)
  moreover have "log_growth ok files st (st\<lparr>st_disk := s1\<rparr>)" using s1(2,3) by (intro growth_disk) auto
  moreover have "log_growth ok files (st\<lparr>st_disk := s1\<rparr>) (snd (on_disk ?m (st\<lparr>st_disk := s1\<rparr>)))"
  proof (intro on_disk_growth ballI)
    fix p assume "p \<in> logs (st_root (st\<lparr>st_disk := s1\<rparr>))"
    then have "p \<noteq> ?p" "p \<noteq> ?tmp" using peers_cache_paths(3) [of ?root] by auto
    then show "files (snd (?m (st_disk (st\<lparr>st_disk := s1\<rparr>)))) p = files (st_disk (st\<lparr>st_disk := s1\<rparr>)) p"
      using m [OF s1(2)] by simp
  qed (use m [OF s1(2)] in simp)
  ultimately show ?thesis using growth_trans by metis
qed

lemma refresh_growth:
  assumes "ok (st_disk st)" "ve_fs V = fs" "layout_ok okp (st_root st)"
  shows "log_growth ok files st (snd (refresh_peers V st))"
proof -
  let ?r = "rebuild_peers V (st_root st) (self_id st) (self_key V st) (st_founder st) (st_disk st)"
  have s: "snd ?r = st_disk st" by (rule rebuild_peers_state [OF assms(1,2)])
  show ?thesis
  proof (cases "fst ?r")
    case (Inl e)
    then have "?r = (Inl e, st_disk st)" using s by (simp add: prod_eq_iff)
    then show ?thesis using growth_refl [of ok st files] assms(1) by (simp add: refresh_peers_def on_disk_def)
  next
    case (Inr ps)
    then have "?r = (Inr ps, st_disk st)" using s by (simp add: prod_eq_iff)
    then have "refresh_peers V st = write_peers_cache V (st\<lparr>st_peers := ps\<rparr>)" by (simp add: refresh_peers_def on_disk_def)
    moreover have "log_growth ok files (st\<lparr>st_peers := ps\<rparr>) (snd (write_peers_cache V (st\<lparr>st_peers := ps\<rparr>)))"
      using assms by (intro cache_growth) auto
    ultimately show ?thesis by (simp add: log_growth_def self_id_def)
  qed
qed

text \<open>
  The shape of every import: create the directory, check the received bytes against the stored log,
  verify them, write them, go on.
\<close>

lemma guarded_write:
  assumes st: "ok (st_disk st)" "okp p" "p \<notin> own_logs (st_root st) (self_id st)"
    and guard: "\<And>s. ok s \<Longrightarrow> files s = files (st_disk st) \<Longrightarrow>
      snd (guard s) = s \<and> (fst (guard s) = Inr () \<longrightarrow> starts_with b (contents (files s p)))"
    and rest: "\<And>x st'. log_growth ok files st st' \<Longrightarrow> log_growth ok files st' (snd (rest x st'))"
  shows "log_growth ok files st (snd (bindE (on_disk (errE Io (fs_create_dir_all fs d))) (\<lambda>_.
     bindE (on_disk guard) (\<lambda>_. bindE (liftE r) (\<lambda>x. bindE (on_disk (errE Io (fs_write fs p b))) (\<lambda>_. rest x)))) st))"
proof -
  obtain s1 where s1: "fs_create_dir_all fs d (st_disk st) = (Inr (), s1)" "ok s1" "files s1 = files (st_disk st)"
    using dir_files [OF st(1), of d] by (metis prod.collapse)
  let ?st1 = "st\<lparr>st_disk := s1\<rparr>"
  have g1: "log_growth ok files st ?st1" using s1(2,3) by (intro growth_disk) auto
  have gs: "guard s1 = (fst (guard s1), s1)" using guard [OF s1(2,3)] by (simp add: prod_eq_iff)
  show ?thesis
  proof (cases "fst (guard s1) = Inr () \<and> (\<exists>x. r = Inr x)")
    case False
    then have "snd (bindE (on_disk guard) (\<lambda>_. bindE (liftE r) (\<lambda>x. bindE (on_disk (errE Io (fs_write fs p b))) (\<lambda>_. rest x))) ?st1) = ?st1"
      using gs by (cases "fst (guard s1)"; cases r) (auto simp: bindE_def on_disk_def)
    then show ?thesis using s1(1) g1 by (simp add: on_disk_def)
  next
    case True
    then obtain x where x: "r = Inr x" "guard s1 = (Inr (), s1)" "starts_with b (contents (files (st_disk st) p))"
      using gs guard [OF s1(2,3)] s1(3) by auto
    obtain w s2 where w: "fs_write fs p b s1 = (w, s2)" by (cases "fs_write fs p b s1")
    let ?st2 = "st\<lparr>st_disk := s2\<rparr>"
    have "ok s2 \<and> (files s2 = files (st_disk st) \<and> w \<noteq> Inr () \<or> files s2 = (files (st_disk st))(p \<mapsto> b) \<and> w = Inr ())"
      using write_files [OF s1(2) st(2), of b] w s1(3) by simp
    then have g2: "log_growth ok files st ?st2" using x(3) st(3) by (auto simp: log_growth_def split: if_splits)
    have "snd (bindE (on_disk (errE Io (fs_create_dir_all fs d))) (\<lambda>_.
     bindE (on_disk guard) (\<lambda>_. bindE (liftE r) (\<lambda>x. bindE (on_disk (errE Io (fs_write fs p b))) (\<lambda>_. rest x)))) st)
      = (case w of Inl e \<Rightarrow> ?st2 | Inr _ \<Rightarrow> snd (rest x ?st2))"
      using s1(1) x w by (cases w) (simp_all add: on_disk_def bindE_def errE_def)
    then show ?thesis using g2 growth_trans [OF g2 rest [OF g2]] by (cases w) simp_all
  qed
qed

lemma refuse_fork_guard:
  assumes "ok s"
  shows "snd (refuse_fork fs p b s) = s \<and> (fst (refuse_fork fs p b s) = Inr () \<longrightarrow> starts_with b (contents (files s p)))"
  using read_law [OF assms, of p] by (cases "files s p") (auto simp: refuse_fork_def starts_with_def split: if_splits)

lemma layout_growth: "log_growth ok files st st' \<Longrightarrow> layout_ok okp (st_root st) \<Longrightarrow> ok (st_disk st') \<and> layout_ok okp (st_root st')"
  by (simp add: log_growth_def)

lemma log_okp:
  assumes "layout_ok okp root"
  shows "okp (op_log_path root a)" "okp (roster_log_path root a)" "okp (key_log_path root a)"
  using assms by (auto simp: layout_ok_def logs_def)

lemma import_roster_growth:
  assumes "ok (st_disk st)" "ve_fs V = fs" "layout_ok okp (st_root st)"
  shows "log_growth ok files st (snd (import_roster V a k b st))"
proof (cases "a = self_id st")
  case True
  then show ?thesis using growth_refl [of ok st files] assms(1) by (simp add: import_roster_def)
next
  case False
  have "log_growth ok files st' (snd (refresh_peers V st'))" if "log_growth ok files st st'" for st'
    using layout_growth [OF that assms(3)] assms(2) by (intro refresh_growth) auto
  then show ?thesis
    unfolding import_roster_def assms(2) Let_def if_not_P [OF False]
    by (intro guarded_write assms log_okp refuse_fork_guard) (use False own_log_iff in auto)
qed

lemma import_keylog_growth:
  assumes "ok (st_disk st)" "ve_fs V = fs" "layout_ok okp (st_root st)"
  shows "log_growth ok files st (snd (import_keylog V a k b st))"
proof (cases "a = self_id st")
  case True
  then show ?thesis using growth_refl [of ok st files] assms(1) by (simp add: import_keylog_def)
next
  case False
  have "log_growth ok files st' (snd (returnE () st'))" if "log_growth ok files st st'" for st'
    using that growth_refl [of ok st' files] by (simp add: log_growth_def)
  then show ?thesis
    unfolding import_keylog_def assms(2) Let_def if_not_P [OF False]
    by (intro guarded_write [where rest = "\<lambda>_. returnE ()", unfolded bind_return] assms log_okp refuse_fork_guard)
      (use False own_log_iff in auto)
qed

lemma bundle_step_growth:
  assumes "ok (st_disk st)" "layout_ok okp (st_root st)"
  shows "log_growth ok files st (snd (on_disk (bundle_step fs (st_root st) (self_id st) ab) st))"
proof -
  obtain a b where ab: "ab = (a, b)" by (cases ab)
  let ?p = "roster_log_path (st_root st) a" and ?s = "st_disk st"
  have r: "fs_read fs ?p ?s = (ok_or NotFound (files ?s ?p), ?s)" by (rule read_law [OF assms(1)])
  show ?thesis
  proof (cases "a = self_id st \<or> \<not> starts_with b (contents (files ?s ?p))")
    case True
    then have "bundle_step fs (st_root st) (self_id st) ab ?s = (Inr (), ?s)"
      using r by (cases "files ?s ?p") (auto simp: bundle_step_def ab Let_def starts_with_def)
    then show ?thesis using growth_refl [of ok st files] assms(1) by (simp add: on_disk_def)
  next
    case False
    then have eq: "bundle_step fs (st_root st) (self_id st) ab ?s = errE Io (fs_write fs ?p b) ?s"
      using r by (cases "files ?s ?p") (auto simp: bundle_step_def ab Let_def)
    have "?p \<notin> own_logs (st_root st) (self_id st)" using False by (simp add: own_log_iff)
    then show ?thesis
      using write_files [OF assms(1) log_okp(2) [OF assms(2), of a], of b] False
      unfolding on_disk_def eq by (auto simp: log_growth_def errE_def split: prod.splits if_splits)
  qed
qed

lemma bundle_each_growth:
  assumes "ok (st_disk st)" "layout_ok okp (st_root st)"
  shows "log_growth ok files st (snd (on_disk (eachE (bundle_step fs (st_root st) (self_id st)) ls) st))"
  using assms
proof (induction ls arbitrary: st)
  case Nil
  then show ?case using growth_refl [of ok st files] by (simp add: on_disk_def)
next
  case (Cons x ls)
  let ?b = "bundle_step fs (st_root st) (self_id st)"
  have g: "log_growth ok files st (snd (on_disk (?b x) st))" using Cons.prems by (rule bundle_step_growth)
  have split: "snd (on_disk (eachE ?b (x # ls)) st) =
      (case ?b x (st_disk st) of (Inl _, _) \<Rightarrow> snd (on_disk (?b x) st) | (Inr _, s1) \<Rightarrow> snd (on_disk (eachE ?b ls) (snd (on_disk (?b x) st))))"
    by (auto simp: on_disk_def bindE_def split: prod.splits sum.splits)
  have id: "st_root (snd (on_disk (?b x) st)) = st_root st" "self_id (snd (on_disk (?b x) st)) = self_id st"
    using g by (simp_all add: log_growth_def self_id_def)
  have "log_growth ok files (snd (on_disk (?b x) st)) (snd (on_disk (eachE ?b ls) (snd (on_disk (?b x) st))))"
    using Cons.IH [of "snd (on_disk (?b x) st)"] layout_growth [OF g Cons.prems(2)] id by simp
  then show ?case unfolding split using g growth_trans [OF g] by (auto split: prod.splits sum.splits)
qed

lemma import_bundle_growth:
  assumes "ok (st_disk st)" "ve_fs V = fs" "layout_ok okp (st_root st)"
  shows "log_growth ok files st (snd (import_roster_bundle V ls st))"
proof -
  obtain s1 where s1: "fs_create_dir_all fs (roster_dir (st_root st)) (st_disk st) = (Inr (), s1)" "ok s1" "files s1 = files (st_disk st)"
    using dir_files [OF assms(1)] by (metis prod.collapse)
  let ?st1 = "st\<lparr>st_disk := s1\<rparr>"
  have g1: "log_growth ok files st ?st1" using s1(2,3) by (intro growth_disk) auto
  let ?m = "on_disk (eachE (bundle_step fs (st_root st) (self_id st)) ls)"
  have g2: "log_growth ok files ?st1 (snd (?m ?st1))"
    using bundle_each_growth [of ?st1 ls] s1(2) assms(3) by (simp add: self_id_def)
  have g3: "log_growth ok files st1 (snd (refresh_peers V st1))" if "log_growth ok files ?st1 st1" for st1
    using layout_growth [OF that] assms(2,3) by (intro refresh_growth) auto
  have "log_growth ok files ?st1 (snd (bindE ?m (\<lambda>_. refresh_peers V) ?st1))"
    by (rule growth_bind [of ok files ?st1 ?m, OF g2]) (rule g3)
  then show ?thesis
    using growth_trans [OF g1] s1(1) assms(2) by (simp add: import_roster_bundle_def on_disk_def [of "errE Io (fs_create_dir_all _ _)"])
qed

lemma merge_entries_growth:
  assumes "ok (st_disk st)"
  shows "log_growth ok files st (snd (merge_entries V es st))"
proof -
  have e: "log_growth ok files st (snd (eachE (\<lambda>e. on_doc (doc_import (ve_loro V) (oe_update e))) es st))"
    if "ok (st_disk st)" for st
    using that
  proof (induction es arbitrary: st)
    case Nil
    then show ?case by (simp add: growth_refl)
  next
    case (Cons x es)
    have "log_growth ok files st (snd (on_doc (doc_import (ve_loro V) (oe_update x)) st))"
      using Cons.prems by (auto simp: on_doc_def log_growth_def split: prod.splits)
    then show ?case unfolding eachE.simps by (rule growth_bind) (use Cons.IH growth_ok in blast)
  qed
  from e [OF assms] show ?thesis
    unfolding merge_entries_def by (rule growth_bind) (auto simp: log_growth_def Let_def)
qed

lemma import_peer_growth:
  assumes "ok (st_disk st)" "ve_fs V = fs" "layout_ok okp (st_root st)"
    and b: "starts_with b (contents (files (st_disk st) (op_log_path (st_root st) a)))"
  shows "log_growth ok files st (snd (import_peer V a k b st))"
proof (cases "may_send_ops st a \<and> a \<noteq> self_id st")
  case False
  then show ?thesis using growth_refl [of ok st files] assms(1) by (auto simp: import_peer_def)
next
  case True
  let ?p = "op_log_path (st_root st) a"
  have g: "snd (refuse_shrink fs ?p b s) = s" if "ok s" for s
    using read_law [OF that, of ?p] by (cases "files s ?p") (auto simp: refuse_shrink_def)
  have "import_peer V a k b st = bindE (on_disk (errE Io (fs_create_dir_all fs (ops_dir (st_root st))))) (\<lambda>_.
     bindE (on_disk (refuse_shrink fs ?p b)) (\<lambda>_. bindE (liftE (verify_authored V (self_id st) a k b)) (\<lambda>es.
     bindE (on_disk (errE Io (fs_write fs ?p b))) (\<lambda>_. merge_entries V es)))) st"
    using True assms(2) by (simp add: import_peer_def Let_def)
  then show ?thesis
    by (simp only:) (intro guarded_write assms log_okp merge_entries_growth, use True own_log_iff g b growth_ok in auto)
qed

lemma export_log_state:
  assumes "ok (st_disk st)" "ve_fs V = fs"
  shows "snd (export_peer_log V a st) = st \<and>
    (\<forall>b. fst (export_peer_log V a st) = Inr b \<longrightarrow> b = contents (files (st_disk st) (op_log_path (st_root st) a)))"
  using read_law [OF assms(1), of "op_log_path (st_root st) a"] assms(2)
  by (cases "files (st_disk st) (op_log_path (st_root st) a)") (auto simp: export_peer_log_def read_or_empty_def on_disk_def)

text \<open>The calls that read the stored log, extend it and hand it on.\<close>

lemma extend_growth:
  assumes "ok (st_disk st)" "ve_fs V = fs"
    and "\<And>b. b = contents (files (st_disk st) (op_log_path (st_root st) a)) \<Longrightarrow> log_growth ok files st (snd (f b st))"
  shows "log_growth ok files st (snd (bindE (export_peer_log V a) f st))"
  using export_log_state [OF assms(1,2), of a] assms(3) growth_refl [of ok st files] assms(1)
  by (cases "export_peer_log V a st"; cases "fst (export_peer_log V a st)") auto

lemma apply_ops_growth:
  assumes "ok (st_disk st)" "ve_fs V = fs" "layout_ok okp (st_root st)"
  shows "log_growth ok files st (snd (apply_peer_ops V a k b st))"
  using growth_refl [of ok st files] assms
  by (auto simp: apply_peer_ops_def intro!: extend_growth import_peer_growth merge_log_extends)

lemma append_line_growth:
  assumes "ok (st_disk st)" "ve_fs V = fs" "layout_ok okp (st_root st)"
  shows "log_growth ok files st (snd (dedup_append_peer_line V a k l st))"
proof -
  have "starts_with w b" if "dedup_log b l = Some w" for b w
    using that starts_with_trans [OF end_line_extends add_line_extends] by (auto simp: dedup_log_def split: if_splits)
  then show ?thesis
    using growth_refl [of ok st files] assms
    by (auto simp: dedup_append_peer_line_def intro!: extend_growth import_peer_growth split: option.split)
qed

lemma append_lines_growth:
  assumes "ok (st_disk st)" "ve_fs V = fs" "layout_ok okp (st_root st)"
  shows "log_growth ok files st (snd (dedup_append_peer_lines V a k ls st))"
proof -
  have "log_growth ok files st (snd (bindE (import_peer V a k (end_line w)) (\<lambda>_. returnE n) st))"
    if "fold batch_step ls (sn, contents (files (st_disk st) (op_log_path (st_root st) a)), 0) = (sn', w, n)" for sn sn' w n
    using starts_with_trans [OF end_line_extends batch_extends [OF that]] assms
    by (intro growth_bind import_peer_growth) (auto intro: growth_refl dest: growth_ok)
  then show ?thesis
    using growth_refl [of ok st files] assms
    by (auto simp: dedup_append_peer_lines_def intro!: extend_growth split: prod.split)
qed

lemma net_step_growth:
  assumes "net_step V st st'" "ok (st_disk st)" "ve_fs V = fs" "layout_ok okp (st_root st)"
  shows "log_growth ok files st st'"
  using assms(1)
proof cases
  case (step_roster a k b r)
  then show ?thesis using import_roster_growth [OF assms(2-4), of a k b] by simp
next
  case (step_bundle ls r)
  then show ?thesis using import_bundle_growth [OF assms(2-4), of ls] by simp
next
  case (step_keylog a k b r)
  then show ?thesis using import_keylog_growth [OF assms(2-4), of a k b] by simp
next
  case (step_ops a k b r)
  then show ?thesis using apply_ops_growth [OF assms(2-4), of a k b] by simp
next
  case (step_line a k b r)
  then show ?thesis using append_line_growth [OF assms(2-4), of a k b] by simp
next
  case (step_lines a k bs n)
  then show ?thesis using append_lines_growth [OF assms(2-4), of a k bs] by simp
qed

lemma net_steps_growth:
  assumes "(net_step V)\<^sup>*\<^sup>* st st'" "ok (st_disk st)" "ve_fs V = fs" "layout_ok okp (st_root st)"
  shows "log_growth ok files st st'"
  using assms(1)
proof (induction rule: rtranclp_induct)
  case base
  then show ?case using assms(2) by (rule growth_refl)
next
  case (step y z)
  then show ?case using net_step_growth layout_growth [OF step.IH assms(4)] assms(3) growth_trans by blast
qed

end

section \<open>The vault layout in a slot pool\<close>

lemma length_show_nat: "n < 10 ^ Suc k \<Longrightarrow> length (show_nat n) \<le> Suc k"
proof (induction k arbitrary: n)
  case 0
  then show ?case by (subst show_nat.simps) simp
next
  case (Suc k)
  then have "n div 10 < 10 ^ Suc k" by (simp add: less_mult_imp_div_less mult.commute)
  then show ?case using Suc.IH [of "n div 10"] by (subst show_nat.simps) simp
qed

lemma length_show_u64: "length (show_nat (unat (a :: u64))) \<le> 20"
proof -
  have "unat a < 2 ^ 64" using unsigned_less [of a] by simp
  then have "unat a < 10 ^ Suc 19" by (rule less_trans) simp
  then show ?thesis using length_show_nat [of "unat a" 19] by simp
qed

lemma str_len_append [simp]: "str_len (s @ t) = str_len s + str_len t"
  by (simp add: str_len_def utf8_def)

lemma str_len_ascii: "\<forall>c \<in> set s. c < 128 \<Longrightarrow> str_len s = length s"
  by (induction s) (auto simp: str_len_def utf8_def utf8_char.simps)

lemma ascii_valid: "\<forall>c \<in> set s. c < 128 \<Longrightarrow> valid_str s"
  by (induction s) (auto simp: scalar_def)

lemma not_dots: "2 < length s \<Longrightarrow> s \<notin> {[], [dot], [dot, dot]}"
  by auto

lemma str_len_slash [simp]: "str_len (slash # s) = Suc (str_len s)"
  by (simp add: str_len_def utf8_char.simps slash_def)

lemma str_join_snoc_len: "str_len (str_join [slash] (ps @ [s])) \<le> str_len (str_join [slash] ps) + 1 + str_len s"
  by (induction "[slash]" ps rule: str_join.induct) auto

lemma path_str_snoc: "str_len (path_to_str (p @ [Normal s])) \<le> str_len (path_to_str p) + 1 + str_len s"
  using str_join_snoc_len [of "map comp_str p" s] str_join_snoc_len [of "map comp_str (tl p)" s]
  by (cases p rule: path_to_str.cases) auto

lemma path_ok_snoc: "path_ok p \<Longrightarrow> comp_ok (Normal s) \<Longrightarrow> path_ok (p @ [Normal s])"
  by (cases p) (auto simp: path_ok_def)

lemma path_fits:
  assumes "path_ok root" "str_len (path_to_str root) \<le> 900" "comp_ok (Normal a)" "comp_ok (Normal b)" "str_len a \<le> 14" "str_len b \<le> 33"
  shows "pool_path (root @ [Normal a])" "pool_path (root @ [Normal a, Normal b])"
proof -
  have ok: "path_ok (root @ [Normal a])" "path_ok ((root @ [Normal a]) @ [Normal b])" using assms(1,3,4) path_ok_snoc by blast+
  show "pool_path (root @ [Normal a])" using ok(1) path_str_snoc [of root a] assms(2,5) by (simp add: pool_path_def)
  show "pool_path (root @ [Normal a, Normal b])"
    using ok(2) path_str_snoc [of root a] path_str_snoc [of "root @ [Normal a]" b] assms(2,5,6) by (simp add: pool_path_def)
qed

lemma ascii_name:
  assumes "\<forall>c \<in> set s. c < 128 \<and> c \<noteq> slash" "2 < length s" "length s \<le> n"
  shows "comp_ok (Normal s) \<and> str_len s \<le> n"
  using ascii_valid [of s] str_len_ascii [of s] not_dots [OF assms(2)] assms by auto

lemma log_name_ok:
  assumes "\<forall>c \<in> set pre. c < 128 \<and> c \<noteq> slash" "2 < length pre" "length pre \<le> 7"
  shows "comp_ok (Normal (pre @ show_nat (unat (a :: u64)) @ lit ''.jsonl''))" "str_len (pre @ show_nat (unat a) @ lit ''.jsonl'') \<le> 33"
proof -
  let ?s = "pre @ show_nat (unat a) @ lit ''.jsonl''"
  have "\<forall>c \<in> set ?s. c < 128 \<and> c \<noteq> slash" using assms(1) set_show_nat [of "unat a"] by (auto simp: lit_def slash_def)
  then have "comp_ok (Normal ?s) \<and> str_len ?s \<le> 33" by (rule ascii_name) (use assms(2,3) length_show_u64 [of a] in simp_all)
  then show "comp_ok (Normal ?s)" "str_len ?s \<le> 33" by auto
qed

lemma dir_names:
  "comp_ok (Normal (lit ''ops'')) \<and> str_len (lit ''ops'') \<le> 14"
  "comp_ok (Normal (lit ''roster'')) \<and> str_len (lit ''roster'') \<le> 14"
  "comp_ok (Normal (lit ''keylog'')) \<and> str_len (lit ''keylog'') \<le> 14"
  "comp_ok (Normal (lit ''peers.json'')) \<and> str_len (lit ''peers.json'') \<le> 14"
  "comp_ok (Normal (lit ''peers.json.tmp'')) \<and> str_len (lit ''peers.json.tmp'') \<le> 14"
  by (rule ascii_name; simp add: lit_def slash_def)+

lemma layout_fits:
  assumes "path_ok root" "str_len (path_to_str root) \<le> 900"
  shows "layout_ok pool_path root"
proof -
  have pre: "\<forall>c \<in> set (lit p). c < 128 \<and> c \<noteq> slash" "2 < length (lit p)" "length (lit p) \<le> 7"
    if "p = ''ops-'' \<or> p = ''roster-'' \<or> p = ''keylog-''" for p using that by (auto simp: lit_def slash_def)
  have fits: "pool_path (root @ [Normal (lit d), Normal (lit p @ show_nat (unat a) @ lit ''.jsonl'')])"
    if "comp_ok (Normal (lit d)) \<and> str_len (lit d) \<le> 14" "p = ''ops-'' \<or> p = ''roster-'' \<or> p = ''keylog-''" for d p and a :: u64
    using path_fits(2) [OF assms] that(1) log_name_ok [OF pre [OF that(2)], of a] by blast
  have top: "pool_path (root @ [Normal (lit d)])" if "comp_ok (Normal (lit d)) \<and> str_len (lit d) \<le> 14" for d
    using path_fits(1) [OF assms, of "lit d" "lit ''ops''"] that dir_names(1) by simp
  have "pool_path p" if "p \<in> logs root" for p
    using that fits [OF dir_names(1)] fits [OF dir_names(2)] fits [OF dir_names(3)] unfolding logs_def log_path_forms by blast
  then show ?thesis using top [OF dir_names(4)] top [OF dir_names(5)] by (simp add: layout_ok_def)
qed

section \<open>Properties\<close>

text \<open>
  C15: the network can only extend logs. After any sequence of calls a peer can cause (roster, roster
  bundle, key log, operations, single lines, batches of lines; accepted or refused), the contents of
  every stored log start with its contents before, and the three logs the device signs itself are as
  they were. This holds in a slot pool, for any vault root of at most 900 bytes.
\<close>

theorem network_steps_append_only:
  assumes "(net_step V)\<^sup>*\<^sup>* st st'" "ve_fs V = pool_fs" "pool_ok (st_disk st)"
    "path_ok (st_root st)" "str_len (path_to_str (st_root st)) \<le> 900" "p \<in> logs (st_root st)"
  shows "starts_with (contents (pool_file (st_disk st') p)) (contents (pool_file (st_disk st) p))
    \<and> (p \<in> own_logs (st_root st) (self_id st) \<longrightarrow> pool_file (st_disk st') p = pool_file (st_disk st) p)"
proof -
  have "log_growth pool_ok pool_file st st'"
    using assms(1,3,2) layout_fits [OF assms(4,5)] by (rule slots.net_steps_growth)
  then have "pool_file (st_disk st') p = pool_file (st_disk st) p \<or> p \<notin> own_logs (st_root st) (self_id st)
      \<and> (\<exists>b. pool_file (st_disk st') p = Some b \<and> starts_with b (contents (pool_file (st_disk st) p)))"
    using assms(6) by (simp add: log_growth_def)
  then show ?thesis by auto
qed

definition ex_store :: "(pool, unit, unit) store" where
  "ex_store = \<lparr>st_disk = ex_pool, st_root = [], st_identity = ex_id, st_doc = (), st_persisted = (),
     st_peers = [\<lparr>pr_peer_id = 7, pr_verifying_key = [], pr_status = Active, pr_role = Reader, pr_name = None\<rparr>], st_founder = None\<rparr>"

theorem network_steps_append_only_witness:
  "starts_with (contents (pool_file (st_disk (snd (import_keylog toy_vault 7 [] [] ex_store))) (key_log_path [] 7)))
     (contents (pool_file ex_pool (key_log_path [] 7)))"
proof -
  have "net_step toy_vault ex_store (snd (import_keylog toy_vault 7 [] [] ex_store))"
    by (rule step_keylog [of _ 7 "[]" "[]" _ "fst (import_keylog toy_vault 7 [] [] ex_store)"]) simp
  then have "(net_step toy_vault)\<^sup>*\<^sup>* ex_store (snd (import_keylog toy_vault 7 [] [] ex_store))" by (rule r_into_rtranclp)
  from network_steps_append_only [OF this, of "key_log_path [] 7"] show ?thesis
    by (simp add: toy_vault_def ex_store_def ex_pool_ok path_ok_def str_len_def logs_def)
qed

text \<open>
  C16: the trust boundary of an imported operation log. Either the sender is another device that the
  peer cache lists as active and not a reader, every line carries a valid signature of the sender and
  every update in it names no author but the sender; or the call fails and the document, the peer cache
  and every file are as they were.
\<close>

theorem import_peer_trust_boundary:
  assumes "pool_ok (st_disk st)" "ve_fs V = pool_fs" "import_peer V p key b st = (r, st')"
  shows "(p \<noteq> self_id st \<and> (\<exists>pr. find_peer (st_peers st) p = Some pr \<and> pr_status pr = Active \<and> pr_role pr \<noteq> Reader)
      \<and> (\<exists>es. oplog_verify_bytes (ve_env V) (ve_parse_op V) p key b = Inr es \<and> (\<forall>e \<in> set es. update_peers (ve_loro V) (oe_update e) \<subseteq> {p})))
    \<or> ((\<exists>e. r = Inl e) \<and> st_doc st' = st_doc st \<and> st_peers st' = st_peers st \<and> pool_file (st_disk st') = pool_file (st_disk st))"
proof (cases "may_send_ops st p \<and> p \<noteq> self_id st")
  case False
  then have "import_peer V p key b st = (Inl Peer, st)" by (auto simp: import_peer_def)
  then show ?thesis using assms(3) by auto
next
  case True
  have sender: "\<exists>pr. find_peer (st_peers st) p = Some pr \<and> pr_status pr = Active \<and> pr_role pr \<noteq> Reader"
    using True by (auto simp: may_send_ops_def split: option.splits)
  show ?thesis
  proof (cases "verify_authored V (self_id st) p key b")
    case (Inr es)
    then have "oplog_verify_bytes (ve_env V) (ve_parse_op V) p key b = Inr es" "check_authors (ve_loro V) (self_id st) p es = Inr ()"
      by (auto simp: verify_authored_def bind_r_Inr_iff)
    then show ?thesis using True sender check_authors_ok by blast
  next
    case (Inl e)
    obtain s1 where s1: "fs_create_dir_all pool_fs (ops_dir (st_root st)) (st_disk st) = (Inr (), s1)" "pool_ok s1" "pool_file s1 = pool_file (st_disk st)"
      using slots.dir_files [OF assms(1)] by (metis prod.collapse)
    let ?q = "op_log_path (st_root st) p"
    have shrink: "refuse_shrink pool_fs ?q b s1 = (fst (refuse_shrink pool_fs ?q b s1), s1)"
      using slots.read_law [OF s1(2), of ?q] by (cases "pool_file s1 ?q") (auto simp: refuse_shrink_def)
    have "\<exists>e. import_peer V p key b st = (Inl e, st\<lparr>st_disk := s1\<rparr>)"
      using True assms(2) s1(1) Inl shrink
      by (cases "fst (refuse_shrink pool_fs ?q b s1)") (auto simp: import_peer_def on_disk_def bindE_def Let_def)
    then show ?thesis using assms(3) s1(3) by auto
  qed
qed

theorem import_peer_trust_boundary_witness:
  "pool_file (st_disk (snd (import_peer toy_vault 7 [] [] ex_store))) = pool_file ex_pool"
  using import_peer_trust_boundary [of ex_store toy_vault 7 "[]" "[]" "fst (import_peer toy_vault 7 [] [] ex_store)" "snd (import_peer toy_vault 7 [] [] ex_store)"]
  by (auto simp: toy_vault_def ex_store_def ex_pool_ok find_peer_def)

end
