(* ===== verification/Store_Keys.thy ===== *)
theory Store_Keys
  imports Sync_Steps
begin

text \<open>
  The epoch keys of a store (\<open>store.rs\<close>): merging the key logs of the admins, minting an epoch,
  publishing missing wraps and recovering keys from the printed phrase. Everything is appended to the
  device's own key log. Random values are arguments: \<open>rnd n\<close> is the ephemeral secret and the nonce of
  the n-th key wrap.
\<close>

definition own_key_log :: "('s, 'd, 'v, 'f) vault_env \<Rightarrow> ('s, 'd, 'v) store \<Rightarrow> 's key_log" where
  "own_key_log V st = key_log_new (keylog_dir (st_root st)) (self_id st) (ve_fs V)"

definition x25519_secret :: "('s, 'd, 'v, 'f) vault_env \<Rightarrow> ('s, 'd, 'v) store \<Rightarrow> bytes" where
  "x25519_secret V st = ve_x_secret V (id_signing_key (st_identity st))"

definition x25519_public :: "('s, 'd, 'v, 'f) vault_env \<Rightarrow> ('s, 'd, 'v) store \<Rightarrow> bytes" where
  "x25519_public V st = ve_to_x V (self_key V st)"

text \<open>Only the logs of active admins other than the device itself are merged in.\<close>

definition folds_keylog :: "('s, 'd, 'v, 'f) vault_env \<Rightarrow> peer \<Rightarrow> peer_record \<Rightarrow> bool" where
  "folds_keylog V self p \<longleftrightarrow>
     pr_status p = Active \<and> pr_role p = Admin \<and> pr_peer_id p \<noteq> self \<and> ve_valid_key V (pr_verifying_key p)"

fun fold_keylogs :: "('s, 'd, 'v, 'f) vault_env \<Rightarrow> path \<Rightarrow> peer \<Rightarrow> peer_record list
    \<Rightarrow> ('s, storage_error, key_log_entry list) op" where
  "fold_keylogs V d self [] = returnE []"
| "fold_keylogs V d self (p # ps) =
     (if \<not> folds_keylog V self p then fold_keylogs V d self ps
      else bindE (key_read_verified (ve_env V) (ve_parse_key V) (key_log_new d (pr_peer_id p) (ve_fs V)) (pr_verifying_key p))
             (\<lambda>es. bindE (fold_keylogs V d self ps) (\<lambda>rest. returnE (es @ rest))))"

definition merged_keylog :: "('s, 'd, 'v, 'f) vault_env \<Rightarrow> (('s, 'd, 'v) store, storage_error, key_log_entry list) op" where
  "merged_keylog V st =
     on_disk (bindE (key_read_verified (ve_env V) (ve_parse_key V) (own_key_log V st) (self_key V st)) (\<lambda>own.
       bindE (fold_keylogs V (keylog_dir (st_root st)) (self_id st) (st_peers st)) (\<lambda>rest. returnE (own @ rest)))) st"

definition store_keychain :: "('s, 'd, 'v, 'f) vault_env \<Rightarrow> bytes \<Rightarrow> bytes \<Rightarrow> (('s, 'd, 'v) store, storage_error, keychain) op" where
  "store_keychain V id_key epoch0_key =
     bindE (merged_keylog V) (\<lambda>entries st.
       (Inr (keychain_build (ve_crypto V) id_key epoch0_key (self_id st) (x25519_secret V st) entries), st))"

definition vault_state :: "('s, 'd, 'v, 'f) vault_env \<Rightarrow> bytes \<Rightarrow> bytes \<Rightarrow> (('s, 'd, 'v) store, storage_error, vault_issue list) op" where
  "vault_state V id_key epoch0_key =
     bindE (store_keychain V id_key epoch0_key) (\<lambda>kc st. (Inr (diagnose kc (st_peers st)), st))"

definition append_key :: "('s, 'd, 'v, 'f) vault_env \<Rightarrow> bytes \<times> key_body \<Rightarrow> (('s, 'd, 'v) store, storage_error, unit) op" where
  "append_key V eb st =
     bindE (on_disk (key_append (ve_env V) (ve_parse_key V) (ve_ser_key V) (own_key_log V st) (st_identity st) (fst eb) (snd eb)))
       (\<lambda>_. returnE ()) st"

text \<open>The wraps of one rotation: active members with a valid key, the device itself, the paper key.\<close>

definition member_target :: "('s, 'd, 'v, 'f) vault_env \<Rightarrow> peer_record \<Rightarrow> (recipient \<times> bytes) option" where
  "member_target V p =
     (if pr_status p = Active \<and> ve_valid_key V (pr_verifying_key p)
      then Some (Device (pr_peer_id p), ve_to_x V (pr_verifying_key p)) else None)"

definition rotate_targets :: "('s, 'd, 'v, 'f) vault_env \<Rightarrow> ('s, 'd, 'v) store \<Rightarrow> bytes option \<Rightarrow> (recipient \<times> bytes) list" where
  "rotate_targets V st paper =
     List.map_filter (member_target V) (st_peers st)
     @ (if list_ex (\<lambda>p. pr_peer_id p = self_id st) (st_peers st) then [] else [(Device (self_id st), x25519_public V st)])
     @ (case paper of Some p \<Rightarrow> [(Paper, p)] | None \<Rightarrow> [])"

definition wrap_body :: "crypto \<Rightarrow> (nat \<Rightarrow> bytes \<times> bytes) \<Rightarrow> nat \<Rightarrow> recipient \<Rightarrow> bytes \<Rightarrow> bytes \<Rightarrow> key_body" where
  "wrap_body C rnd n r pub key = Wrap r (key_wrap C (fst (rnd n)) (snd (rnd n)) pub key)"

definition wrap_bodies :: "crypto \<Rightarrow> (nat \<Rightarrow> bytes \<times> bytes) \<Rightarrow> bytes \<Rightarrow> bytes \<Rightarrow> (recipient \<times> bytes) list \<Rightarrow> (bytes \<times> key_body) list" where
  "wrap_bodies C rnd epoch key ts = map (\<lambda>(n, r, pub). (epoch, wrap_body C rnd n r pub key)) (enumerate 0 ts)"

definition rotate_epoch :: "('s, 'd, 'v, 'f) vault_env \<Rightarrow> bytes \<Rightarrow> bytes \<Rightarrow> (nat \<Rightarrow> bytes \<times> bytes) \<Rightarrow> bytes \<Rightarrow> bytes \<Rightarrow> bytes option
    \<Rightarrow> (('s, 'd, 'v) store, storage_error, bytes) op" where
  "rotate_epoch V nonce new_key rnd id_key epoch0_key paper =
     bindE require_admin (\<lambda>_.
     bindE (store_keychain V id_key epoch0_key) (\<lambda>kc st.
       let parents = dag_heads kc;
           epoch = compute_epoch_id (ve_crypto V) parents (self_id st) nonce new_key in
       bindE (append_key V (epoch, Rotate parents nonce)) (\<lambda>_.
       bindE (eachE (append_key V) (wrap_bodies (ve_crypto V) rnd epoch new_key (rotate_targets V st paper))) (\<lambda>_.
       returnE epoch)) st))"

section \<open>Publishing and recovering\<close>

definition backfill_target :: "('s, 'd, 'v, 'f) vault_env \<Rightarrow> peer_record list \<Rightarrow> bytes \<times> bytes \<times> peer
    \<Rightarrow> (bytes \<times> bytes \<times> peer \<times> bytes) option" where
  "backfill_target V peers t =
     (case t of (epoch, key, p) \<Rightarrow>
        case find_peer peers p of
          Some r \<Rightarrow> if ve_valid_key V (pr_verifying_key r) then Some (epoch, key, p, ve_to_x V (pr_verifying_key r)) else None
        | None \<Rightarrow> None)"

definition backfill_wraps :: "('s, 'd, 'v, 'f) vault_env \<Rightarrow> (nat \<Rightarrow> bytes \<times> bytes) \<Rightarrow> bytes \<Rightarrow> bytes
    \<Rightarrow> (('s, 'd, 'v) store, storage_error, nat) op" where
  "backfill_wraps V rnd id_key epoch0_key =
     bindE (store_keychain V id_key epoch0_key) (\<lambda>kc st.
       let targets = backfill_targets kc (st_peers st);
           found = List.map_filter (backfill_target V (st_peers st)) targets in
       if targets = [] then (Inr 0, st)
       else bindE (eachE (append_key V)
                (map (\<lambda>(n, epoch, key, p, pub). (epoch, wrap_body (ve_crypto V) rnd n (Device p) pub key)) (enumerate 0 found)))
              (\<lambda>_. returnE (length found)) st)"

text \<open>One pass over the merged log; \<open>recovered\<close> are the epochs recovered so far.\<close>

definition paper_key :: "crypto \<Rightarrow> keychain \<Rightarrow> bytes \<Rightarrow> bytes list \<Rightarrow> key_log_entry \<Rightarrow> bytes option" where
  "paper_key C kc secret recovered e =
     (if ke_epoch_id e \<in> set recovered then None
      else if epoch_key kc (ke_epoch_id e) \<noteq> None then None
      else case ke_body e of
             Wrap Paper blob \<Rightarrow>
               (case key_unwrap C secret blob of
                  Inl _ \<Rightarrow> None
                | Inr key \<Rightarrow> if key_matches_epoch C kc (ke_epoch_id e) key then Some key else None)
           | _ \<Rightarrow> None)"

fun recover_loop :: "('s, 'd, 'v, 'f) vault_env \<Rightarrow> (nat \<Rightarrow> bytes \<times> bytes) \<Rightarrow> keychain \<Rightarrow> bytes \<Rightarrow> bytes list \<Rightarrow> key_log_entry list
    \<Rightarrow> (('s, 'd, 'v) store, storage_error, nat) op" where
  "recover_loop V rnd kc secret recovered [] st = (Inr (length recovered), st)"
| "recover_loop V rnd kc secret recovered (e # es) st =
     (case paper_key (ve_crypto V) kc secret recovered e of
        None \<Rightarrow> recover_loop V rnd kc secret recovered es st
      | Some key \<Rightarrow>
          bindE (append_key V (ke_epoch_id e, wrap_body (ve_crypto V) rnd (length recovered) (Device (self_id st)) (x25519_public V st) key))
            (\<lambda>_. recover_loop V rnd kc secret (ke_epoch_id e # recovered) es) st)"

definition recover_with_paper :: "('s, 'd, 'v, 'f) vault_env \<Rightarrow> (nat \<Rightarrow> bytes \<times> bytes) \<Rightarrow> ustr \<Rightarrow> bytes \<Rightarrow> bytes
    \<Rightarrow> (('s, 'd, 'v) store, storage_error, nat) op" where
  "recover_with_paper V rnd phrase id_key epoch0_key =
     (let secret = paper_from_passphrase (ve_crypto V) phrase in
      bindE (store_keychain V id_key epoch0_key) (\<lambda>kc.
      bindE (merged_keylog V) (\<lambda>entries.
      recover_loop V rnd kc secret [] entries)))"

section \<open>The graph after a rotation\<close>

text \<open>The entries a device appends, stamped with consecutive sequence numbers.\<close>

fun stamp :: "peer \<Rightarrow> u64 \<Rightarrow> (bytes \<times> key_body) list \<Rightarrow> key_log_entry list" where
  "stamp a sq [] = []"
| "stamp a sq ((ep, b) # bs) = \<lparr>ke_seq = sq + 1, ke_author = a, ke_epoch_id = ep, ke_body = b\<rparr> # stamp a (sq + 1) bs"

definition rotation_bodies :: "crypto \<Rightarrow> (nat \<Rightarrow> bytes \<times> bytes) \<Rightarrow> bytes \<Rightarrow> bytes list \<Rightarrow> bytes \<Rightarrow> bytes
    \<Rightarrow> (recipient \<times> bytes) list \<Rightarrow> (bytes \<times> key_body) list" where
  "rotation_bodies C rnd i ps nonce key ts = (i, Rotate ps nonce) # wrap_bodies C rnd i key ts"

text \<open>An id that no entry announces, wraps or names as a parent.\<close>

definition fresh_epoch :: "bytes \<Rightarrow> key_log_entry list \<Rightarrow> bool" where
  "fresh_epoch i es \<longleftrightarrow> i \<noteq> EPOCH0_ID
     \<and> (\<forall>e \<in> set es. ke_epoch_id e \<noteq> i \<and> (case ke_body e of Rotate ps _ \<Rightarrow> i \<notin> set ps | Wrap _ _ \<Rightarrow> True))"

lemma fresh_epochD:
  assumes "fresh_epoch i es" "e \<in> set es"
  shows "ke_epoch_id e \<noteq> i" "ke_body e = Rotate ps n \<Longrightarrow> i \<notin> set ps"
  using assms by (fastforce simp: fresh_epoch_def)+

lemma stamp_mem: "e \<in> set (stamp a sq bs) \<Longrightarrow> (ke_epoch_id e, ke_body e) \<in> set bs \<and> ke_author e = a"
  by (induction a sq bs rule: stamp.induct) auto

lemma stamp_has: "(ep, b) \<in> set bs \<Longrightarrow> \<exists>e \<in> set (stamp a sq bs). ke_epoch_id e = ep \<and> ke_body e = b"
  by (induction a sq bs rule: stamp.induct) auto

lemma wrap_bodies_mem:
  "(ep, b) \<in> set (wrap_bodies C rnd i key ts) \<longleftrightarrow>
     ep = i \<and> (\<exists>n r pub. n < length ts \<and> ts ! n = (r, pub) \<and> b = wrap_body C rnd n r pub key)"
proof
  assume "ep = i \<and> (\<exists>n r pub. n < length ts \<and> ts ! n = (r, pub) \<and> b = wrap_body C rnd n r pub key)"
  then obtain n r pub where "ep = i" "(n, r, pub) \<in> set (enumerate 0 ts)" "b = wrap_body C rnd n r pub key"
    by (auto simp: in_set_enumerate_eq)
  then show "(ep, b) \<in> set (wrap_bodies C rnd i key ts)" unfolding wrap_bodies_def set_map by (intro image_eqI) auto
qed (auto simp: wrap_bodies_def in_set_enumerate_eq)

text \<open>What a rotation adds, told by epoch id.\<close>

lemma rotation_find:
  assumes "fresh_epoch i (own @ rest)"
  shows "find (is_rotate j) (own @ stamp a sq (rotation_bodies C rnd i ps nonce key ts) @ rest) =
    (if j = i then Some \<lparr>ke_seq = sq + 1, ke_author = a, ke_epoch_id = i, ke_body = Rotate ps nonce\<rparr>
     else find (is_rotate j) (own @ rest))"
proof -
  have own: "find (is_rotate i) own = None" using assms by (auto simp: find_None_iff fresh_epoch_def is_rotate_def)
  have wraps: "\<not> is_rotate j e" if "e \<in> set (stamp a (sq + 1) (wrap_bodies C rnd i key ts))" for e
    using stamp_mem [OF that] by (auto simp: wrap_bodies_mem is_rotate_def wrap_body_def)
  then have "find (is_rotate j) (stamp a (sq + 1) (wrap_bodies C rnd i key ts)) = None" by (auto simp: find_None_iff)
  then show ?thesis using own by (auto simp: rotation_bodies_def find_append is_rotate_def split: option.splits)
qed

lemma parents_iff: "bt_ok m \<Longrightarrow> j \<in> set (parents_of m) \<longleftrightarrow> (\<exists>x S. map_option (\<lambda>n. set (en_parents n)) (bt_get m x) = Some S \<and> j \<in> S)"
  by (auto simp: set_parents_of bt_get_iff)

lemma singleton_list: "set xs = {x} \<Longrightarrow> distinct xs \<Longrightarrow> xs = [x]"
  by (cases xs; cases "tl xs") auto

lemma rotation_single_head:
  assumes fresh: "fresh_epoch i (own @ rest)"
    and ps: "ps = dag_heads (keychain_build C idk k0 self sec (own @ rest))"
  shows "dag_heads (keychain_build C' idk' k0' self' sec' (own @ stamp a sq (rotation_bodies C rnd i ps nonce key ts) @ rest)) = [i]"
proof -
  let ?es = "own @ rest" and ?es' = "own @ stamp a sq (rotation_bodies C rnd i ps nonce key ts) @ rest"
  let ?m = "build_epochs C k0 self sec ?es" and ?m' = "build_epochs C' k0' self' sec' ?es'"
  let ?shape = "\<lambda>m j. map_option (\<lambda>n. set (en_parents n)) (bt_get m j)"
  have i: "i \<noteq> EPOCH0_ID" using fresh by (simp add: fresh_epoch_def)
  have shape': "?shape ?m' j = (if j = i then Some (set ps) else ?shape ?m j)" for j
    unfolding announced_parents rotation_find [OF fresh] using i by (simp add: rotate_node_def)
  have key: "x \<in> set (bt_keys m) \<longleftrightarrow> ?shape m x \<noteq> None" for m x by (simp add: bt_keys_build)
  have i_new: "?shape ?m i = None" "i \<notin> set (parents_of ?m)"
  proof -
    have none: "find (is_rotate i) ?es = None" using fresh by (auto simp: find_None_iff fresh_epoch_def is_rotate_def)
    then show "?shape ?m i = None" unfolding announced_parents using i by simp
    have "i \<notin> S" if S: "?shape ?m x = Some S" for x S
    proof (cases "x = EPOCH0_ID")
      case True
      then show ?thesis using S unfolding announced_parents by simp
    next
      case False
      then obtain e where "find (is_rotate x) ?es = Some e" "S = set (en_parents (announce e))"
        using S unfolding announced_parents by auto
      then show ?thesis using find_is_rotate [of x ?es e] fresh_epochD(2) [OF fresh, of e]
        by (cases "ke_body e") (auto simp: is_rotate_def rotate_node_def)
    qed
    then show "i \<notin> set (parents_of ?m)" unfolding parents_iff [OF build_ok] by blast
  qed
  have leaf: "x \<in> set ps" if "?shape ?m x \<noteq> None" "x \<notin> set (parents_of ?m)" for x
    using that ps by (auto simp: dag_heads_def Let_def filter_empty_conv key)
  have ps_known: "i \<notin> set ps" using i i_new(1) ps by (auto simp: dag_heads_def Let_def key split: if_splits)
  have parents': "x \<in> set (parents_of ?m') \<longleftrightarrow> x \<in> set ps \<or> x \<in> set (parents_of ?m)" for x
    unfolding parents_iff [OF build_ok] shape' using i_new(1) by (metis option.distinct(1) option.inject)
  let ?l = "filter (\<lambda>x. x \<notin> set (parents_of ?m')) (bt_keys ?m')"
  have "set ?l = {i}"
    using i_new ps_known leaf by (auto simp: parents' key shape' split: if_splits)
  moreover have "distinct ?l" using build_ok by (auto intro: distinct_filter simp: bt_keys_def bt_ok_distinct)
  ultimately have "?l = [i]" by (rule singleton_list)
  then show ?thesis by (simp add: dag_heads_def)
qed

text \<open>A device that the rotation addresses holds the new key.\<close>

lemma rotation_delivers:
  assumes laws: "crypto_laws C" "\<And>n. length (snd (rnd n)) = NONCE_LEN" "length key = 32"
    and fresh: "fresh_epoch i (own @ rest)" and i: "i = compute_epoch_id C ps a nonce key"
    and ts: "(Device p, cr_x_public C sec) \<in> set ts" "\<And>pub. (Device p, pub) \<in> set ts \<Longrightarrow> pub = cr_x_public C sec"
  shows "epoch_key (keychain_build C idk k0 p sec (own @ stamp a sq (rotation_bodies C rnd i ps nonce key ts) @ rest)) i = Some key"
proof -
  let ?new = "stamp a sq (rotation_bodies C rnd i ps nonce key ts)"
  let ?es = "own @ ?new @ rest"
  let ?er = "\<lparr>ke_seq = sq + 1, ke_author = a, ke_epoch_id = i, ke_body = Rotate ps nonce\<rparr>"
  let ?n0 = "announce ?er"
  have ne: "i \<noteq> EPOCH0_ID" using fresh by (simp add: fresh_epoch_def)
  have get: "bt_get (build_epochs C k0 p sec ?es) i = Some (fold (node_step C p sec i) ?es ?n0)"
    using rotation_find [OF fresh, of i] ne by (simp add: build_get announced_def)
  have com: "commits C ?n0 key = i" by (simp add: rotate_node_def i)
  have unwrap: "key_unwrap C sec (key_wrap C eph (snd (rnd n)) (cr_x_public C sec) key) = Inr key" for eph n
    using key_unwrap_wrap [OF laws(1) laws(2) laws(3)] .
  obtain n where n: "n < length ts" "ts ! n = (Device p, cr_x_public C sec)" using ts(1) by (metis in_set_conv_nth)
  then have "(i, wrap_body C rnd n (Device p) (cr_x_public C sec) key) \<in> set (rotation_bodies C rnd i ps nonce key ts)"
    by (auto simp: rotation_bodies_def wrap_bodies_mem)
  from stamp_has [OF this, of a sq] obtain e where e: "e \<in> set ?new" "delivers C p sec i e key"
    by (auto simp: delivers_def wrap_body_def unwrap)
  then obtain k' where k': "en_key (fold (node_step C p sec i) ?es ?n0) = Some k'"
    using node_fold_key_delivered [OF _ e(2) com, of ?es] by auto
  have "en_key ?n0 = None" by (simp add: rotate_node_def)
  then obtain d where d: "d \<in> set ?es" "delivers C p sec i d k'" using node_fold_key_origin [OF k'] by auto
  then have "d \<in> set ?new" using fresh_epochD(1) [OF fresh, of d] by (auto simp: delivers_def)
  from stamp_mem [OF this] d(2) obtain m pub where "m < length ts" "ts ! m = (Device p, pub)" "key_unwrap C sec (key_wrap C (fst (rnd m)) (snd (rnd m)) pub key) = Inr k'"
    by (auto simp: delivers_def rotation_bodies_def wrap_bodies_mem wrap_body_def)
  then have "k' = key" using ts(2) [of pub] unwrap by (metis nth_mem sum.inject(2))
  then show ?thesis using get k' by (simp add: epoch_key_def)
qed

section \<open>Appending to the own key log\<close>

context lawful_fs
begin

lemma read_verified_frame:
  assumes "ok s" "ok s'" "files s' p = files s p"
  shows "fst (read_verified fs p parse chk s') = fst (read_verified fs p parse chk s)"
  using read_to_string_ok [OF assms(1), of p] read_to_string_ok [OF assms(2), of p] assms(3)
  by (auto simp: read_verified_def split: option.splits sum.splits io_kind.splits)

lemma fold_keylogs_frame:
  assumes "ok s" "ok s'" "ve_fs V = fs" "\<And>a. a \<noteq> self \<Longrightarrow> files s' (key_log_path root a) = files s (key_log_path root a)"
    and "fold_keylogs V (keylog_dir root) self ps s = (Inr rest, s)"
  shows "fold_keylogs V (keylog_dir root) self ps s' = (Inr rest, s')"
  using assms(5)
proof (induction ps arbitrary: rest)
  case (Cons p ps)
  show ?case
  proof (cases "folds_keylog V self p")
    case True
    let ?r = "read_verified fs (key_log_path root (pr_peer_id p)) (ve_parse_key V) (key_check (ve_env V) (pr_peer_id p) (pr_verifying_key p))"
    have r: "key_read_verified (ve_env V) (ve_parse_key V) (key_log_new (keylog_dir root) (pr_peer_id p) (ve_fs V)) (pr_verifying_key p) = ?r"
      by (simp add: key_read_verified_def key_log_new_def key_log_path_def assms(3))
    have st: "?r s = (fst (?r s), s)" "?r s' = (fst (?r s), s')"
      using read_verified_state [OF assms(1)] read_verified_state [OF assms(2)] read_verified_frame [OF assms(1,2)]
        assms(4) [of "pr_peer_id p"] True by (auto simp: prod_eq_iff folds_keylog_def)
    have "bindE ?r (\<lambda>es. bindE (fold_keylogs V (keylog_dir root) self ps) (\<lambda>rest. returnE (es @ rest))) s = (Inr rest, s)"
      using Cons.prems True by (simp add: r)
    then obtain es rest' where "fst (?r s) = Inr es" "fold_keylogs V (keylog_dir root) self ps s = (Inr rest', s)" "rest = es @ rest'"
      using st(1) by (cases "fst (?r s)") (auto simp: bindE_def split: prod.splits sum.splits)
    then show ?thesis using Cons.IH [of rest'] True st(2) by (simp add: r)
  qed (use Cons in simp)
qed simp

lemma merged_keylog_eq:
  assumes "ok (st_disk st)" "ve_fs V = fs"
    and "contents (files (st_disk st) (key_log_path (st_root st) (self_id st))) = utf8 (log_text (ve_ser_key V) ls)"
    and "json_laws (ve_parse_key V) (ve_ser_key V) (set ls)" "map_r (key_check (ve_env V) (self_id st) (self_key V st)) ls = Inr own"
    and "fold_keylogs V (keylog_dir (st_root st)) (self_id st) (st_peers st) (st_disk st) = (Inr rest, st_disk st)"
  shows "merged_keylog V st = (Inr (own @ rest), st)"
proof -
  have "key_read_verified (ve_env V) (ve_parse_key V) (own_key_log V st) (self_key V st) (st_disk st) = (Inr own, st_disk st)"
    using read_verified_eq [OF assms(1,3) valid_log_text [OF assms(4)], of "ve_parse_key V" "key_check (ve_env V) (self_id st) (self_key V st)"]
      verify_text_log [OF assms(4), of "key_check (ve_env V) (self_id st) (self_key V st)"] assms(2,5)
    by (simp add: key_read_verified_def own_key_log_def key_log_new_def key_log_path_def)
  then show ?thesis using assms(6) by (simp add: merged_keylog_def on_disk_def)
qed

lemma append_key_step:
  assumes s: "ok (st_disk st)" "ve_fs V = fs" "okp p" "room (st_disk st) p" "p = key_log_path (st_root st) (self_id st)"
    and log: "contents (files (st_disk st) p) = utf8 (log_text (ve_ser_key V) ls)"
    and old: "json_laws (ve_parse_key V) (ve_ser_key V) (set ls)" "map_r (key_check (ve_env V) (self_id st) (self_key V st)) ls = Inr es"
    and e: "e = \<lparr>ke_seq = last_seq_of ke_seq es + 1, ke_author = self_id st, ke_epoch_id = ep, ke_body = body\<rparr>"
      "key_entry_ok e"
    and env: "env_laws (ve_env V)"
  shows "\<exists>s'. append_key V (ep, body) st = (Inr (), st\<lparr>st_disk := s'\<rparr>) \<and> ok s' \<and> room s' p
    \<and> contents (files s' p) = utf8 (log_text (ve_ser_key V) (ls @ [key_line_of (ve_env V) (st_identity st) e]))
    \<and> (\<forall>q. q \<noteq> p \<longrightarrow> files s' q = files (st_disk st) q)
    \<and> map_r (key_check (ve_env V) (self_id st) (self_key V st)) (ls @ [key_line_of (ve_env V) (st_identity st) e]) = Inr (es @ [e])"
proof -
  let ?i = "st_identity st" and ?E = "ve_env V" and ?kl = "own_key_log V st"
  let ?l = "key_line_of ?E ?i e" and ?chk = "key_check ?E (self_id st) (self_key V st)"
  have kl: "klog_path ?kl = p" "klog_author ?kl = self_id st" "klog_fs ?kl = fs"
    by (simp_all add: own_key_log_def key_log_new_def s(2,5) key_log_path_def)
  obtain s1 where s1: "ensure_parent fs p (st_disk st) = (Inr (), s1)" "ok s1" "files s1 = files (st_disk st)" "room s1 p"
    using ensure_parent_ok [OF s(1,4)] by blast
  have log1: "contents (files s1 p) = utf8 (log_text (ve_ser_key V) ls)" using log s1(3) by simp
  have read1: "key_read_verified ?E (ve_parse_key V) ?kl (verifying_key ?E ?i) s1 = (Inr es, s1)"
    using read_verified_eq [OF s1(2) log1 valid_log_text [OF old(1)], of "ve_parse_key V" ?chk] verify_text_log [OF old(1), of ?chk] old(2)
    by (simp add: key_read_verified_def kl self_key_def)
  obtain s2 where s2: "append_json fs p (ve_ser_key V ?l) s1 = (Inr (), s2)" "ok s2"
    "contents (files s2 p) = utf8 (log_text (ve_ser_key V) (ls @ [?l]))" "\<forall>q. q \<noteq> p \<longrightarrow> files s2 q = files s1 q"
    "files s2 p \<noteq> None"
    using append_json_ok [OF s1(2) s(3) s1(4) log1, of "ve_ser_key V ?l"] by auto
  have "?chk ?l = Inr e" using key_check_line [OF env e(2), of ?i] e(1) by (simp add: self_key_def)
  then have m: "map_r ?chk (ls @ [?l]) = Inr (es @ [e])" using old(2) by (simp add: map_r_append)
  have "append_key V (ep, body) st = (Inr (), st\<lparr>st_disk := s2\<rparr>)"
    using s1(1) read1 s2(1) by (simp add: append_key_def key_append_def key_last_seq_def kl self_id_def on_disk_def Let_def e(1))
  then show ?thesis using s1(3) s2 m room_file [OF s2(2,5)] by (intro exI [of _ s2]) simp
qed

lemma append_keys:
  assumes s: "ok (st_disk st)" "ve_fs V = fs" "okp p" "room (st_disk st) p" "p = key_log_path (st_root st) (self_id st)"
    and log: "contents (files (st_disk st) p) = utf8 (log_text (ve_ser_key V) ls)"
    and old: "map_r (key_check (ve_env V) (self_id st) (self_key V st)) ls = Inr es"
    and new: "list_all key_entry_ok (stamp (self_id st) (last_seq_of ke_seq es) bs)"
    and laws: "json_laws (ve_parse_key V) (ve_ser_key V)
      (set (ls @ map (key_line_of (ve_env V) (st_identity st)) (stamp (self_id st) (last_seq_of ke_seq es) bs)))"
    and env: "env_laws (ve_env V)"
  shows "\<exists>s'. eachE (append_key V) bs st = (Inr (), st\<lparr>st_disk := s'\<rparr>) \<and> ok s'
    \<and> contents (files s' p) = utf8 (log_text (ve_ser_key V) (ls @ map (key_line_of (ve_env V) (st_identity st)) (stamp (self_id st) (last_seq_of ke_seq es) bs)))
    \<and> (\<forall>q. q \<noteq> p \<longrightarrow> files s' q = files (st_disk st) q)
    \<and> map_r (key_check (ve_env V) (self_id st) (self_key V st))
        (ls @ map (key_line_of (ve_env V) (st_identity st)) (stamp (self_id st) (last_seq_of ke_seq es) bs))
        = Inr (es @ stamp (self_id st) (last_seq_of ke_seq es) bs)"
  using s log old new laws
proof (induction bs arbitrary: st ls es)
  case Nil
  then show ?case by (intro exI [of _ "st_disk st"]) simp
next
  case (Cons b bs)
  obtain ep body where b: "b = (ep, body)" by (cases b)
  let ?sq = "last_seq_of ke_seq es" and ?line = "key_line_of (ve_env V) (st_identity st)"
  let ?e = "\<lparr>ke_seq = ?sq + 1, ke_author = self_id st, ke_epoch_id = ep, ke_body = body\<rparr>"
  have "json_laws (ve_parse_key V) (ve_ser_key V) (set ls)" using Cons.prems(9) by (rule json_laws_mono) auto
  moreover have "key_entry_ok ?e" using Cons.prems(8) b by simp
  ultimately obtain s1 where s1: "append_key V b st = (Inr (), st\<lparr>st_disk := s1\<rparr>)" "ok s1" "room s1 p"
    "contents (files s1 p) = utf8 (log_text (ve_ser_key V) (ls @ [?line ?e]))" "\<forall>q. q \<noteq> p \<longrightarrow> files s1 q = files (st_disk st) q"
    "map_r (key_check (ve_env V) (self_id st) (self_key V st)) (ls @ [?line ?e]) = Inr (es @ [?e])"
    using append_key_step [OF Cons.prems(1-6) _ Cons.prems(7) refl _ env] unfolding b by blast
  let ?st1 = "st\<lparr>st_disk := s1\<rparr>"
  have same: "self_id ?st1 = self_id st" "self_key V ?st1 = self_key V st" by (simp_all add: self_id_def self_key_def)
  have sq: "last_seq_of ke_seq (es @ [?e]) = ?sq + 1" by (simp add: last_seq_of_def)
  have "json_laws (ve_parse_key V) (ve_ser_key V) (set ((ls @ [?line ?e]) @ map ?line (stamp (self_id st) (?sq + 1) bs)))"
    using Cons.prems(9) by (rule json_laws_mono) (simp add: b)
  moreover have "list_all key_entry_ok (stamp (self_id st) (?sq + 1) bs)" using Cons.prems(8) b by simp
  ultimately show ?case
    using Cons.IH [of ?st1 "ls @ [?line ?e]" "es @ [?e]"] s1 Cons.prems(2,3,5) same b by (simp add: sq)
qed

end

lemma read_verified_sound:
  "read_verified fs p parse chk s = (Inr es, s') \<Longrightarrow> e \<in> set es \<Longrightarrow> \<exists>x. chk x = Inr e"
  using verify_text_sound by (fastforce simp: read_verified_def split: prod.splits sum.splits io_kind.splits)

lemma key_check_length: "key_check E a k l = Inr e \<Longrightarrow> length (ke_epoch_id e) = 32"
  by (auto simp: key_check_def b64_32_def bind_r_Inr_iff Let_def split: if_splits)

lemma fold_keylogs_length:
  "fold_keylogs V d self ps s = (Inr es, s') \<Longrightarrow> e \<in> set es \<Longrightarrow> length (ke_epoch_id e) = 32"
proof (induction ps arbitrary: es s s')
  case (Cons p ps)
  show ?case
  proof (cases "folds_keylog V self p")
    case True
    then obtain es1 s1 es2 where "key_read_verified (ve_env V) (ve_parse_key V) (key_log_new d (pr_peer_id p) (ve_fs V)) (pr_verifying_key p) s = (Inr es1, s1)"
      "fold_keylogs V d self ps s1 = (Inr es2, s')" "es = es1 @ es2"
      using Cons.prems(1) by (auto simp: bindE_Inr_iff)
    then show ?thesis
      using Cons.IH [of s1 es2 s'] Cons.prems(2) read_verified_sound key_check_length unfolding key_read_verified_def
      by (metis Un_iff set_append)
  qed (use Cons in simp)
qed simp

lemma map_r_mem: "map_r f xs = Inr ys \<Longrightarrow> y \<in> set ys \<Longrightarrow> \<exists>x. f x = Inr y"
  by (induction xs arbitrary: ys) (auto simp: bind_r_Inr_iff)

lemma dag_heads_length:
  assumes "\<And>e. e \<in> set es \<Longrightarrow> length (ke_epoch_id e) = 32" "h \<in> set (dag_heads (keychain_build C idk k0 self sec es))"
  shows "length h = 32"
proof (cases "h = EPOCH0_ID")
  case False
  then have "bt_get (build_epochs C k0 self sec es) h \<noteq> None" using assms(2) by (auto simp: dag_heads_def Let_def bt_keys_build split: if_splits)
  then obtain e where "e \<in> set es" "ke_epoch_id e = h" using build_key(1) [of C k0 self sec es h] False by fastforce
  then show ?thesis using assms(1) by blast
qed (simp add: EPOCH0_ID_def)

section \<open>Minting an epoch\<close>

text \<open>The entries a rotation writes fit the log format.\<close>

lemma rotation_entries_ok:
  assumes "length i = 32" "\<forall>h \<in> set ps. length h = 32" "length ps < 2 ^ 64" "length nonce = 32"
    and "\<forall>n < length ts. length (key_wrap C (fst (rnd n)) (snd (rnd n)) (snd (ts ! n)) key) < 2 ^ 64"
  shows "list_all key_entry_ok (stamp a sq (rotation_bodies C rnd i ps nonce key ts))"
  unfolding list_all_iff
proof
  fix e assume "e \<in> set (stamp a sq (rotation_bodies C rnd i ps nonce key ts))"
  note stamp_mem [OF this]
  then consider "ke_epoch_id e = i" "ke_body e = Rotate ps nonce"
    | n r pub where "ke_epoch_id e = i" "n < length ts" "ts ! n = (r, pub)" "ke_body e = wrap_body C rnd n r pub key"
    by (auto simp: rotation_bodies_def wrap_bodies_mem)
  then show "key_entry_ok e"
  proof cases
    case 1
    then show ?thesis using assms by (simp add: key_entry_ok_def body_ok_def list_all_iff)
  next
    case 2
    then show ?thesis using assms(1,5) by (force simp: key_entry_ok_def body_ok_def wrap_body_def)
  qed
qed

lemma set_map_filter: "set (List.map_filter f xs) = {y. \<exists>x \<in> set xs. f x = Some y}"
  by (induction xs) (auto simp: map_filter_simps split: option.splits)

lemma rotate_targets_member:
  assumes "distinct (map pr_peer_id (st_peers st))" "r \<in> set (st_peers st)" "pr_status r = Active" "ve_valid_key V (pr_verifying_key r)"
  shows "(Device (pr_peer_id r), ve_to_x V (pr_verifying_key r)) \<in> set (rotate_targets V st paper)"
    "(Device (pr_peer_id r), pub) \<in> set (rotate_targets V st paper) \<Longrightarrow> pub = ve_to_x V (pr_verifying_key r)"
proof -
  show "(Device (pr_peer_id r), ve_to_x V (pr_verifying_key r)) \<in> set (rotate_targets V st paper)"
    using assms(2-4) by (force simp: rotate_targets_def member_target_def set_map_filter)
  have "list_ex (\<lambda>p. pr_peer_id p = self_id st) (st_peers st)" if "pr_peer_id r = self_id st"
    using assms(2) that by (auto simp: list_ex_iff)
  moreover have "q = r" if "q \<in> set (st_peers st)" "pr_peer_id q = pr_peer_id r" for q
    using assms(1,2) that by (metis inj_onD distinct_map)
  ultimately show "(Device (pr_peer_id r), pub) \<in> set (rotate_targets V st paper) \<Longrightarrow> pub = ve_to_x V (pr_verifying_key r)"
    by (auto simp: rotate_targets_def member_target_def set_map_filter split: if_splits option.splits)
qed

definition own_key_lines :: "('s, 'd, 'v, 'f) vault_env \<Rightarrow> ('s, 'd, 'v) store \<Rightarrow> bytes option \<Rightarrow> key_line list \<Rightarrow> key_log_entry list \<Rightarrow> bool" where
  "own_key_lines V st log ls own \<longleftrightarrow> contents log = utf8 (log_text (ve_ser_key V) ls)
     \<and> map_r (key_check (ve_env V) (self_id st) (self_key V st)) ls = Inr own"

context lawful_fs
begin

lemma rotate_epoch_log:
  assumes disk: "ok (st_disk st)" "ve_fs V = fs" "okp p" "room (st_disk st) p" "p = key_log_path (st_root st) (self_id st)"
    and log: "own_key_lines V st (files (st_disk st) p) ls own"
      "fold_keylogs V (keylog_dir (st_root st)) (self_id st) (st_peers st) (st_disk st) = (Inr rest, st_disk st)"
    and admin: "is_active_admin st"
    and i: "ps = dag_heads (keychain_build (ve_crypto V) idk k0 (self_id st) (x25519_secret V st) (own @ rest))"
      "i = compute_epoch_id (ve_crypto V) ps (self_id st) nonce key"
    and new: "new = stamp (self_id st) (last_seq_of ke_seq own) (rotation_bodies (ve_crypto V) rnd i ps nonce key (rotate_targets V st paper))"
      "list_all key_entry_ok new"
    and laws: "json_laws (ve_parse_key V) (ve_ser_key V) (set (ls @ map (key_line_of (ve_env V) (st_identity st)) new))" "env_laws (ve_env V)"
  shows "\<exists>s'. rotate_epoch V nonce key rnd idk k0 paper st = (Inr i, st\<lparr>st_disk := s'\<rparr>)
    \<and> merged_keylog V (st\<lparr>st_disk := s'\<rparr>) = (Inr (own @ new @ rest), st\<lparr>st_disk := s'\<rparr>)"
proof -
  let ?C = "ve_crypto V" and ?ts = "rotate_targets V st paper"
  let ?bs = "rotation_bodies ?C rnd i ps nonce key ?ts"
  note lines = log(1) [unfolded own_key_lines_def]
  have old: "json_laws (ve_parse_key V) (ve_ser_key V) (set ls)" using laws(1) by (rule json_laws_mono) auto
  have merged: "merged_keylog V st = (Inr (own @ rest), st)"
    using merged_keylog_eq [OF disk(1,2) _ old _ log(2)] lines disk(5) by simp
  obtain s' where s': "eachE (append_key V) ?bs st = (Inr (), st\<lparr>st_disk := s'\<rparr>)" "ok s'"
    "contents (files s' p) = utf8 (log_text (ve_ser_key V) (ls @ map (key_line_of (ve_env V) (st_identity st)) new))"
    "\<forall>q. q \<noteq> p \<longrightarrow> files s' q = files (st_disk st) q"
    "map_r (key_check (ve_env V) (self_id st) (self_key V st)) (ls @ map (key_line_of (ve_env V) (st_identity st)) new) = Inr (own @ new)"
    using append_keys [OF disk _ _ _ _ laws(2), of ls own ?bs] lines new laws(1) by auto
  let ?st' = "st\<lparr>st_disk := s'\<rparr>"
  have same: "self_id ?st' = self_id st" "self_key V ?st' = self_key V st" by (simp_all add: self_id_def self_key_def)
  have "files s' (key_log_path (st_root st) a) = files (st_disk st) (key_log_path (st_root st) a)" if "a \<noteq> self_id st" for a
    using s'(4) that disk(5) own_log_iff(3) by (metis insertI1 insertI2 own_logs_def)
  then have rest: "fold_keylogs V (keylog_dir (st_root st)) (self_id st) (st_peers st) s' = (Inr rest, s')"
    using fold_keylogs_frame [OF disk(1) s'(2) disk(2) _ log(2)] by blast
  have "merged_keylog V ?st' = (Inr ((own @ new) @ rest), ?st')"
    by (rule merged_keylog_eq) (use s' disk(2,5) laws(1) rest same in simp_all)
  moreover have "rotate_epoch V nonce key rnd idk k0 paper st = (Inr i, ?st')"
    using admin merged s'(1)
    by (auto simp: rotate_epoch_def require_admin_def store_keychain_def Let_def i(1)[symmetric] i(2)[symmetric] rotation_bodies_def
        bindE_def split: prod.splits sum.splits)
  ultimately show ?thesis by (intro exI [of _ s']) simp
qed

end

text \<open>
  C10: minting an epoch works end to end. On a store whose key logs read, with room for its own key
  log, an active admin's rotation succeeds and appends the new entries; rebuilding the keychain from
  disk then gives the new epoch as the only leaf, and the device writes under the new key. Every active
  member with a valid key that reads the same entries, and whose secret matches its roster key, holds
  the same key. The id must be fresh in the logs, which randomness makes it.
\<close>

theorem rotate_epoch_becomes_head:
  fixes st :: "(pool, 'd, 'v) store"
  assumes disk: "pool_ok (st_disk st)" "ve_fs V = pool_fs" "pool_path p" "pool_room (st_disk st) p" "p = key_log_path (st_root st) (self_id st)"
    and log: "own_key_lines V st (pool_file (st_disk st) p) ls own"
      "fold_keylogs V (keylog_dir (st_root st)) (self_id st) (st_peers st) (st_disk st) = (Inr rest, st_disk st)"
    and me: "find_peer (st_peers st) (self_id st) = Some me" "pr_status me = Active" "pr_role me = Admin" "ve_valid_key V (pr_verifying_key me)"
      "cr_x_public C (x25519_secret V st) = ve_to_x V (pr_verifying_key me)" "distinct (map pr_peer_id (st_peers st))"
    and i: "C = ve_crypto V" "ps = dag_heads (keychain_build C idk k0 (self_id st) (x25519_secret V st) (own @ rest))"
      "i = compute_epoch_id C ps (self_id st) nonce key" "fresh_epoch i (own @ rest)" "length ps < 2 ^ 64"
    and sizes: "length i = 32" "length nonce = 32" "length key = 32" "\<And>n. length (snd (rnd n)) = NONCE_LEN" "\<And>k n. length (cr_seal C k n key) \<le> 48"
    and new: "new = stamp (self_id st) (last_seq_of ke_seq own) (rotation_bodies C rnd i ps nonce key (rotate_targets V st paper))"
    and laws: "json_laws (ve_parse_key V) (ve_ser_key V) (set (ls @ map (key_line_of (ve_env V) (st_identity st)) new))"
      "env_laws (ve_env V)" "crypto_laws C"
  shows "\<exists>st' kc. rotate_epoch V nonce key rnd idk k0 paper st = (Inr i, st')
    \<and> store_keychain V idk k0 st' = (Inr kc, st') \<and> dag_heads kc = [i] \<and> head_write_key kc = Some (i, key)
    \<and> (\<forall>r sec. r \<in> set (st_peers st) \<and> pr_status r = Active \<and> ve_valid_key V (pr_verifying_key r) \<and> cr_x_public C sec = ve_to_x V (pr_verifying_key r)
         \<longrightarrow> epoch_key (keychain_build C idk k0 (pr_peer_id r) sec (own @ new @ rest)) i = Some key)"
proof -
  have len: "length (ke_epoch_id e) = 32" if "e \<in> set (own @ rest)" for e
    using that log map_r_mem [of _ ls own e] key_check_length fold_keylogs_length [OF log(2)] unfolding own_key_lines_def by fastforce
  have "length (cr_x_public C a) = 32" for a using laws(3) by (simp add: crypto_laws_def)
  then have blob: "length (key_wrap C (fst (rnd n)) (snd (rnd n)) pub key) < 2 ^ 64" for n pub
    using sizes(5) [of "wrap_subkey C (cr_dh C (fst (rnd n)) pub) (cr_x_public C (fst (rnd n))) pub" "snd (rnd n)"] sizes(4) [of n]
    by (simp add: key_wrap_def Let_def NONCE_LEN_def)
  have "\<forall>h \<in> set ps. length h = 32" unfolding i(2) using dag_heads_length [of "own @ rest", OF len] by blast
  then have entries: "list_all key_entry_ok new"
    unfolding new by (rule rotation_entries_ok [OF sizes(1) _ i(5) sizes(2)]) (use blob in blast)
  have admin: "is_active_admin st" using me by (simp add: is_active_admin_def)
  obtain s' where s': "rotate_epoch V nonce key rnd idk k0 paper st = (Inr i, st\<lparr>st_disk := s'\<rparr>)"
    "merged_keylog V (st\<lparr>st_disk := s'\<rparr>) = (Inr (own @ new @ rest), st\<lparr>st_disk := s'\<rparr>)"
    using slots.rotate_epoch_log [OF disk log admin _ _ _ entries laws(1,2)] i(1-3) new by blast
  have member: "epoch_key (keychain_build C idk k0 (pr_peer_id r) sec (own @ new @ rest)) i = Some key"
    if r: "r \<in> set (st_peers st)" "pr_status r = Active" "ve_valid_key V (pr_verifying_key r)" "cr_x_public C sec = ve_to_x V (pr_verifying_key r)" for r sec
    unfolding new
    by (rule rotation_delivers [OF laws(3) sizes(4,3) i(4,3)]) (use rotate_targets_member [OF me(6) r(1-3)] r(4) in auto)
  let ?kc = "keychain_build C idk k0 (self_id st) (x25519_secret V st) (own @ new @ rest)"
  have self: "me \<in> set (st_peers st)" "pr_peer_id me = self_id st" using me(1) by (auto simp: find_peer_def find_Some_iff)
  have heads: "dag_heads ?kc = [i]" unfolding new by (rule rotation_single_head [OF i(4,2)])
  then have "kc_head ?kc = i" using select_head_dag_heads [of ?kc] by simp
  then have "head_write_key ?kc = Some (i, key)" using member [OF self(1) me(2,4,5)] self(2) by (simp add: head_write_key_def)
  moreover have "store_keychain V idk k0 (st\<lparr>st_disk := s'\<rparr>) = (Inr ?kc, st\<lparr>st_disk := s'\<rparr>)"
    using s'(2) i(1) by (simp add: store_keychain_def self_id_def x25519_secret_def)
  ultimately show ?thesis using s'(1) heads member by (intro exI [of _ "st\<lparr>st_disk := s'\<rparr>"] exI [of _ ?kc]) auto
qed

text \<open>A codec for the lines of a list: a line is printed as its position, in unary.\<close>

definition toy_sers :: "'l list \<Rightarrow> 'l \<Rightarrow> ustr" where
  "toy_sers L l = replicate (length (takeWhile (\<lambda>x. x \<noteq> l) L)) 120 @ [125]"

definition toy_parses :: "'l list \<Rightarrow> ustr \<Rightarrow> 'l option" where
  "toy_parses L j = (if j \<noteq> [] \<and> j = replicate (length j - 1) 120 @ [125] \<and> length j \<le> length L then Some (L ! (length j - 1)) else None)"

lemma toy_lines_laws: "json_laws (toy_parses L) (toy_sers L) (set L)"
  unfolding json_laws_def
proof (intro ballI conjI allI impI)
  fix l assume l: "l \<in> set L"
  let ?n = "length (takeWhile (\<lambda>x. x \<noteq> l) L)"
  have "\<not> list_all (\<lambda>x. x \<noteq> l) L" using l by (auto simp: list_all_iff)
  then have n: "?n < length L" by (metis length_takeWhile_le le_neq_implies_less list_all_iff takeWhile_eq_all_conv takeWhile_eq_take take_all_iff le_refl)
  then have "L ! ?n = l" using nth_length_takeWhile [of "\<lambda>x. x \<noteq> l" L] by simp
  then show "toy_parses L (toy_sers L l) = Some l" using n by (simp add: toy_parses_def toy_sers_def)
  show "newline \<notin> set (toy_sers L l)" "last (toy_sers L l) = 125" "valid_str (toy_sers L l)" "\<not> is_blank (toy_sers L l)"
    by (auto simp: toy_sers_def newline_def valid_str_def list_all_iff scalar_def is_blank_iff is_whitespace_def)
  fix p q assume pq: "toy_sers L l = p @ q \<and> q \<noteq> []"
  then have "set p \<subseteq> {120}" by (metis (no_types, lifting) butlast_append butlast_snoc in_set_replicate le_sup_iff set_append subsetI singletonI toy_sers_def)
  then have "last p = 120" if "p \<noteq> []" using last_in_set [OF that] by blast
  then show "toy_parses L p = None" unfolding toy_parses_def by (metis last_snoc numeral_eq_iff num.distinct(5) num.inject(1,2))
qed

definition ex_me :: peer_record where
  "ex_me = \<lparr>pr_peer_id = 1, pr_verifying_key = verifying_key toy_env ex_id, pr_status = Active, pr_role = Admin, pr_name = None\<rparr>"

definition ex_kstore :: "(pool, unit, unit) store" where
  "ex_kstore = ex_store\<lparr>st_peers := [ex_me]\<rparr>"

definition ex_rnd :: "nat \<Rightarrow> bytes \<times> bytes" where
  "ex_rnd n = ([], replicate 24 0)"

definition ex_new :: "key_log_entry list" where
  "ex_new = stamp 1 0 (rotation_bodies toy_crypto ex_rnd ex_ekey [EPOCH0_ID] (replicate 32 1) ex_ekey [(Device 1, replicate 32 0)])"

definition ex_kvault :: "(pool, unit, unit, unit) vault_env" where
  "ex_kvault = (let L = map (key_line_of toy_env ex_id) ex_new in
     toy_vault\<lparr>ve_to_x := \<lambda>_. replicate 32 0, ve_parse_key := toy_parses L, ve_ser_key := toy_sers L\<rparr>)"

lemma ex_kvault_simps [simp]:
  "ve_fs ex_kvault = pool_fs" "ve_env ex_kvault = toy_env" "ve_crypto ex_kvault = toy_crypto" "ve_valid_key ex_kvault k"
  "ve_to_x ex_kvault k = replicate 32 0" "ve_parse_key ex_kvault = toy_parses (map (key_line_of toy_env ex_id) ex_new)"
  "ve_ser_key ex_kvault = toy_sers (map (key_line_of toy_env ex_id) ex_new)"
  by (simp_all add: ex_kvault_def toy_vault_def Let_def)

lemma ex_kstore_simps [simp]:
  "st_disk ex_kstore = ex_pool" "st_root ex_kstore = []" "st_identity ex_kstore = ex_id" "st_peers ex_kstore = [ex_me]" "self_id ex_kstore = 1"
  by (simp_all add: ex_kstore_def ex_store_def self_id_def ex_id_def)

lemma ex_genesis_heads: "dag_heads (keychain_build toy_crypto [] [] self sec []) = [EPOCH0_ID]"
  by (simp add: dag_heads_def keychain_build_def build_epochs_def parents_of_def genesis_node_def bt_keys_def bt_insert_def bt_upsert.simps Let_def)

theorem rotate_epoch_becomes_head_witness:
  "\<exists>st' kc. rotate_epoch ex_kvault (replicate 32 1) ex_ekey ex_rnd [] [] None ex_kstore = (Inr ex_ekey, st')
     \<and> store_keychain ex_kvault [] [] st' = (Inr kc, st') \<and> head_write_key kc = Some (ex_ekey, ex_ekey)"
proof -
  have me: "pr_peer_id ex_me = 1" "pr_status ex_me = Active" "pr_role ex_me = Admin" by (simp_all add: ex_me_def)
  have ts: "rotate_targets ex_kvault ex_kstore None = [(Device 1, replicate 32 0)]"
    by (simp add: rotate_targets_def member_target_def me map_filter_simps)
  have path: "pool_path (key_log_path [] 1)"
    using layout_fits [of "[]"] by (auto simp: path_ok_def str_len_def layout_ok_def logs_def)
  have toy: "cr_x_public toy_crypto x = replicate 32 0" "length (cr_seal toy_crypto k n ex_ekey) \<le> 48" for x k n
    by (simp_all add: toy_crypto_def ex_ekey_def)
  have laws: "json_laws (ve_parse_key ex_kvault) (ve_ser_key ex_kvault)
      (set ([] @ map (key_line_of (ve_env ex_kvault) (st_identity ex_kstore)) ex_new))"
    using toy_lines_laws [of "map (key_line_of toy_env ex_id) ex_new"] by simp
  have "\<exists>st' kc. rotate_epoch ex_kvault (replicate 32 1) ex_ekey ex_rnd [] [] None ex_kstore = (Inr ex_ekey, st')
    \<and> store_keychain ex_kvault [] [] st' = (Inr kc, st') \<and> dag_heads kc = [ex_ekey] \<and> head_write_key kc = Some (ex_ekey, ex_ekey)
    \<and> (\<forall>r sec. r \<in> set (st_peers ex_kstore) \<and> pr_status r = Active \<and> ve_valid_key ex_kvault (pr_verifying_key r)
          \<and> cr_x_public toy_crypto sec = ve_to_x ex_kvault (pr_verifying_key r)
         \<longrightarrow> epoch_key (keychain_build toy_crypto [] [] (pr_peer_id r) sec ([] @ ex_new @ [])) ex_ekey = Some ex_ekey)"
    by (rule rotate_epoch_becomes_head [where p = "key_log_path [] 1" and me = ex_me and ps = "[EPOCH0_ID]", OF _ _ _ _ _ _ _ _ _ _ _ _ _ _ _ _ _ _ _ _ _ _ _ _ laws])
       (simp_all add: ex_pool_ok path ex_pool_simps own_key_lines_def ex_pool_files folds_keylog_def me find_peer_def ex_genesis_heads
          toy_epoch_id ex_ekey_facts fresh_epoch_def ex_rnd_def NONCE_LEN_def ts last_seq_of_def toy_env_laws toy_crypto_laws toy,
        simp_all add: ex_new_def)
  then show ?thesis by blast
qed

end
