(* ===== verification/Store_Edit.thy ===== *)
theory Store_Edit
  imports Store_Keys
begin

text \<open>
  Local edits of the store (\<open>roam-storage/src/store.rs\<close>) and opening a vault. An edit changes the
  document, commits it and appends the signed difference to the device's own operation log; opening
  rebuilds the document from the snapshot file and the verified logs.
\<close>

section \<open>Document exports\<close>

definition doc_snapshot :: "('d, 'v, 'f) loro \<Rightarrow> ('d, crdt_error, bytes) op" where
  "doc_snapshot L = loro_call (lo_export_snapshot L)"

definition doc_export_from :: "('d, 'v, 'f) loro \<Rightarrow> 'v \<Rightarrow> ('d, crdt_error, bytes) op" where
  "doc_export_from L v = loro_call (lo_export_updates L v)"

definition doc_shallow_snapshot :: "('d, 'v, 'f) loro \<Rightarrow> 'f \<Rightarrow> ('d, crdt_error, bytes) op" where
  "doc_shallow_snapshot L f = loro_call (lo_export_shallow L f)"

definition doc_checkout :: "('d, 'v, 'f) loro \<Rightarrow> 'f \<Rightarrow> ('d, crdt_error, unit) op" where
  "doc_checkout L f = loro_call (lo_checkout L f)"

definition doc_checkout_latest :: "('d, 'v, 'f) loro \<Rightarrow> 'd \<Rightarrow> 'd" where
  "doc_checkout_latest L d = lo_checkout_latest L d"

definition frontier_from_bytes :: "('d, 'v, 'f) loro \<Rightarrow> bytes \<Rightarrow> (crdt_error, 'f) res" where
  "frontier_from_bytes L b = ok_or LoroError (lo_frontier_decode L b)"

definition doc_version_bytes :: "('s, 'd, 'v, 'f) vault_env \<Rightarrow> ('s, 'd, 'v) store \<Rightarrow> bytes" where
  "doc_version_bytes V st = lo_vv_encode (ve_loro V) (lo_oplog_vv (ve_loro V) (st_doc st))"

section \<open>Edits\<close>

definition own_op_log :: "('s, 'd, 'v, 'f) vault_env \<Rightarrow> ('s, 'd, 'v) store \<Rightarrow> 's oplog" where
  "own_op_log V st = oplog_new (ops_dir (st_root st)) (self_id st) (ve_fs V)"

definition export_and_append :: "('s, 'd, 'v, 'f) vault_env \<Rightarrow> (('s, 'd, 'v) store, storage_error, unit) op" where
  "export_and_append V st =
     (let current = lo_oplog_vv (ve_loro V) (st_doc st) in
      if current = st_persisted st then (Inr (), st)
      else bindE (on_doc (doc_export_from (ve_loro V) (st_persisted st))) (\<lambda>delta st.
           bindE (on_disk (oplog_append (ve_env V) (ve_ser_op V) (own_op_log V st) (st_identity st) delta)) (\<lambda>_ st.
             (Inr (), st\<lparr>st_persisted := current\<rparr>)) st) st)"

definition persist_new_ops :: "('s, 'd, 'v, 'f) vault_env \<Rightarrow> (('s, 'd, 'v) store, storage_error, unit) op" where
  "persist_new_ops V st = export_and_append V (st\<lparr>st_doc := lo_commit (ve_loro V) (st_doc st)\<rparr>)"

definition edit_text :: "('s, 'd, 'v, 'f) vault_env \<Rightarrow> ustr \<Rightarrow> nat \<Rightarrow> ustr \<Rightarrow> (('s, 'd, 'v) store, storage_error, unit) op" where
  "edit_text V i pos s = bindE (on_doc (doc_insert_text (ve_loro V) i pos s)) (\<lambda>_. persist_new_ops V)"

definition delete_text :: "('s, 'd, 'v, 'f) vault_env \<Rightarrow> ustr \<Rightarrow> nat \<Rightarrow> nat \<Rightarrow> (('s, 'd, 'v) store, storage_error, unit) op" where
  "delete_text V i pos len = bindE (on_doc (doc_delete_text (ve_loro V) i pos len)) (\<lambda>_. persist_new_ops V)"

definition set_entry :: "('s, 'd, 'v, 'f) vault_env \<Rightarrow> ustr \<Rightarrow> ustr \<Rightarrow> ustr \<Rightarrow> (('s, 'd, 'v) store, storage_error, unit) op" where
  "set_entry V m k v = bindE (on_doc (doc_set_entry (ve_loro V) m k v)) (\<lambda>_. persist_new_ops V)"

definition remove_entry :: "('s, 'd, 'v, 'f) vault_env \<Rightarrow> ustr \<Rightarrow> ustr \<Rightarrow> (('s, 'd, 'v) store, storage_error, unit) op" where
  "remove_entry V m k = bindE (on_doc (doc_remove_entry (ve_loro V) m k)) (\<lambda>_. persist_new_ops V)"

definition edit_text_at :: "('s, 'd, 'v, 'f) vault_env \<Rightarrow> ustr \<Rightarrow> nat \<Rightarrow> ustr \<Rightarrow> int \<Rightarrow> (('s, 'd, 'v) store, storage_error, unit) op" where
  "edit_text_at V i pos s secs =
     bindE (on_doc (doc_insert_text (ve_loro V) i pos s)) (\<lambda>_ st.
       export_and_append V (st\<lparr>st_doc := lo_commit_at (ve_loro V) secs (st_doc st)\<rparr>))"

section \<open>Snapshot file\<close>

definition snapshot_path :: "path \<Rightarrow> path" where
  "snapshot_path root = sub_path (sub_path root ''snapshots'') ''snapshot.loro''"

definition snapshot_save :: "'s vault_fs \<Rightarrow> path \<Rightarrow> bytes \<Rightarrow> ('s, storage_error, unit) op" where
  "snapshot_save fs p b =
     bindE (ensure_parent fs p) (\<lambda>_.
     let tmp = with_extension p (lit ''loro.tmp'') in
     bindE (errE Io (fs_write fs tmp b)) (\<lambda>_.
     errE Io (fs_rename fs tmp p)))"

definition snapshot_load :: "'s vault_fs \<Rightarrow> path \<Rightarrow> ('s, storage_error, bytes option) op" where
  "snapshot_load fs p s =
     (case fs_read fs p s of
        (Inr b, s') \<Rightarrow> (Inr (Some b), s')
      | (Inl NotFound, s') \<Rightarrow> (Inr None, s')
      | (Inl e, s') \<Rightarrow> (Inl (Io e), s'))"

section \<open>Opening a vault\<close>

definition replay :: "('d, 'v, 'f) loro \<Rightarrow> op_entry list \<Rightarrow> 'd \<Rightarrow> (storage_error, 'd) res" where
  "replay L es d =
     (case eachE (\<lambda>e. errE (\<lambda>_. Crdt) (doc_import L (oe_update e))) es d of
        (Inr _, d') \<Rightarrow> Inr d'
      | (Inl e, _) \<Rightarrow> Inl e)"

fun replay_peers :: "('s, 'd, 'v, 'f) vault_env \<Rightarrow> path \<Rightarrow> peer \<Rightarrow> peer_record list \<Rightarrow> 'd \<Rightarrow> ('s, storage_error, 'd) op" where
  "replay_peers V root self [] d = returnE d"
| "replay_peers V root self (p # ps) d =
     (if pr_status p \<noteq> Active \<or> pr_peer_id p = self then replay_peers V root self ps d
      else if \<not> ve_valid_key V (pr_verifying_key p) then replay_peers V root self ps d
      else bindE (oplog_read_verified (ve_env V) (ve_parse_op V) (oplog_new (ops_dir root) (pr_peer_id p) (ve_fs V)) (pr_verifying_key p)) (\<lambda>es.
           bindE (liftE (replay (ve_loro V) es d)) (\<lambda>d'.
           replay_peers V root self ps d')))"

definition open_with_fs :: "('s, 'd, 'v, 'f) vault_env \<Rightarrow> path \<Rightarrow> identity \<Rightarrow> ('s, storage_error, ('s, 'd, 'v) store) op" where
  "open_with_fs V root i =
     (let me = id_peer_id i; key = verifying_key (ve_env V) i; fs = ve_fs V; L = ve_loro V in
      bindE (read_founder fs root) (\<lambda>founder.
      bindE (rebuild_peers V root me key founder) (\<lambda>peers.
      bindE (snapshot_load fs (snapshot_path root)) (\<lambda>snap.
      bindE (liftE (map_err (\<lambda>_. Crdt) (case snap of Some b \<Rightarrow> doc_from_snapshot L me b | None \<Rightarrow> doc_new L me))) (\<lambda>base.
      bindE (oplog_read_verified (ve_env V) (ve_parse_op V) (oplog_new (ops_dir root) me fs) key) (\<lambda>own.
      bindE (liftE (replay L own base)) (\<lambda>doc1.
      bindE (replay_peers V root me peers doc1) (\<lambda>doc2.
      bindE (blob_open (sub_path root ''assets'') fs) (\<lambda>_ s.
        let doc = lo_commit L doc2;
            st = \<lparr>st_disk = s, st_root = root, st_identity = i, st_doc = doc, st_persisted = lo_oplog_vv L doc,
                  st_peers = peers, st_founder = founder\<rparr> in
        case write_peers_cache V st of
          (Inr _, st') \<Rightarrow> (Inr st', st_disk st')
        | (Inl e, st') \<Rightarrow> (Inl e, st_disk st'))))))))))"

end
