(* ===== verification/Store_History.thy ===== *)
theory Store_History
  imports Store_Edit
begin

text \<open>
  History markers, checkpoints and snapshot objects: \<open>history.rs\<close>, \<open>history_util.rs\<close>,
  \<open>checkpoint.rs\<close> and the rest of \<open>store.rs\<close> of \<open>roam-storage\<close>. A marker records a frontier of the
  document and the number of lines every log had then; a checkpoint replaces the lines before a marker
  by a shallow snapshot and removes the blobs nothing refers to any more. The JSON codecs of the
  sidecar files are the fields of \<open>hist_codec\<close>.
\<close>

record marker =
  mk_ts_ms :: int
  mk_frontier :: ustr
  mk_log_lens :: "(peer, u64) btree"

record held_snapshot =
  hs_id :: ustr
  hs_subsumed :: "ustr list"

record hist_codec =
  hc_parse_marker :: "ustr \<Rightarrow> marker option"
  hc_ser_marker :: "marker \<Rightarrow> ustr"
  hc_parse_held :: "ustr \<Rightarrow> held_snapshot option"
  hc_ser_held :: "held_snapshot \<Rightarrow> ustr"
  hc_str_field :: "ustr \<Rightarrow> ustr \<Rightarrow> ustr option"
  hc_hash :: "bytes \<Rightarrow> bytes"

section \<open>The history index\<close>

definition history_path :: "path \<Rightarrow> path" where
  "history_path root = sub_path (sub_path root ''history'') ''history.jsonl''"

definition history_append :: "hist_codec \<Rightarrow> 's vault_fs \<Rightarrow> path \<Rightarrow> marker \<Rightarrow> ('s, storage_error, unit) op" where
  "history_append C fs root m =
     bindE (ensure_parent fs (history_path root)) (\<lambda>_.
     errE Io (fs_append fs (history_path root) (utf8 (hc_ser_marker C m @ [newline]))))"

text \<open>A line that does not parse is taken for a torn tail and ends the list.\<close>

fun marker_lines :: "(ustr \<Rightarrow> marker option) \<Rightarrow> ustr list \<Rightarrow> marker list" where
  "marker_lines parse [] = []"
| "marker_lines parse (l # ls) =
     (if is_blank l then marker_lines parse ls
      else case parse l of Some m \<Rightarrow> m # marker_lines parse ls | None \<Rightarrow> [])"

definition text_or_empty :: "'s vault_fs \<Rightarrow> path \<Rightarrow> ('s, storage_error, ustr) op" where
  "text_or_empty fs p s =
     (case read_to_string fs p s of
        (Inr t, s') \<Rightarrow> (Inr t, s')
      | (Inl NotFound, s') \<Rightarrow> (Inr [], s')
      | (Inl e, s') \<Rightarrow> (Inl (Io e), s'))"

definition markers :: "hist_codec \<Rightarrow> 's vault_fs \<Rightarrow> path \<Rightarrow> ('s, storage_error, marker list) op" where
  "markers C fs root =
     bindE (text_or_empty fs (history_path root)) (\<lambda>t. returnE (marker_lines (hc_parse_marker C) (str_lines t)))"

definition marker_before :: "hist_codec \<Rightarrow> 's vault_fs \<Rightarrow> path \<Rightarrow> int \<Rightarrow> ('s, storage_error, marker option) op" where
  "marker_before C fs root ts =
     bindE (markers C fs root) (\<lambda>ms. returnE (find (\<lambda>m. mk_ts_ms m \<le> ts) (rev ms)))"

definition latest_marker :: "hist_codec \<Rightarrow> 's vault_fs \<Rightarrow> path \<Rightarrow> ('s, storage_error, marker option) op" where
  "latest_marker C fs root =
     bindE (markers C fs root) (\<lambda>ms. returnE (if ms = [] then None else Some (last ms)))"

definition count_log_lines :: "'s vault_fs \<Rightarrow> path \<Rightarrow> 's \<Rightarrow> u64 \<times> 's" where
  "count_log_lines fs p s =
     (case read_to_string fs p s of
        (Inr t, s') \<Rightarrow> (of_nat (length (filter (\<lambda>l. \<not> is_blank l) (str_lines t))), s')
      | (Inl _, s') \<Rightarrow> (0, s'))"

fun count_logs :: "'s vault_fs \<Rightarrow> path \<Rightarrow> peer list \<Rightarrow> (peer, u64) btree \<Rightarrow> 's \<Rightarrow> (peer, u64) btree \<times> 's" where
  "count_logs fs root [] m s = (m, s)"
| "count_logs fs root (p # ps) m s =
     (case count_log_lines fs (op_log_path root p) s of (n, s') \<Rightarrow> count_logs fs root ps (bt_insert p n m) s')"

definition write_snapshot :: "('s, 'd, 'v, 'f) vault_env \<Rightarrow> hist_codec \<Rightarrow> int \<Rightarrow> (('s, 'd, 'v) store, storage_error, unit) op" where
  "write_snapshot V C now =
     bindE (on_doc (doc_snapshot (ve_loro V))) (\<lambda>b st.
     bindE (on_disk (snapshot_save (ve_fs V) (snapshot_path (st_root st)) b)) (\<lambda>_ st.
       let frontier = lo_oplog_frontiers (ve_loro V) (st_doc st) in
       on_disk (\<lambda>s. case count_logs (ve_fs V) (st_root st) (self_id st # map pr_peer_id (st_peers st)) [] s of
           (lens, s') \<Rightarrow> history_append C (ve_fs V) (st_root st)
             \<lparr>mk_ts_ms = now, mk_frontier = b64_encode (ve_env V) (lo_frontier_encode (ve_loro V) frontier), mk_log_lens = lens\<rparr> s') st) st)"

section \<open>Checkpoint plans\<close>

record checkpoint_plan =
  cp_frontier :: ustr
  cp_drop_lines :: "(peer, u64) btree"

definition plan_from_marker :: "marker \<Rightarrow> checkpoint_plan" where
  "plan_from_marker m = \<lparr>cp_frontier = mk_frontier m, cp_drop_lines = mk_log_lens m\<rparr>"

definition reclaimable_blob_bytes :: "(ustr \<times> nat) list \<Rightarrow> ustr list \<Rightarrow> nat" where
  "reclaimable_blob_bytes sizes referenced = sum_list (map snd (filter (\<lambda>b. fst b \<notin> set referenced) sizes))"

section \<open>Referenced blobs\<close>

definition FILESET_MAP_ID :: ustr where "FILESET_MAP_ID = lit ''__roam_fileset__''"

definition extract_content_hash :: "hist_codec \<Rightarrow> ustr \<Rightarrow> ustr option" where
  "extract_content_hash C v = hc_str_field C v (lit ''content_hash'')"

definition fileset_hashes :: "('d, 'v, 'f) loro \<Rightarrow> hist_codec \<Rightarrow> 'd \<Rightarrow> ustr list" where
  "fileset_hashes L C d = List.map_filter (\<lambda>(k, v). extract_content_hash C v) (doc_entries L FILESET_MAP_ID d)"

definition decode_frontier :: "('s, 'd, 'v, 'f) vault_env \<Rightarrow> ustr \<Rightarrow> (storage_error, 'f) res" where
  "decode_frontier V f =
     bind_r (ok_or Base64 (b64_decode (ve_env V) (utf8 f))) (\<lambda>b. map_err (\<lambda>_. Crdt) (frontier_from_bytes (ve_loro V) b))"

fun hashes_at :: "('s, 'd, 'v, 'f) vault_env \<Rightarrow> hist_codec \<Rightarrow> ustr list \<Rightarrow> ustr list \<Rightarrow> ('d, storage_error, ustr list) op" where
  "hashes_at V C [] refs = returnE refs"
| "hashes_at V C (f # fs) refs =
     bindE (liftE (decode_frontier V f)) (\<lambda>frontier.
     bindE (errE (\<lambda>_. Crdt) (doc_checkout (ve_loro V) frontier)) (\<lambda>_ d.
       hashes_at V C fs (refs @ fileset_hashes (ve_loro V) C d) d))"

definition referenced_hashes :: "('s, 'd, 'v, 'f) vault_env \<Rightarrow> hist_codec \<Rightarrow> ustr list \<Rightarrow> ('d, storage_error, ustr list) op" where
  "referenced_hashes V C retained =
     bindE (hashes_at V C retained []) (\<lambda>refs d.
       let d' = doc_checkout_latest (ve_loro V) d in
       (Inr (refs @ fileset_hashes (ve_loro V) C d'), d'))"

definition on_store_doc :: "('d, storage_error, 'a) op \<Rightarrow> (('s, 'd, 'v) store, storage_error, 'a) op" where
  "on_store_doc m st = (case m (st_doc st) of (r, d') \<Rightarrow> (r, st\<lparr>st_doc := d'\<rparr>))"

definition store_blobs :: "('s, 'd, 'v, 'f) vault_env \<Rightarrow> ('s, 'd, 'v) store \<Rightarrow> 's blob_store" where
  "store_blobs V st = \<lparr>bs_root = sub_path (st_root st) ''assets'', bs_fs = ve_fs V\<rparr>"

section \<open>Checkpoints\<close>

fun blob_sizes :: "'s blob_store \<Rightarrow> ustr list \<Rightarrow> ('s, storage_error, (ustr \<times> nat) list) op" where
  "blob_sizes bs [] = returnE []"
| "blob_sizes bs (h # hs) =
     bindE (blob_size bs h) (\<lambda>n.
     bindE (blob_sizes bs hs) (\<lambda>rest. returnE ((h, case n of Some k \<Rightarrow> k | None \<Rightarrow> 0) # rest)))"

definition checkpoint_dry_run :: "('s, 'd, 'v, 'f) vault_env \<Rightarrow> hist_codec \<Rightarrow> int \<Rightarrow> (('s, 'd, 'v) store, storage_error, nat) op" where
  "checkpoint_dry_run V C before_ts st =
     bindE (on_disk (marker_before C (ve_fs V) (st_root st) before_ts)) (\<lambda>t.
       case t of
         None \<Rightarrow> returnE 0
       | Some target \<Rightarrow>
           bindE (on_disk (markers C (ve_fs V) (st_root st))) (\<lambda>all.
           let retained = map mk_frontier (filter (\<lambda>m. mk_ts_ms m \<ge> mk_ts_ms target) all) in
           bindE (on_store_doc (referenced_hashes V C retained)) (\<lambda>referenced.
           bindE (on_disk (blob_list (store_blobs V st))) (\<lambda>hs.
           bindE (on_disk (blob_sizes (store_blobs V st) hs)) (\<lambda>sizes.
           returnE (reclaimable_blob_bytes sizes referenced)))))) st"

definition truncate_leading_lines :: "'s vault_fs \<Rightarrow> path \<Rightarrow> nat \<Rightarrow> ('s, storage_error, unit) op" where
  "truncate_leading_lines fs p n s =
     (case read_to_string fs p s of
        (Inl NotFound, s') \<Rightarrow> (Inr (), s')
      | (Inl e, s') \<Rightarrow> (Inl (Io e), s')
      | (Inr text, s') \<Rightarrow>
          let kept = drop n (filter (\<lambda>l. \<not> is_blank l) (str_lines text));
              joined = str_join [newline] kept;
              out = (if joined = [] then joined else joined @ [newline]);
              tmp = with_extension p (lit ''jsonl.tmp'') in
          bindE (errE Io (fs_write fs tmp (utf8 out))) (\<lambda>_. errE Io (fs_rename fs tmp p)) s')"

definition rewrite_history :: "hist_codec \<Rightarrow> 's vault_fs \<Rightarrow> path \<Rightarrow> marker list \<Rightarrow> int \<Rightarrow> ('s, storage_error, unit) op" where
  "rewrite_history C fs root all keep_from =
     (let p = history_path root;
          out = log_text (hc_ser_marker C) (filter (\<lambda>m. mk_ts_ms m \<ge> keep_from) all);
          tmp = with_extension p (lit ''jsonl.tmp'') in
      bindE (errE Io (fs_write fs tmp (utf8 out))) (\<lambda>_. errE Io (fs_rename fs tmp p)))"

fun reclaim :: "'s blob_store \<Rightarrow> ustr list \<Rightarrow> ustr list \<Rightarrow> nat \<Rightarrow> ('s, storage_error, nat) op" where
  "reclaim bs referenced [] freed = returnE freed"
| "reclaim bs referenced (h # hs) freed =
     (if h \<in> set referenced then reclaim bs referenced hs freed
      else bindE (blob_size bs h) (\<lambda>n.
           bindE (blob_remove bs h) (\<lambda>_.
           reclaim bs referenced hs (freed + (case n of Some k \<Rightarrow> k | None \<Rightarrow> 0)))))"

definition truncate_logs :: "'s vault_fs \<Rightarrow> path \<Rightarrow> (peer, u64) btree \<Rightarrow> ('s, storage_error, unit) op" where
  "truncate_logs fs root plan = eachE (\<lambda>(p, n). truncate_leading_lines fs (op_log_path root p) (unat n)) plan"

definition checkpoint :: "('s, 'd, 'v, 'f) vault_env \<Rightarrow> hist_codec \<Rightarrow> int \<Rightarrow> (('s, 'd, 'v) store, storage_error, nat) op" where
  "checkpoint V C before_ts st =
     (let fs = ve_fs V; root = st_root st; bs = store_blobs V st in
      bindE (on_disk (marker_before C fs root before_ts)) (\<lambda>t.
        case t of
          None \<Rightarrow> returnE 0
        | Some target \<Rightarrow>
            bindE (on_disk (markers C fs root)) (\<lambda>all.
            let retained = map mk_frontier (filter (\<lambda>m. mk_ts_ms m \<ge> mk_ts_ms target) all) in
            bindE (on_store_doc (referenced_hashes V C retained)) (\<lambda>referenced.
            bindE (liftE (decode_frontier V (mk_frontier target))) (\<lambda>frontier.
            bindE (on_doc (doc_shallow_snapshot (ve_loro V) frontier)) (\<lambda>shallow.
            bindE (on_disk (snapshot_save fs (snapshot_path root) shallow)) (\<lambda>_.
            bindE (on_disk (truncate_logs fs root (cp_drop_lines (plan_from_marker target)))) (\<lambda>_.
            bindE (on_disk (blob_list bs)) (\<lambda>hs.
            bindE (on_disk (reclaim bs referenced hs 0)) (\<lambda>freed.
            bindE (on_disk (rewrite_history C fs root all (mk_ts_ms target))) (\<lambda>_.
            returnE freed)))))))))) st)"

section \<open>Backend snapshots\<close>

record backend_snapshot =
  bk_bytes :: bytes
  bk_frontier_digest :: bytes
  bk_subsumed_lines :: "(peer \<times> bytes) list"
  bk_blob_refs :: "ustr list"

fun subsumed_lines :: "('s, 'd, 'v, 'f) vault_env \<Rightarrow> (peer, u64) btree \<Rightarrow> (('s, 'd, 'v) store, storage_error, (peer \<times> bytes) list) op" where
  "subsumed_lines V [] = returnE []"
| "subsumed_lines V ((p, n) # plan) =
     bindE (\<lambda>st. (if p = self_id st then export_own_log V else export_peer_log V p) st) (\<lambda>log.
     bindE (subsumed_lines V plan) (\<lambda>rest.
     returnE (map (Pair p) (take (unat n) (split_log_lines_bytes log)) @ rest)))"

definition build_backend_snapshot :: "('s, 'd, 'v, 'f) vault_env \<Rightarrow> hist_codec \<Rightarrow> int
    \<Rightarrow> (('s, 'd, 'v) store, storage_error, backend_snapshot option) op" where
  "build_backend_snapshot V C before_ts st =
     bindE (on_disk (marker_before C (ve_fs V) (st_root st) before_ts)) (\<lambda>t.
       case t of
         None \<Rightarrow> returnE None
       | Some target \<Rightarrow>
           bindE (liftE (ok_or Base64 (b64_decode (ve_env V) (utf8 (mk_frontier target))))) (\<lambda>fbytes.
           bindE (liftE (map_err (\<lambda>_. Crdt) (frontier_from_bytes (ve_loro V) fbytes))) (\<lambda>frontier.
           bindE (on_doc (doc_shallow_snapshot (ve_loro V) frontier)) (\<lambda>b.
           bindE (subsumed_lines V (cp_drop_lines (plan_from_marker target))) (\<lambda>lines.
           bindE (on_store_doc (referenced_hashes V C [mk_frontier target])) (\<lambda>refs.
           returnE (Some \<lparr>bk_bytes = b, bk_frontier_digest = hc_hash C fbytes, bk_subsumed_lines = lines,
                          bk_blob_refs = bs_of refs\<rparr>))))))) st"

text \<open>The sidecar of held snapshots; an unreadable line is an error here.\<close>

definition held_path :: "path \<Rightarrow> path" where
  "held_path root = sub_path (sub_path root ''snapshots'') ''held.jsonl''"

definition held_snapshots :: "hist_codec \<Rightarrow> 's vault_fs \<Rightarrow> path \<Rightarrow> ('s, storage_error, held_snapshot list) op" where
  "held_snapshots C fs root =
     bindE (text_or_empty fs (held_path root)) (\<lambda>t.
     liftE (map_r (\<lambda>l. ok_or Json (hc_parse_held C l)) (filter (\<lambda>l. \<not> is_blank l) (str_lines t))))"

definition record_held_snapshot :: "hist_codec \<Rightarrow> 's vault_fs \<Rightarrow> path \<Rightarrow> ustr \<Rightarrow> ustr list \<Rightarrow> ('s, storage_error, unit) op" where
  "record_held_snapshot C fs root i subsumed =
     bindE (held_snapshots C fs root) (\<lambda>held.
       if \<exists>h \<in> set held. hs_id h = i then returnE ()
       else bindE (errE Io (fs_create_dir_all fs (sub_path root ''snapshots''))) (\<lambda>_.
            errE Io (fs_append fs (held_path root) (utf8 (hc_ser_held C \<lparr>hs_id = i, hs_subsumed = subsumed\<rparr>) @ [10]))))"

definition poisoned_path :: "path \<Rightarrow> path" where
  "poisoned_path root = sub_path root ''poisoned.jsonl''"

definition poisoned_ids :: "'s vault_fs \<Rightarrow> path \<Rightarrow> ('s, storage_error, ustr list) op" where
  "poisoned_ids fs root =
     bindE (text_or_empty fs (poisoned_path root)) (\<lambda>t.
     returnE (bs_of (filter (\<lambda>l. l \<noteq> []) (map trim (str_lines t)))))"

definition mark_poisoned :: "'s vault_fs \<Rightarrow> path \<Rightarrow> ustr \<Rightarrow> ('s, storage_error, unit) op" where
  "mark_poisoned fs root i =
     bindE (poisoned_ids fs root) (\<lambda>ids.
       if i \<in> set ids then returnE () else errE Io (fs_append fs (poisoned_path root) (utf8 (i @ [newline]))))"

text \<open>The identifier of a snapshot object is joined to the directory as it comes.\<close>

definition object_path :: "path \<Rightarrow> ustr \<Rightarrow> path" where
  "object_path root i = path_join (sub_path root ''snapshots'') (path_of_str i)"

definition persist_snapshot_object :: "'s vault_fs \<Rightarrow> path \<Rightarrow> ustr \<Rightarrow> bytes \<Rightarrow> ('s, storage_error, unit) op" where
  "persist_snapshot_object fs root i framed =
     bindE (errE Io (fs_create_dir_all fs (sub_path root ''snapshots''))) (\<lambda>_.
     let tmp = object_path root (i @ lit ''.tmp'') in
     bindE (errE Io (fs_write fs tmp framed)) (\<lambda>_.
     errE Io (fs_rename fs tmp (object_path root i))))"

definition object_name_ok :: "ustr \<Rightarrow> bool" where
  "object_name_ok n \<longleftrightarrow> n \<noteq> lit ''snapshot.loro'' \<and> n \<noteq> lit ''held.jsonl'' \<and> str_strip_suffix (lit ''.tmp'') n = None"

definition held_snapshot_ids :: "'s vault_fs \<Rightarrow> path \<Rightarrow> ('s, storage_error, ustr list) op" where
  "held_snapshot_ids fs root s =
     (case fs_read_dir fs (sub_path root ''snapshots'') s of
        (Inr entries, s') \<Rightarrow>
          (Inr (sort (filter object_name_ok (map (\<lambda>e. case file_name e of Some n \<Rightarrow> n | None \<Rightarrow> []) entries))), s')
      | (Inl NotFound, s') \<Rightarrow> (Inr [], s')
      | (Inl e, s') \<Rightarrow> (Inl (Io e), s'))"

definition load_snapshot_object :: "'s vault_fs \<Rightarrow> path \<Rightarrow> ustr \<Rightarrow> ('s, storage_error, bytes option) op" where
  "load_snapshot_object fs root i = snapshot_load fs (object_path root i)"

definition drop_snapshot :: "hist_codec \<Rightarrow> 's vault_fs \<Rightarrow> path \<Rightarrow> ustr \<Rightarrow> ('s, storage_error, unit) op" where
  "drop_snapshot C fs root i =
     bindE (remove_tolerant fs (object_path root i)) (\<lambda>_.
     bindE (held_snapshots C fs root) (\<lambda>held.
       let kept = filter (\<lambda>h. hs_id h \<noteq> i) held in
       if kept = [] then remove_tolerant fs (held_path root)
       else errE Io (fs_write fs (held_path root) (concat (map (\<lambda>h. utf8 (hc_ser_held C h) @ [10]) kept)))))"

definition adopt_snapshot :: "('s, 'd, 'v, 'f) vault_env \<Rightarrow> bytes \<Rightarrow> (('s, 'd, 'v) store, storage_error, unit) op" where
  "adopt_snapshot V b =
     bindE (on_doc (doc_import (ve_loro V) b)) (\<lambda>_ st.
     bindE (on_doc (doc_snapshot (ve_loro V))) (\<lambda>snap st.
     bindE (on_disk (snapshot_save (ve_fs V) (snapshot_path (st_root st)) snap)) (\<lambda>_ st.
       (Inr (), st\<lparr>st_persisted := lo_oplog_vv (ve_loro V) (st_doc st)\<rparr>)) st)
       (st\<lparr>st_doc := lo_commit (ve_loro V) (st_doc st)\<rparr>))"

definition historical_entry :: "('s, 'd, 'v, 'f) vault_env \<Rightarrow> hist_codec \<Rightarrow> ustr \<Rightarrow> ustr \<Rightarrow> int
    \<Rightarrow> (('s, 'd, 'v) store, storage_error, ustr option) op" where
  "historical_entry V C map_id key before_ts st =
     bindE (on_disk (marker_before C (ve_fs V) (st_root st) before_ts)) (\<lambda>t.
       case t of
         None \<Rightarrow> returnE None
       | Some m \<Rightarrow>
           bindE (liftE (decode_frontier V (mk_frontier m))) (\<lambda>frontier.
           on_store_doc (\<lambda>d. case doc_checkout (ve_loro V) frontier d of
               (Inl _, d') \<Rightarrow> (Inr None, doc_checkout_latest (ve_loro V) d')
             | (Inr _, d') \<Rightarrow> (Inr (doc_get_entry (ve_loro V) map_id key d'), doc_checkout_latest (ve_loro V) d')))) st"

end
