(* ===== verification/Checkpoint.thy ===== *)
theory Checkpoint
  imports Store_History
begin

text \<open>
  What a checkpoint does to the files of a vault: which lines it drops, which blobs it keeps, and what
  happens when it runs twice. The proofs use an extension of the backend contract in which listing a
  directory does not change the backend.
\<close>

section \<open>Operations that keep a predicate of the state\<close>

definition keeps :: "('s \<Rightarrow> bool) \<Rightarrow> ('s, 'e, 'a) op \<Rightarrow> bool" where
  "keeps Q m \<longleftrightarrow> (\<forall>s. Q s \<longrightarrow> Q (snd (m s)))"

lemma keepsI [intro]: "(\<And>s. Q s \<Longrightarrow> Q (snd (m s))) \<Longrightarrow> keeps Q m"
  by (simp add: keeps_def)

lemma keepsD: "keeps Q m \<Longrightarrow> Q s \<Longrightarrow> Q (snd (m s))"
  by (simp add: keeps_def)

lemma keeps_basic [simp]:
  "keeps Q (returnE a)" "keeps Q (failE e)" "keeps Q (liftE r)" "keeps Q (errE g m) \<longleftrightarrow> keeps Q m"
  by (auto simp: keeps_def returnE_def failE_def liftE_def errE_def case_prod_beta)

lemma keeps_bindE: "keeps Q m \<Longrightarrow> (\<And>a. keeps Q (f a)) \<Longrightarrow> keeps Q (bindE m f)"
  by (simp add: keeps_def bindE_def case_prod_beta split: prod.split sum.split)

lemma keeps_eachE: "(\<And>x. x \<in> set xs \<Longrightarrow> keeps Q (f x)) \<Longrightarrow> keeps Q (eachE f xs)"
  by (induction xs) (auto intro!: keeps_bindE)

lemma keeps_on_disk: "keeps P m \<Longrightarrow> keeps (\<lambda>st. P (st_disk st)) (on_disk m)"
  by (simp add: keeps_def on_disk_def case_prod_beta)

lemma keeps_on_doc: "keeps (\<lambda>st. P (st_disk st)) (on_doc m)"
  by (simp add: keeps_def on_doc_def case_prod_beta)

text \<open>Successful steps of a chain.\<close>

lemma on_disk_Inr: "on_disk m st = (Inr a, st') \<longleftrightarrow> (\<exists>s'. m (st_disk st) = (Inr a, s') \<and> st' = st\<lparr>st_disk := s'\<rparr>)"
  by (auto simp: on_disk_def split: prod.splits)

lemma on_doc_Inr: "on_doc m st = (Inr a, st') \<longleftrightarrow> (\<exists>d'. m (st_doc st) = (Inr a, d') \<and> st' = st\<lparr>st_doc := d'\<rparr>)"
  by (auto simp: on_doc_def split: prod.splits)

lemma on_store_doc_Inr: "on_store_doc m st = (Inr a, st') \<longleftrightarrow> (\<exists>d'. m (st_doc st) = (Inr a, d') \<and> st' = st\<lparr>st_doc := d'\<rparr>)"
  by (auto simp: on_store_doc_def split: prod.splits)

lemma lift_Inr: "liftE r st = (Inr a, st') \<longleftrightarrow> r = Inr a \<and> st' = st" "returnE b st = (Inr a, st') \<longleftrightarrow> b = a \<and> st' = st"
  by (auto simp: liftE_def returnE_def)

lemmas chain_iffs = bindE_Inr_iff on_disk_Inr on_doc_Inr on_store_doc_Inr lift_Inr

section \<open>Paths\<close>

lemma file_stem_ext: "a \<noteq> [] \<Longrightarrow> dot \<notin> set b \<Longrightarrow> file_stem (a @ dot # b) = a"
proof -
  assume a: "a \<noteq> []" "dot \<notin> set b"
  then have "dropWhile (\<lambda>c. c \<noteq> dot) (rev (a @ dot # b)) = dot # rev a"
    using dropWhile_append2 [of "rev b" "\<lambda>c. c \<noteq> dot" "dot # rev a"] by auto
  then show ?thesis using a by (simp add: file_stem_def)
qed

definition tmp_name :: "ustr \<Rightarrow> ustr" where
  "tmp_name n = n @ lit ''.tmp''"

lemma history_forms:
  "snapshot_path root = root @ [Normal (lit ''snapshots''), Normal (lit ''snapshot.loro'')]"
  "with_extension (snapshot_path root) (lit ''loro.tmp'') = root @ [Normal (lit ''snapshots''), Normal (tmp_name (lit ''snapshot.loro''))]"
  "history_path root = root @ [Normal (lit ''history''), Normal (lit ''history.jsonl'')]"
  "with_extension (history_path root) (lit ''jsonl.tmp'') = root @ [Normal (lit ''history''), Normal (tmp_name (lit ''history.jsonl''))]"
  "with_extension (op_log_path root a) (lit ''jsonl.tmp'')
     = root @ [Normal (lit ''ops''), Normal (tmp_name (lit ''ops-'' @ show_nat (unat a) @ lit ''.jsonl''))]"
proof -
  have h: "sub_path r ''history.jsonl'' = r @ [Normal (lit ''history.jsonl'')]" for r
    by (rule sub_path_eq) (simp_all add: lit_def slash_def dot_def)
  show "snapshot_path root = root @ [Normal (lit ''snapshots''), Normal (lit ''snapshot.loro'')]"
    "history_path root = root @ [Normal (lit ''history''), Normal (lit ''history.jsonl'')]"
    by (simp_all add: snapshot_path_def history_path_def sub_paths h)
  then show "with_extension (snapshot_path root) (lit ''loro.tmp'') = root @ [Normal (lit ''snapshots''), Normal (tmp_name (lit ''snapshot.loro''))]"
    "with_extension (history_path root) (lit ''jsonl.tmp'') = root @ [Normal (lit ''history''), Normal (tmp_name (lit ''history.jsonl''))]"
    by (simp_all add: with_extension_def tmp_name_def file_stem_def lit_def dot_def butlast_append)
  have "lit ''ops-'' @ show_nat (unat a) @ lit ''.jsonl'' = (lit ''ops-'' @ show_nat (unat a)) @ dot # lit ''jsonl''"
    by (simp add: lit_def dot_def)
  then have "file_stem (lit ''ops-'' @ show_nat (unat a) @ lit ''.jsonl'') = lit ''ops-'' @ show_nat (unat a)"
    using file_stem_ext [of "lit ''ops-'' @ show_nat (unat a)" "lit ''jsonl''"] by (simp add: lit_def dot_def)
  then show "with_extension (op_log_path root a) (lit ''jsonl.tmp'')
     = root @ [Normal (lit ''ops''), Normal (tmp_name (lit ''ops-'' @ show_nat (unat a) @ lit ''.jsonl''))]"
    by (simp add: log_path_forms with_extension_def tmp_name_def butlast_append) (simp add: lit_def dot_def)
qed

lemmas tmp_forms = history_forms(2,4,5)
lemmas file_forms = history_forms(1,3) log_path_forms

text \<open>The files a checkpoint replaces.\<close>

definition log_files :: "path \<Rightarrow> peer \<Rightarrow> path set" where
  "log_files root a = {op_log_path root a, with_extension (op_log_path root a) (lit ''jsonl.tmp'')}"

definition replaced :: "path \<Rightarrow> path set" where
  "replaced root = {snapshot_path root, with_extension (snapshot_path root) (lit ''loro.tmp''),
     history_path root, with_extension (history_path root) (lit ''jsonl.tmp'')} \<union> (\<Union>a. log_files root a)"

definition ckpt_paths_ok :: "(path \<Rightarrow> bool) \<Rightarrow> path \<Rightarrow> bool" where
  "ckpt_paths_ok okp root \<longleftrightarrow> (\<forall>p \<in> replaced root. okp p)"

lemma tmp_name_ne [simp]: "tmp_name n \<noteq> n" "n \<noteq> tmp_name n"
  by (simp_all add: tmp_name_def lit_def)

lemma tmp_paths_ne:
  "with_extension (snapshot_path root) (lit ''loro.tmp'') \<noteq> snapshot_path root"
  "with_extension (history_path root) (lit ''jsonl.tmp'') \<noteq> history_path root"
  "with_extension (op_log_path root a) (lit ''jsonl.tmp'') \<noteq> op_log_path root a"
  unfolding tmp_forms by (simp_all add: file_forms)

lemma log_name_not_tmp: "lit ''ops-'' @ show_nat n @ lit ''.jsonl'' \<noteq> tmp_name (lit ''ops-'' @ show_nat k @ lit ''.jsonl'')"
proof
  assume "lit ''ops-'' @ show_nat n @ lit ''.jsonl'' = tmp_name (lit ''ops-'' @ show_nat k @ lit ''.jsonl'')"
  then have "last (lit ''ops-'' @ show_nat n @ lit ''.jsonl'') = last (tmp_name (lit ''ops-'' @ show_nat k @ lit ''.jsonl''))" by simp
  then show False by (simp add: tmp_name_def lit_def)
qed

lemma log_files_disjoint: "a \<noteq> b \<Longrightarrow> op_log_path root a \<notin> log_files root b"
  using log_name_not_tmp [of "unat a" "unat b"]
  unfolding log_files_def tmp_forms by (auto simp: file_forms show_nat_inj word_unat_eq_iff)

lemma not_log_file:
  "history_path root \<notin> log_files root a" "snapshot_path root \<notin> log_files root a"
  "history_path root \<notin> {snapshot_path root, with_extension (snapshot_path root) (lit ''loro.tmp'')}"
  "op_log_path root a \<notin> {snapshot_path root, with_extension (snapshot_path root) (lit ''loro.tmp'')}"
  "op_log_path root a \<notin> {history_path root, with_extension (history_path root) (lit ''jsonl.tmp'')}"
  "snapshot_path root \<notin> {history_path root, with_extension (history_path root) (lit ''jsonl.tmp'')}"
  unfolding log_files_def tmp_forms by (simp_all add: file_forms) (simp_all add: lit_def)

lemma not_blob:
  "root @ [Normal (lit ''assets''), Normal h] \<notin> replaced root"
  unfolding replaced_def log_files_def tmp_forms by (simp add: file_forms) (simp add: lit_def)

text \<open>A string accepted as a hash is ASCII.\<close>

lemma hash_valid_str:
  assumes "is_valid_hash h"
  shows "valid_str h"
proof -
  have "c < 128" if "c \<in> set h" for c
  proof (rule ccontr)
    assume "\<not> c < 128"
    then have "byte_of (0x80 + c mod 64) \<in> set (utf8_char c)" by (auto simp: utf8_char.simps)
    then have "hex_byte (byte_of (0x80 + c mod 64))"
      using that assms by (auto simp: is_valid_hash_def utf8_def list_all_iff)
    moreover have "0x80 + c mod 64 < 256" using mod_less_divisor [of 64 c] by linarith
    then have "unat (byte_of (0x80 + c mod 64)) = 0x80 + c mod 64" by (rule unat_byte_of)
    ultimately show False by (simp add: hex_byte_def)
  qed
  then show ?thesis by (intro ascii_valid) blast
qed

lemma blob_path_form: "blob_path bs h = Inr p \<Longrightarrow> p = bs_root bs @ [Normal h]"
  using blob_paths(1) [of h] hash_valid_str by (auto simp: blob_path_def split: if_splits)

section \<open>Lines\<close>

lemma nonblank_lines:
  assumes "json_laws parse ser (set ls)"
  shows "filter (\<lambda>l. \<not> is_blank l) (str_lines (log_text ser ls)) = map ser ls"
proof -
  have "\<forall>l \<in> set ls. newline \<notin> set (ser l) \<and> last (ser l) = 125" using json_lawsD [OF assms] by blast
  then have "str_lines (log_text ser ls) = map ser ls" using str_lines_log_text [of ls ser "[]"] by simp
  then show ?thesis using json_lawsD(3) [OF assms] by (simp add: filter_id_conv)
qed

lemma join_log: "ks \<noteq> [] \<Longrightarrow> str_join [newline] (map ser ks) @ [newline] = log_text ser ks"
  by (induction ks rule: induct_list012) auto

lemma marker_lines_log:
  assumes "json_laws parse ser (set ms)"
  shows "marker_lines parse (str_lines (log_text ser ms)) = ms"
proof -
  have "\<forall>l \<in> set ms. newline \<notin> set (ser l) \<and> last (ser l) = 125" using json_lawsD [OF assms] by blast
  then have "str_lines (log_text ser ms) = map ser ms" using str_lines_log_text [of ms ser "[]"] by simp
  moreover have "marker_lines parse (map ser ms) = ms"
    using json_lawsD(1,3) [OF assms] by (induction ms) auto
  ultimately show ?thesis by simp
qed

lemma joined_nonempty:
  assumes "json_laws parse ser (set ls)" "ks \<noteq> []" "set ks \<subseteq> set ls"
  shows "str_join [newline] (map ser ks) \<noteq> []"
proof -
  obtain k ks' where "ks = k # ks'" using assms(2) by (cases ks) auto
  moreover from this have "ser k \<noteq> []" using json_lawsD(3) [OF assms(1), of k] assms(3) by (auto simp: is_blank_iff)
  ultimately show ?thesis by (cases ks') auto
qed

lemma truncated_text:
  assumes "json_laws parse ser (set ls)"
  shows "(if str_join [newline] (map ser (drop n ls)) = [] then str_join [newline] (map ser (drop n ls))
          else str_join [newline] (map ser (drop n ls)) @ [newline]) = log_text ser (drop n ls)"
proof (cases "drop n ls = []")
  case False
  then have "str_join [newline] (map ser (drop n ls)) \<noteq> []" using joined_nonempty [OF assms False set_drop_subset] by simp
  then show ?thesis using join_log [OF False, of ser] by simp
qed simp

lemma eachE_append: "eachE f (xs @ ys) = bindE (eachE f xs) (\<lambda>_. eachE f ys)"
  by (induction xs) (auto simp: bindE_def fun_eq_iff split: prod.splits sum.splits)

lemma find_filter_first: "find P xs = Some x \<Longrightarrow> Q x \<Longrightarrow> find P (filter Q xs) = Some x"
  by (induction xs) (auto split: if_splits)

section \<open>Effects of the single calls\<close>

locale listing_fs = lawful_fs +
  assumes read_dir_state: "ok s \<Longrightarrow> snd (fs_read_dir fs d s) = s"
begin

text \<open>Writing through a temporary file.\<close>

lemma swap_done:
  assumes "ok s" "okp tmp" "okp p" "tmp \<noteq> p"
    "bindE (errE Io (fs_write fs tmp b)) (\<lambda>_. errE Io (fs_rename fs tmp p)) s = (Inr (), s')"
  shows "ok s' \<and> files s' = (files s)(tmp := None, p \<mapsto> b)"
proof -
  obtain s1 where w: "fs_write fs tmp b s = (Inr (), s1)" "fs_rename fs tmp p s1 = (Inr (), s')"
    using assms(5) by (auto simp: bindE_Inr_iff errE_def split: prod.splits)
  have s1: "ok s1" "files s1 = (files s)(tmp \<mapsto> b)" using write_files [OF assms(1,2), of b] w(1) by auto
  then have "files s1 tmp = Some b" by simp
  from rename_law [OF s1(1) this assms(3,4)] w(2) show ?thesis by (auto simp: ok_step_def s1(2))
qed

lemma swap_keeps:
  assumes "okp tmp" "okp p" "tmp \<noteq> p" "q \<noteq> tmp" "q \<noteq> p"
  shows "keeps (\<lambda>s. ok s \<and> files s q = x) (bindE (errE Io (fs_write fs tmp b)) (\<lambda>_. errE Io (fs_rename fs tmp p)))"
proof (rule keeps_bindE)
  show "keeps (\<lambda>s. ok s \<and> files s q = x) (errE Io (fs_write fs tmp b))"
    unfolding keeps_basic(4)
  proof
    fix s assume "ok s \<and> files s q = x"
    then show "ok (snd (fs_write fs tmp b s)) \<and> files (snd (fs_write fs tmp b s)) q = x"
      using write_files [of s tmp b] assms(1,4) by auto
  qed
  show "keeps (\<lambda>s. ok s \<and> files s q = x) (errE Io (fs_rename fs tmp p))" for a
    unfolding keeps_basic(4)
  proof
    fix s assume "ok s \<and> files s q = x"
    then show "ok (snd (fs_rename fs tmp p s)) \<and> files (snd (fs_rename fs tmp p s)) q = x"
      using rename_files [of s p tmp] assms(2-5) by auto
  qed
qed

lemma dirs_keep: "keeps (\<lambda>s. ok s \<and> files s q = x) (ensure_parent fs p)"
  using dir_files by (auto simp: ensure_parent_def keeps_def split: option.splits)

lemma save_keeps:
  assumes "okp p" "okp (with_extension p (lit ''loro.tmp''))" "with_extension p (lit ''loro.tmp'') \<noteq> p"
    "q \<noteq> p" "q \<noteq> with_extension p (lit ''loro.tmp'')"
  shows "keeps (\<lambda>s. ok s \<and> files s q = x) (snapshot_save fs p b)"
  unfolding snapshot_save_def Let_def using assms by (intro keeps_bindE [OF dirs_keep] swap_keeps) simp_all

lemma read_text_state: "ok s \<Longrightarrow> snd (read_to_string fs p s) = s"
  by (simp add: read_to_string_ok)

lemma truncate_keeps:
  assumes "okp p" "okp (with_extension p (lit ''jsonl.tmp''))" "with_extension p (lit ''jsonl.tmp'') \<noteq> p"
    "q \<noteq> p" "q \<noteq> with_extension p (lit ''jsonl.tmp'')"
  shows "keeps (\<lambda>s. ok s \<and> files s q = x) (truncate_leading_lines fs p n)"
proof
  fix s assume s: "ok s \<and> files s q = x"
  let ?tmp = "with_extension p (lit ''jsonl.tmp'')"
  have k: "keeps (\<lambda>s. ok s \<and> files s q = x) (bindE (errE Io (fs_write fs ?tmp b)) (\<lambda>_. errE Io (fs_rename fs ?tmp p)))" for b
    using swap_keeps [OF assms(2,1,3,5,4)] .
  show "ok (snd (truncate_leading_lines fs p n s)) \<and> files (snd (truncate_leading_lines fs p n s)) q = x"
    using s keepsD [OF k, of s] read_to_string_ok [of s p]
    by (auto simp: truncate_leading_lines_def Let_def split: sum.splits option.splits io_kind.splits)
qed

lemma list_keeps: "keeps (\<lambda>s. ok s \<and> files s q = x) (blob_list \<lparr>bs_root = r, bs_fs = fs\<rparr>)"
  unfolding blob_list_def by (intro keeps_bindE) (auto simp: keeps_def read_dir_state)

lemma blob_path_state: "keeps Q (liftE (blob_path bs h))"
  by simp

lemma remove_keeps: "q \<noteq> p \<Longrightarrow> keeps (\<lambda>s. ok s \<and> files s q = x) (remove_tolerant fs p)"
proof
  fix s assume q: "q \<noteq> p" and s: "ok s \<and> files s q = x"
  show "ok (snd (remove_tolerant fs p s)) \<and> files (snd (remove_tolerant fs p s)) q = x"
    using q s remove_file_law [of s p] remove_missing [of s p]
    by (cases "files s p") (auto simp: remove_tolerant_def ok_step_def)
qed

lemma size_keeps: "keeps (\<lambda>s. ok s \<and> files s q = x) (blob_size \<lparr>bs_root = r, bs_fs = fs\<rparr> h)"
  unfolding blob_size_def
  by (intro keeps_bindE blob_path_state) (auto simp: keeps_def file_len_law split: sum.splits option.splits io_kind.splits prod.splits)

text \<open>Reclaiming removes blobs, and no referenced one.\<close>

lemma reclaim_keeps:
  assumes "\<And>h p. h \<in> set hs \<Longrightarrow> h \<notin> set referenced \<Longrightarrow> blob_path \<lparr>bs_root = r, bs_fs = fs\<rparr> h = Inr p \<Longrightarrow> q \<noteq> p"
  shows "keeps (\<lambda>s. ok s \<and> files s q = x) (reclaim \<lparr>bs_root = r, bs_fs = fs\<rparr> referenced hs n)"
  using assms
proof (induction hs arbitrary: n)
  case (Cons h hs)
  have IH: "keeps (\<lambda>s. ok s \<and> files s q = x) (reclaim \<lparr>bs_root = r, bs_fs = fs\<rparr> referenced hs n)" for n
    using Cons by auto
  have "keeps (\<lambda>s. ok s \<and> files s q = x) (blob_remove \<lparr>bs_root = r, bs_fs = fs\<rparr> h)" if "h \<notin> set referenced"
  proof (cases "blob_path \<lparr>bs_root = r, bs_fs = fs\<rparr> h")
    case (Inl e)
    then show ?thesis by (auto simp: blob_remove_def keeps_def)
  next
    case (Inr p)
    then have "keeps (\<lambda>s. ok s \<and> files s q = x) (remove_tolerant fs p)" using Cons.prems [of h p] that remove_keeps by auto
    then show ?thesis using Inr by (simp add: blob_remove_def keeps_def)
  qed
  then show ?case by (auto intro!: keeps_bindE size_keeps IH)
qed simp

lemma truncate_logs_keeps:
  assumes "\<And>a. okp (op_log_path root a) \<and> okp (with_extension (op_log_path root a) (lit ''jsonl.tmp''))"
    "\<And>a n. (a, n) \<in> set plan \<Longrightarrow> q \<notin> log_files root a"
  shows "keeps (\<lambda>s. ok s \<and> files s q = x) (truncate_logs fs root plan)"
  unfolding truncate_logs_def
proof (rule keeps_eachE, clarify)
  fix a n assume "(a, n) \<in> set plan"
  then have "q \<noteq> op_log_path root a" "q \<noteq> with_extension (op_log_path root a) (lit ''jsonl.tmp'')"
    using assms(2) by (auto simp: log_files_def)
  then show "keeps (\<lambda>s. ok s \<and> files s q = x) (truncate_leading_lines fs (op_log_path root a) (unat n))"
    using assms(1) tmp_paths_ne(3) by (intro truncate_keeps) auto
qed

lemma rewrite_keeps:
  assumes "okp (history_path root)" "okp (with_extension (history_path root) (lit ''jsonl.tmp''))"
    "q \<notin> {history_path root, with_extension (history_path root) (lit ''jsonl.tmp'')}"
  shows "keeps (\<lambda>s. ok s \<and> files s q = x) (rewrite_history C fs root all ts)"
  unfolding rewrite_history_def Let_def using assms tmp_paths_ne(2) by (intro swap_keeps) auto

lemma markers_state: "ok s \<Longrightarrow> snd (markers C fs root s) = s" "ok s \<Longrightarrow> snd (marker_before C fs root ts s) = s"
  by (auto simp: markers_def marker_before_def text_or_empty_def read_to_string_ok bindE_def returnE_def
      split: sum.splits option.splits io_kind.splits prod.splits)

lemma ckpt_paths:
  assumes "ckpt_paths_ok okp root"
  shows "okp (snapshot_path root)" "okp (with_extension (snapshot_path root) (lit ''loro.tmp''))"
    "okp (history_path root)" "okp (with_extension (history_path root) (lit ''jsonl.tmp''))"
    "okp (op_log_path root a) \<and> okp (with_extension (op_log_path root a) (lit ''jsonl.tmp''))"
  using assms by (auto simp: ckpt_paths_ok_def replaced_def log_files_def)

text \<open>The part of a checkpoint after the references are collected.\<close>

lemma checkpoint_unfold:
  assumes "ok (st_disk st)" "ve_fs V = fs" "fst (marker_before C fs (st_root st) ts (st_disk st)) = Inr (Some target)"
    "fst (markers C fs (st_root st) (st_disk st)) = Inr all"
  shows "checkpoint V C ts st =
     bindE (on_store_doc (referenced_hashes V C (map mk_frontier (filter (\<lambda>m. mk_ts_ms m \<ge> mk_ts_ms target) all)))) (\<lambda>referenced.
     bindE (liftE (decode_frontier V (mk_frontier target))) (\<lambda>frontier.
     bindE (on_doc (doc_shallow_snapshot (ve_loro V) frontier)) (\<lambda>shallow.
     bindE (on_disk (snapshot_save fs (snapshot_path (st_root st)) shallow)) (\<lambda>_.
     bindE (on_disk (truncate_logs fs (st_root st) (mk_log_lens target))) (\<lambda>_.
     bindE (on_disk (blob_list (store_blobs V st))) (\<lambda>hs.
     bindE (on_disk (reclaim (store_blobs V st) referenced hs 0)) (\<lambda>freed.
     bindE (on_disk (rewrite_history C fs (st_root st) all (mk_ts_ms target))) (\<lambda>_.
     returnE freed)))))))) st"
proof -
  have "marker_before C fs (st_root st) ts (st_disk st) = (Inr (Some target), st_disk st)"
    "markers C fs (st_root st) (st_disk st) = (Inr all, st_disk st)"
    using assms(1,3,4) markers_state by (metis prod.collapse)+
  then show ?thesis using assms(2) by (simp add: checkpoint_def on_disk_def plan_from_marker_def Let_def bindE_def)
qed

lemma checkpoint_keeps_blob:
  assumes "ok (st_disk st)" "ve_fs V = fs" "ckpt_paths_ok okp (st_root st)"
    "fst (marker_before C fs (st_root st) ts (st_disk st)) = Inr (Some target)"
    "fst (markers C fs (st_root st) (st_disk st)) = Inr all"
    "fst (referenced_hashes V C (map mk_frontier (filter (\<lambda>m. mk_ts_ms m \<ge> mk_ts_ms target) all)) (st_doc st)) = Inr refs"
    "h \<in> set refs" "blob_path (store_blobs V st) h = Inr p"
  shows "files (st_disk (snd (checkpoint V C ts st))) p = files (st_disk st) p"
proof -
  let ?root = "st_root st"
  let ?P = "\<lambda>s. ok s \<and> files s p = files (st_disk st) p"
  have bs: "store_blobs V st = \<lparr>bs_root = ?root @ [Normal (lit ''assets'')], bs_fs = fs\<rparr>"
    using assms(2) sub_path_eq [of "''assets''" ?root] by (simp add: store_blobs_def lit_def slash_def dot_def)
  have p: "p = ?root @ [Normal (lit ''assets''), Normal h]" using blob_path_form [OF assms(8)] by (simp add: bs)
  then have np: "p \<notin> replaced ?root" using not_blob by simp
  obtain d where refs: "referenced_hashes V C (map mk_frontier (filter (\<lambda>m. mk_ts_ms m \<ge> mk_ts_ms target) all)) (st_doc st) = (Inr refs, d)"
    using assms(6) by (metis prod.collapse)
  have other: "p \<noteq> p'" if "h' \<notin> set refs" "blob_path \<lparr>bs_root = ?root @ [Normal (lit ''assets'')], bs_fs = fs\<rparr> h' = Inr p'" for h' p'
    using blob_path_form [OF that(2)] that(1) assms(7) p by auto
  have save: "keeps ?P (snapshot_save fs (snapshot_path ?root) b)" for b
    using ckpt_paths [OF assms(3)] tmp_paths_ne(1) np by (intro save_keeps) (auto simp: replaced_def)
  have trunc: "keeps ?P (truncate_logs fs ?root plan)" for plan
    using ckpt_paths [OF assms(3)] np by (intro truncate_logs_keeps) (auto simp: replaced_def)
  have rew: "keeps ?P (rewrite_history C fs ?root all t)" for t
    using ckpt_paths [OF assms(3)] np by (intro rewrite_keeps) (auto simp: replaced_def)
  have recl: "keeps ?P (reclaim (store_blobs V st) refs hs n)" for hs n
    unfolding bs using other by (intro reclaim_keeps) blast
  have lst: "keeps ?P (blob_list (store_blobs V st))" unfolding bs by (rule list_keeps)
  have "keeps (\<lambda>s. ?P (st_disk s))
     (bindE (liftE (decode_frontier V (mk_frontier target))) (\<lambda>frontier.
     bindE (on_doc (doc_shallow_snapshot (ve_loro V) frontier)) (\<lambda>shallow.
     bindE (on_disk (snapshot_save fs (snapshot_path ?root) shallow)) (\<lambda>_.
     bindE (on_disk (truncate_logs fs ?root (mk_log_lens target))) (\<lambda>_.
     bindE (on_disk (blob_list (store_blobs V st))) (\<lambda>hs.
     bindE (on_disk (reclaim (store_blobs V st) refs hs 0)) (\<lambda>freed.
     bindE (on_disk (rewrite_history C fs ?root all (mk_ts_ms target))) (\<lambda>_.
     returnE freed))))))))" (is "keeps _ ?rest")
    by (intro keeps_bindE keeps_on_disk keeps_on_doc save trunc lst recl rew) simp_all
  from keepsD [OF this, of "st\<lparr>st_doc := d\<rparr>"] assms(1)
  show ?thesis unfolding checkpoint_unfold [OF assms(1,2,4,5)] by (simp add: on_store_doc_def refs bindE_def)
qed

lemma truncate_done:
  assumes "ok s" "okp p" "okp (with_extension p (lit ''jsonl.tmp''))" "with_extension p (lit ''jsonl.tmp'') \<noteq> p"
    "files s p = Some (utf8 (log_text ser ls))" "json_laws parse ser (set ls)" "truncate_leading_lines fs p n s = (Inr (), s')"
  shows "ok s' \<and> files s' p = Some (utf8 (log_text ser (drop n ls)))"
proof -
  have "read_to_string fs p s = (Inr (log_text ser ls), s)"
    using read_to_string_ok [OF assms(1), of p] assms(5) valid_log_text [OF assms(6)] by simp
  then have "truncate_leading_lines fs p n s =
      bindE (errE Io (fs_write fs (with_extension p (lit ''jsonl.tmp'')) (utf8 (log_text ser (drop n ls)))))
        (\<lambda>_. errE Io (fs_rename fs (with_extension p (lit ''jsonl.tmp'')) p)) s"
    using nonblank_lines [OF assms(6)] truncated_text [OF assms(6), of n] by (simp add: truncate_leading_lines_def Let_def drop_map)
  then show ?thesis using swap_done [OF assms(1,3,2,4)] assms(7) by fastforce
qed

lemma truncate_logs_done:
  assumes "ok s" "\<And>a. okp (op_log_path root a) \<and> okp (with_extension (op_log_path root a) (lit ''jsonl.tmp''))"
    "distinct (map fst plan)" "(a, n) \<in> set plan" "truncate_logs fs root plan s = (Inr (), s')"
    "files s (op_log_path root a) = Some (utf8 (log_text ser ls))" "json_laws parse ser (set ls)"
  shows "ok s' \<and> files s' (op_log_path root a) = Some (utf8 (log_text ser (drop (unat n) ls)))"
proof -
  let ?f = "\<lambda>(p, n). truncate_leading_lines fs (op_log_path root p) (unat n)"
  obtain xs ys where plan: "plan = xs @ (a, n) # ys" using assms(4) by (meson split_list)
  have other: "op_log_path root a \<notin> log_files root b" if "(b, m) \<in> set xs \<or> (b, m) \<in> set ys" for b m
    using that assms(3) log_files_disjoint [of a b root] by (force simp: plan)
  obtain s1 s2 where run: "truncate_logs fs root xs s = (Inr (), s1)"
      "truncate_leading_lines fs (op_log_path root a) (unat n) s1 = (Inr (), s2)" "truncate_logs fs root ys s2 = (Inr (), s')"
    using assms(5) by (auto simp: plan truncate_logs_def eachE_append bindE_Inr_iff)
  have "keeps (\<lambda>s. ok s \<and> files s (op_log_path root a) = x) (truncate_logs fs root zs)" if "zs = xs \<or> zs = ys" for x zs
    using that other assms(2) by (intro truncate_logs_keeps) auto
  then have k: "ok (snd (truncate_logs fs root zs t)) \<and> files (snd (truncate_logs fs root zs t)) (op_log_path root a) = files t (op_log_path root a)"
    if "zs = xs \<or> zs = ys" "ok t" for zs t using that keepsD by fastforce
  have s1: "ok s1" "files s1 (op_log_path root a) = Some (utf8 (log_text ser ls))"
    using k [of xs s] run(1) assms(1,6) by simp_all
  have "ok s2 \<and> files s2 (op_log_path root a) = Some (utf8 (log_text ser (drop (unat n) ls)))"
    using truncate_done [OF s1(1) _ _ tmp_paths_ne(3) s1(2) assms(7) run(2)] assms(2) by blast
  then show ?thesis using k [of ys s2] run(3) by simp
qed

lemma markers_read:
  assumes "ok s" "files s (history_path root) = Some (utf8 (log_text (hc_ser_marker C) ms))"
    "json_laws (hc_parse_marker C) (hc_ser_marker C) (set ms)"
  shows "fst (markers C fs root s) = Inr ms"
    "fst (marker_before C fs root ts s) = Inr (find (\<lambda>m. mk_ts_ms m \<le> ts) (rev ms))"
proof -
  have "read_to_string fs (history_path root) s = (Inr (log_text (hc_ser_marker C) ms), s)"
    using read_to_string_ok [OF assms(1)] assms(2) valid_log_text [OF assms(3)] by simp
  then have "markers C fs root s = (Inr ms, s)" by (simp add: markers_def text_or_empty_def marker_lines_log [OF assms(3)])
  then show "fst (markers C fs root s) = Inr ms" "fst (marker_before C fs root ts s) = Inr (find (\<lambda>m. mk_ts_ms m \<le> ts) (rev ms))"
    by (simp_all add: marker_before_def)
qed

lemma save_done:
  assumes "ok s" "okp p" "okp (with_extension p (lit ''loro.tmp''))" "with_extension p (lit ''loro.tmp'') \<noteq> p"
    "snapshot_save fs p b s = (Inr (), s')"
  shows "ok s' \<and> files s' = (files s)(with_extension p (lit ''loro.tmp'') := None, p \<mapsto> b)"
proof -
  obtain s1 where s1: "ensure_parent fs p s = (Inr (), s1)"
      "bindE (errE Io (fs_write fs (with_extension p (lit ''loro.tmp'')) b)) (\<lambda>_. errE Io (fs_rename fs (with_extension p (lit ''loro.tmp'')) p)) s1 = (Inr (), s')"
    using assms(5) by (auto simp: snapshot_save_def Let_def bindE_Inr_iff)
  have "ok s1 \<and> files s1 q = files s q" for q using keepsD [OF dirs_keep [of q "files s q" p], of s] s1(1) assms(1) by simp
  then have "ok s1 \<and> files s1 = files s" by (auto simp: fun_eq_iff)
  then show ?thesis using swap_done [OF _ assms(3,2,4) s1(2)] by auto
qed

lemma rewrite_done:
  assumes "ok s" "okp (history_path root)" "okp (with_extension (history_path root) (lit ''jsonl.tmp''))"
    "rewrite_history C fs root all ts s = (Inr (), s')"
  shows "ok s' \<and> files s' (history_path root) = Some (utf8 (log_text (hc_ser_marker C) (filter (\<lambda>m. mk_ts_ms m \<ge> ts) all)))"
  using swap_done [OF assms(1,3,2) tmp_paths_ne(2)] assms(4) unfolding rewrite_history_def Let_def by fastforce

text \<open>Listing and reclaiming blobs leaves files outside their directory alone.\<close>

lemma reclaim_far:
  assumes "ok s2" "blob_list \<lparr>bs_root = root @ [Normal (lit ''assets'')], bs_fs = fs\<rparr> s2 = (Inr hs, s3)"
    "reclaim \<lparr>bs_root = root @ [Normal (lit ''assets'')], bs_fs = fs\<rparr> refs hs 0 s3 = (Inr freed, s4)"
    "length q = Suc (Suc (length root))" "q ! length root \<noteq> Normal (lit ''assets'')"
  shows "ok s4 \<and> files s4 q = files s2 q"
proof -
  let ?bs = "\<lparr>bs_root = root @ [Normal (lit ''assets'')], bs_fs = fs\<rparr>"
  have "q \<noteq> p" if "blob_path ?bs h = Inr p" for p h
    using blob_path_form [OF that] assms(4,5) by (auto simp: nth_append)
  then have "keeps (\<lambda>s. ok s \<and> files s q = files s2 q) (reclaim ?bs refs hs 0)" by (intro reclaim_keeps) blast
  moreover have "ok s3 \<and> files s3 q = files s2 q"
    using keepsD [OF list_keeps [of q "files s2 q" "root @ [Normal (lit ''assets'')]"], of s2] assms(1,2) by simp
  ultimately have "ok (snd (reclaim ?bs refs hs 0 s3)) \<and> files (snd (reclaim ?bs refs hs 0 s3)) q = files s2 q" by (rule keepsD)
  then show ?thesis using assms(3) by simp
qed

text \<open>
  The whole effect of a successful checkpoint on the history file, the log of an author \<open>a\<close> and the
  snapshot file.
\<close>

lemma checkpoint_effect:
  assumes "ok (st_disk st)" "ve_fs V = fs" "ckpt_paths_ok okp (st_root st)"
    "files (st_disk st) (history_path (st_root st)) = Some (utf8 (log_text (hc_ser_marker C) ms))"
    "json_laws (hc_parse_marker C) (hc_ser_marker C) (set ms)" "find (\<lambda>m. mk_ts_ms m \<le> ts) (rev ms) = Some m"
    "distinct (map fst (mk_log_lens m))" "(a, k) \<in> set (mk_log_lens m)"
    "files (st_disk st) (op_log_path (st_root st) a) = Some (utf8 (log_text ser ls))" "json_laws parse ser (set ls)"
    "checkpoint V C ts st = (Inr freed, st')"
  shows "ok (st_disk st') \<and> st_root st' = st_root st
    \<and> files (st_disk st') (history_path (st_root st)) = Some (utf8 (log_text (hc_ser_marker C) (filter (\<lambda>x. mk_ts_ms x \<ge> mk_ts_ms m) ms)))
    \<and> files (st_disk st') (op_log_path (st_root st) a) = Some (utf8 (log_text ser (drop (unat k) ls)))
    \<and> (\<exists>f d d' b. decode_frontier V (mk_frontier m) = Inr f \<and> lo_export_shallow (ve_loro V) f d = (Inr b, d')
         \<and> files (st_disk st') (snapshot_path (st_root st)) = Some b)"
proof -
  let ?root = "st_root st" and ?s = "st_disk st"
  let ?bs = "\<lparr>bs_root = ?root @ [Normal (lit ''assets'')], bs_fs = fs\<rparr>"
  have bs: "store_blobs V st = ?bs"
    using assms(2) sub_path_eq [of "''assets''" ?root] by (simp add: store_blobs_def lit_def slash_def dot_def)
  note read = markers_read(2) [OF assms(1,4,5), of ts, unfolded assms(6)] markers_read(1) [OF assms(1,4,5)]
  note paths = ckpt_paths [OF assms(3)]
  obtain refs f b d0 d1 d2 s1 s2 hs s3 s4 s5 where
      run: "decode_frontier V (mk_frontier m) = Inr f" "doc_shallow_snapshot (ve_loro V) f d0 = (Inr b, d1)"
      "snapshot_save fs (snapshot_path ?root) b ?s = (Inr (), s1)" "truncate_logs fs ?root (mk_log_lens m) s1 = (Inr (), s2)"
      "blob_list ?bs s2 = (Inr hs, s3)" "reclaim ?bs refs hs 0 s3 = (Inr freed, s4)"
      "rewrite_history C fs ?root ms (mk_ts_ms m) s4 = (Inr (), s5)" "st' = st\<lparr>st_doc := d2, st_disk := s5\<rparr>"
    using assms(11) unfolding checkpoint_unfold [OF assms(1,2) read] bs chain_iffs by auto
  have ex: "lo_export_shallow (ve_loro V) f d0 = (Inr b, d1)"
    using run(2) by (auto simp: doc_shallow_snapshot_def loro_call_def errE_def split: prod.splits)
  have s1: "ok s1" "files s1 (snapshot_path ?root) = Some b" "files s1 (op_log_path ?root a) = Some (utf8 (log_text ser ls))"
    using save_done [OF assms(1) paths(1,2) tmp_paths_ne(1) run(3)] assms(9) not_log_file(4) [of ?root a] by auto
  have "keeps (\<lambda>s. ok s \<and> files s (snapshot_path ?root) = Some b) (truncate_logs fs ?root (mk_log_lens m))"
    using paths(5) not_log_file(2) by (intro truncate_logs_keeps) auto
  then have keep2: "ok s2 \<and> files s2 (snapshot_path ?root) = Some b" using keepsD [of _ _ s1] s1 run(4) by fastforce
  have s2: "files s2 (op_log_path ?root a) = Some (utf8 (log_text ser (drop (unat k) ls)))"
    using truncate_logs_done [OF s1(1) paths(5) assms(7,8) run(4) s1(3) assms(10)] by blast
  have keep: "ok s4 \<and> files s4 q = files s2 q" if "length q = Suc (Suc (length ?root))" "q ! length ?root \<noteq> Normal (lit ''assets'')" for q
    using reclaim_far [OF _ run(5,6) that] keep2 by blast
  have "op_log_path ?root a ! length ?root \<noteq> Normal (lit ''assets'')" "snapshot_path ?root ! length ?root \<noteq> Normal (lit ''assets'')"
      "length (op_log_path ?root a) = Suc (Suc (length ?root))" "length (snapshot_path ?root) = Suc (Suc (length ?root))"
    by (simp_all add: file_forms nth_append) (simp_all add: lit_def)
  then have s4: "ok s4" "files s4 (op_log_path ?root a) = Some (utf8 (log_text ser (drop (unat k) ls)))"
      "files s4 (snapshot_path ?root) = Some b"
    using keep s2 keep2 by auto
  have keep5: "files s5 q = files s4 q" if "q \<notin> {history_path ?root, with_extension (history_path ?root) (lit ''jsonl.tmp'')}" for q
    using keepsD [OF rewrite_keeps [OF paths(3,4) that, of "files s4 q" C ms "mk_ts_ms m"], of s4] s4(1) run(7) by (metis snd_conv)
  have hist: "ok s5 \<and> files s5 (history_path ?root) = Some (utf8 (log_text (hc_ser_marker C) (filter (\<lambda>x. mk_ts_ms x \<ge> mk_ts_ms m) ms)))"
    using rewrite_done [OF s4(1) paths(3,4) run(7)] .
  have "files s5 (op_log_path ?root a) = Some (utf8 (log_text ser (drop (unat k) ls)))" "files s5 (snapshot_path ?root) = Some b"
    using keep5 [OF not_log_file(5)] keep5 [OF not_log_file(6)] s4 by simp_all
  then show ?thesis using hist ex run(1) by (auto simp: run(8))
qed

end

interpretation mem_list: listing_fs mem_fs mem_ok mem_file "\<lambda>s p. p \<in> set (mem_dirs s)" "\<lambda>_. True" "\<lambda>_ _. True"
  by unfold_locales (simp add: mem_fs_def mem_read_dir_def)

interpretation slot_list: listing_fs pool_fs pool_ok pool_file pool_dir pool_path pool_room
  by unfold_locales (simp add: pool_fs_def pool_read_dir_def)

section \<open>Properties\<close>

text \<open>
  When a recorded frontier cannot be read, collecting references returns early and leaves the document
  where the frontier before it was checked out.
\<close>

lemma failed_collection_stays_checked_out:
  assumes "decode_frontier V f = Inr x" "lo_checkout (ve_loro V) x d = (Inr (), d1)" "decode_frontier V g = Inl e"
  shows "referenced_hashes V C [f, g] d = (Inl e, d1)"
  using assms by (simp add: referenced_hashes_def doc_checkout_def loro_call_def errE_def bindE_def)

text \<open>
  C29: running a checkpoint twice loses operations. The markers a checkpoint keeps still hold the
  line counts from before the logs were cut, so a second checkpoint that picks the same marker drops
  the same number of lines again: lines written after the marker, which the snapshot file, taken at
  the marker's frontier both times, does not contain.
\<close>

theorem second_checkpoint_drops_live_lines:
  assumes "mem_ok (st_disk st)" "ve_fs V = mem_fs"
    "mem_file (st_disk st) (history_path (st_root st)) = Some (utf8 (log_text (hc_ser_marker C) ms))"
    "json_laws (hc_parse_marker C) (hc_ser_marker C) (set ms)" "find (\<lambda>m. mk_ts_ms m \<le> ts) (rev ms) = Some m"
    "distinct (map fst (mk_log_lens m))" "(a, k) \<in> set (mk_log_lens m)"
    "mem_file (st_disk st) (op_log_path (st_root st) a) = Some (utf8 (log_text ser ls))" "json_laws parse ser (set ls)"
    "checkpoint V C ts st = (Inr n1, st1)" "checkpoint V C ts st1 = (Inr n2, st2)"
  shows "mem_file (st_disk st1) (op_log_path (st_root st) a) = Some (utf8 (log_text ser (drop (unat k) ls)))
    \<and> mem_file (st_disk st2) (op_log_path (st_root st) a) = Some (utf8 (log_text ser (drop (unat k + unat k) ls)))
    \<and> (\<exists>f d d' b. decode_frontier V (mk_frontier m) = Inr f \<and> lo_export_shallow (ve_loro V) f d = (Inr b, d')
         \<and> mem_file (st_disk st2) (snapshot_path (st_root st)) = Some b)"
proof -
  let ?ms = "filter (\<lambda>x. mk_ts_ms x \<ge> mk_ts_ms m) ms"
  have paths: "ckpt_paths_ok (\<lambda>_. True) r" for r by (simp add: ckpt_paths_ok_def)
  note one = mem_list.checkpoint_effect [OF assms(1,2) paths assms(3-10)]
  have "find (\<lambda>m. mk_ts_ms m \<le> ts) (rev ?ms) = Some m"
    using assms(5) by (auto simp: rev_filter find_filter_first)
  then have two: "mem_ok (st_disk st1)" "st_root st1 = st_root st"
      "mem_file (st_disk st1) (history_path (st_root st1)) = Some (utf8 (log_text (hc_ser_marker C) ?ms))"
      "mem_file (st_disk st1) (op_log_path (st_root st1) a) = Some (utf8 (log_text ser (drop (unat k) ls)))"
    using one by simp_all
  have laws: "json_laws (hc_parse_marker C) (hc_ser_marker C) (set ?ms)" "json_laws parse ser (set (drop (unat k) ls))"
    using json_laws_mono [OF assms(4)] json_laws_mono [OF assms(9) set_drop_subset] by auto
  from mem_list.checkpoint_effect [OF two(1) assms(2) paths two(3) laws(1) _ assms(6,7) two(4) laws(2) assms(11)]
  show ?thesis using \<open>find (\<lambda>m. mk_ts_ms m \<le> ts) (rev ?ms) = Some m\<close> one two(2) by (auto simp: add.commute)
qed


section \<open>Checkpoints complete\<close>

text \<open>Operations that return from every state that satisfies a predicate, and keep it.\<close>

definition runs :: "('s \<Rightarrow> bool) \<Rightarrow> ('a \<Rightarrow> bool) \<Rightarrow> ('s, 'e, 'a) op \<Rightarrow> bool" where
  "runs Q R m \<longleftrightarrow> (\<forall>s. Q s \<longrightarrow> (\<exists>a s'. m s = (Inr a, s') \<and> Q s' \<and> R a))"

lemma runsI: "(\<And>s. Q s \<Longrightarrow> \<exists>a s'. m s = (Inr a, s') \<and> Q s' \<and> R a) \<Longrightarrow> runs Q R m"
  by (simp add: runs_def)

lemma runsD: "runs Q R m \<Longrightarrow> Q s \<Longrightarrow> \<exists>a s'. m s = (Inr a, s') \<and> Q s' \<and> R a"
  by (simp add: runs_def)

lemma runs_returnE: "R a \<Longrightarrow> runs Q R (returnE a)"
  by (auto simp: runs_def)

lemma runs_errE: "runs Q R m \<Longrightarrow> runs Q R (errE g m)"
  by (fastforce simp: runs_def errE_def)

lemma runs_bindE: "runs Q S m \<Longrightarrow> (\<And>a. S a \<Longrightarrow> runs Q R (f a)) \<Longrightarrow> runs Q R (bindE m f)"
  by (fastforce simp: runs_def bindE_def)

lemma runs_eachE: "(\<And>x. x \<in> set xs \<Longrightarrow> runs Q (\<lambda>_. True) (f x)) \<Longrightarrow> runs Q (\<lambda>_. True) (eachE f xs)"
  by (induction xs) (auto intro!: runs_bindE runs_returnE)

lemma runs_on_disk: "runs Q R m \<Longrightarrow> runs (\<lambda>st. Q (st_disk st)) R (on_disk m)"
  by (fastforce simp: runs_def on_disk_def)

lemma runs_liftE: "r = Inr a \<Longrightarrow> R a \<Longrightarrow> runs Q R (liftE r)"
  by (auto simp: runs_def)

text \<open>A vault in memory whose logs are whole lines.\<close>

definition ckpt_ready :: "(ustr \<Rightarrow> 'l option) \<Rightarrow> ('l \<Rightarrow> ustr) \<Rightarrow> path \<Rightarrow> mem_state \<Rightarrow> bool" where
  "ckpt_ready parse ser root s \<longleftrightarrow>
     mem_ok s \<and> root @ [Normal (lit ''assets'')] \<in> set (mem_dirs s)
     \<and> (\<forall>a. mem_file s (op_log_path root a) = None
          \<or> (\<exists>ls. mem_file s (op_log_path root a) = Some (utf8 (log_text ser ls)) \<and> json_laws parse ser (set ls)))"

lemma mem_swap_runs:
  assumes "mem_ok s" "tmp \<noteq> p"
  shows "\<exists>s'. bindE (errE Io (fs_write mem_fs tmp b)) (\<lambda>_. errE Io (fs_rename mem_fs tmp p)) s = (Inr (), s')
    \<and> mem_ok s' \<and> mem_file s' = (mem_file s)(tmp := None, p \<mapsto> b) \<and> mem_dirs s' = mem_dirs s"
  using assms by (auto simp: mem_fs_def mem_write_def mem_rename_def mem_ok_def mem_file_def btree_simps Let_def fun_eq_iff)

lemma ready_swap:
  assumes "ckpt_ready parse ser root s" "tmp \<noteq> p" "\<And>a. op_log_path root a \<noteq> tmp"
    "\<And>a. op_log_path root a = p \<Longrightarrow> \<exists>ls. b = utf8 (log_text ser ls) \<and> json_laws parse ser (set ls)"
  shows "\<exists>s'. bindE (errE Io (fs_write mem_fs tmp b)) (\<lambda>_. errE Io (fs_rename mem_fs tmp p)) s = (Inr (), s') \<and> ckpt_ready parse ser root s'"
proof -
  have ok: "mem_ok s" using assms(1) by (simp add: ckpt_ready_def)
  obtain s' where s': "bindE (errE Io (fs_write mem_fs tmp b)) (\<lambda>_. errE Io (fs_rename mem_fs tmp p)) s = (Inr (), s')"
      "mem_ok s'" "mem_file s' = (mem_file s)(tmp := None, p \<mapsto> b)" "mem_dirs s' = mem_dirs s"
    using mem_swap_runs [OF ok assms(2)] by blast
  have "mem_file s' (op_log_path root a) = None
      \<or> (\<exists>ls. mem_file s' (op_log_path root a) = Some (utf8 (log_text ser ls)) \<and> json_laws parse ser (set ls))" for a
    using assms(1,3) assms(4) [of a] by (auto simp: s'(3) ckpt_ready_def)
  then show ?thesis using s' assms(1) by (auto simp: ckpt_ready_def)
qed

lemma save_runs: "runs (ckpt_ready parse ser root) (\<lambda>_. True) (snapshot_save mem_fs (snapshot_path root) b)"
proof -
  have "runs (ckpt_ready parse ser root) (\<lambda>_. True) (fs_create_dir_all mem_fs d)" for d
    by (rule runsI) (auto simp: mem_fs_def mem_create_dir_all_def ckpt_ready_def mem_ok_def mem_file_def set_fold_bs_insert)
  then have "runs (ckpt_ready parse ser root) (\<lambda>_. True) (ensure_parent mem_fs p)" for p
    by (auto simp: ensure_parent_def intro!: runs_errE runs_returnE split: option.splits)
  moreover have "runs (ckpt_ready parse ser root) (\<lambda>_. True)
     (bindE (errE Io (fs_write mem_fs (with_extension (snapshot_path root) (lit ''loro.tmp'')) b))
        (\<lambda>_. errE Io (fs_rename mem_fs (with_extension (snapshot_path root) (lit ''loro.tmp'')) (snapshot_path root))))"
    using ready_swap [OF _ tmp_paths_ne(1)] not_log_file(4) by (intro runsI) fastforce
  ultimately show ?thesis unfolding snapshot_save_def Let_def by (blast intro: runs_bindE)
qed

lemma rewrite_runs: "runs (ckpt_ready parse ser root) (\<lambda>_. True) (rewrite_history C mem_fs root all ts)"
  unfolding rewrite_history_def Let_def using ready_swap [OF _ tmp_paths_ne(2)] not_log_file(5) by (intro runsI) fastforce

lemma truncate_runs: "runs (ckpt_ready parse ser root) (\<lambda>_. True) (truncate_leading_lines mem_fs (op_log_path root a) n)"
proof (rule runsI)
  fix s assume s: "ckpt_ready parse ser root s"
  let ?p = "op_log_path root a" and ?tmp = "with_extension (op_log_path root a) (lit ''jsonl.tmp'')"
  have ok: "mem_ok s" using s by (simp add: ckpt_ready_def)
  have "\<exists>s'. truncate_leading_lines mem_fs ?p n s = (Inr (), s') \<and> ckpt_ready parse ser root s'"
  proof (cases "mem_file s ?p")
    case None
    then show ?thesis using mem.read_to_string_ok [OF ok, of ?p] s by (simp add: truncate_leading_lines_def)
  next
    case (Some b)
    then obtain ls where ls: "b = utf8 (log_text ser ls)" "json_laws parse ser (set ls)"
      using s unfolding ckpt_ready_def by (metis option.distinct(1) option.inject)
    have "op_log_path root c \<noteq> ?tmp" for c
      using log_files_disjoint [of c a root] tmp_paths_ne(3) [of root a] by (cases "c = a") (auto simp: log_files_def)
    then obtain s' where run: "bindE (errE Io (fs_write mem_fs ?tmp (utf8 (log_text ser (drop n ls))))) (\<lambda>_. errE Io (fs_rename mem_fs ?tmp ?p)) s = (Inr (), s')"
        "ckpt_ready parse ser root s'"
      using ready_swap [OF s tmp_paths_ne(3) [of root a], where b = "utf8 (log_text ser (drop n ls))"] json_laws_mono [OF ls(2) set_drop_subset] by blast
    have "read_to_string mem_fs ?p s = (Inr (log_text ser ls), s)"
      using mem.read_to_string_ok [OF ok, of ?p] Some ls valid_log_text [OF ls(2)] by simp
    then have "truncate_leading_lines mem_fs ?p n s =
        bindE (errE Io (fs_write mem_fs ?tmp (utf8 (log_text ser (drop n ls))))) (\<lambda>_. errE Io (fs_rename mem_fs ?tmp ?p)) s"
      using nonblank_lines [OF ls(2)] truncated_text [OF ls(2), of n] by (simp add: truncate_leading_lines_def Let_def drop_map)
    then show ?thesis using run by simp
  qed
  then show "\<exists>u s'. truncate_leading_lines mem_fs ?p n s = (Inr u, s') \<and> ckpt_ready parse ser root s' \<and> True" by blast
qed

lemma list_runs:
  "runs (ckpt_ready parse ser root) (list_all is_valid_hash) (blob_list \<lparr>bs_root = root @ [Normal (lit ''assets'')], bs_fs = mem_fs\<rparr>)"
  by (rule runsI) (auto simp: blob_list_def mem_fs_def mem_read_dir_def ckpt_ready_def list_all_iff)

lemma ready_remove:
  assumes "ckpt_ready parse ser root s" "\<And>a. op_log_path root a \<noteq> p"
  shows "\<exists>s'. remove_tolerant mem_fs p s = (Inr (), s') \<and> ckpt_ready parse ser root s'"
  using assms by (cases "bt_get (mem_files s) p")
    (auto simp: remove_tolerant_def mem_fs_def mem_remove_file_def ckpt_ready_def mem_ok_def mem_file_def btree_simps)

lemma reclaim_runs:
  "list_all is_valid_hash hs \<Longrightarrow>
   runs (ckpt_ready parse ser root) (\<lambda>_. True) (reclaim \<lparr>bs_root = root @ [Normal (lit ''assets'')], bs_fs = mem_fs\<rparr> refs hs n)"
proof (induction hs arbitrary: n)
  case (Cons h hs)
  let ?bs = "\<lparr>bs_root = root @ [Normal (lit ''assets'')], bs_fs = mem_fs\<rparr>"
  have h: "is_valid_hash h" "blob_path ?bs h = Inr (root @ [Normal (lit ''assets''), Normal h])"
    using Cons.prems blob_paths(1) [of h ?bs] hash_valid_str [of h] by (simp_all add: blob_path_def)
  have "op_log_path root a \<noteq> root @ [Normal (lit ''assets''), Normal h]" for a
    by (simp add: file_forms) (simp add: lit_def)
  then have "runs (ckpt_ready parse ser root) (\<lambda>_. True) (blob_remove ?bs h)"
    using ready_remove [of parse ser root] by (intro runsI) (simp add: blob_remove_def h(2))
  moreover have "runs (ckpt_ready parse ser root) (\<lambda>_. True) (blob_size ?bs h)"
    by (rule runsI) (auto simp: blob_size_def h(2) mem.file_len_law ckpt_ready_def ok_or_def split: option.splits)
  ultimately show ?case using Cons by (auto intro!: runs_bindE)
qed (simp add: runs_returnE)

text \<open>
  What the document library answers: every listed frontier decodes, and looking at it and exporting
  from it succeed.
\<close>

definition frontiers_live :: "('s, 'd, 'v, 'f) vault_env \<Rightarrow> ustr list \<Rightarrow> bool" where
  "frontiers_live V fs \<longleftrightarrow>
     (\<forall>x \<in> set fs. \<exists>f. decode_frontier V x = Inr f
        \<and> (\<forall>d. \<exists>d'. lo_checkout (ve_loro V) f d = (Inr (), d')) \<and> (\<forall>d. \<exists>b d'. lo_export_shallow (ve_loro V) f d = (Inr b, d')))"

lemma hashes_run: "frontiers_live V fs \<Longrightarrow> \<exists>refs' d'. hashes_at V C fs refs d = (Inr refs', d')"
proof (induction fs arbitrary: refs d)
  case (Cons x fs)
  obtain f d1 where f: "decode_frontier V x = Inr f" "lo_checkout (ve_loro V) f d = (Inr (), d1)"
    using Cons.prems unfolding frontiers_live_def by (meson list.set_intros(1))
  have "frontiers_live V fs" using Cons.prems by (simp add: frontiers_live_def)
  then show ?case using Cons.IH f by (simp add: doc_checkout_def loro_call_def errE_def bindE_def)
qed simp

lemma refs_run:
  fixes V :: "('s, 'd, 'v, 'f) vault_env"
  assumes "frontiers_live V fs"
  shows "runs (\<lambda>st :: ('t, 'd, 'w) store. Q (st_disk st)) (\<lambda>_. True) (on_store_doc (referenced_hashes V C fs))"
proof (rule runsI)
  fix st :: "('t, 'd, 'w) store" assume Q: "Q (st_disk st)"
  obtain refs d where "hashes_at V C fs [] (st_doc st) = (Inr refs, d)" using hashes_run [OF assms] by blast
  then show "\<exists>a st'. on_store_doc (referenced_hashes V C fs) st = (Inr a, st') \<and> Q (st_disk st') \<and> True"
    using Q by (simp add: on_store_doc_def referenced_hashes_def bindE_def Let_def)
qed

lemma shallow_run:
  fixes L :: "('d, 'v, 'f) loro"
  assumes "\<And>d. \<exists>b d'. lo_export_shallow L f d = (Inr b, d')"
  shows "runs (\<lambda>st :: ('t, 'd, 'w) store. Q (st_disk st)) (\<lambda>_. True) (on_doc (doc_shallow_snapshot L f))"
proof (rule runsI)
  fix st :: "('t, 'd, 'w) store" assume Q: "Q (st_disk st)"
  obtain b d where "lo_export_shallow L f (st_doc st) = (Inr b, d)" using assms by blast
  then show "\<exists>a st'. on_doc (doc_shallow_snapshot L f) st = (Inr a, st') \<and> Q (st_disk st') \<and> True"
    using Q by (simp add: on_doc_def doc_shallow_snapshot_def loro_call_def errE_def)
qed

lemma checkpoint_runs:
  assumes "ckpt_ready parse ser (st_root st) (st_disk st)" "ve_fs V = mem_fs"
    "fst (marker_before C mem_fs (st_root st) ts (st_disk st)) = Inr (Some target)"
    "fst (markers C mem_fs (st_root st) (st_disk st)) = Inr all" "target \<in> set all" "frontiers_live V (map mk_frontier all)"
  shows "\<exists>n st'. checkpoint V C ts st = (Inr n, st') \<and> ckpt_ready parse ser (st_root st) (st_disk st')"
proof -
  let ?root = "st_root st" and ?Q = "\<lambda>st'. ckpt_ready parse ser (st_root st) (st_disk st')"
  let ?retained = "map mk_frontier (filter (\<lambda>m. mk_ts_ms m \<ge> mk_ts_ms target) all)"
  have ok: "mem_ok (st_disk st)" using assms(1) by (simp add: ckpt_ready_def)
  have bs: "store_blobs V st = \<lparr>bs_root = ?root @ [Normal (lit ''assets'')], bs_fs = mem_fs\<rparr>"
    using assms(2) sub_path_eq [of "''assets''" ?root] by (simp add: store_blobs_def lit_def slash_def dot_def)
  have "frontiers_live V ?retained" using assms(6) by (auto simp: frontiers_live_def)
  then have refs: "runs ?Q (\<lambda>_. True) (on_store_doc (referenced_hashes V C ?retained))"
    by (rule refs_run)
  obtain f where f: "decode_frontier V (mk_frontier target) = Inr f" "\<And>d. \<exists>b d'. lo_export_shallow (ve_loro V) f d = (Inr b, d')"
    using assms(5,6) by (auto simp: frontiers_live_def)
  have shallow: "runs ?Q (\<lambda>_. True) (on_doc (doc_shallow_snapshot (ve_loro V) f))"
    using f(2) by (rule shallow_run)
  have trunc: "runs (ckpt_ready parse ser ?root) (\<lambda>_. True) (truncate_logs mem_fs ?root plan)" for plan
    unfolding truncate_logs_def by (intro runs_eachE) (auto intro: truncate_runs)
  have frontier: "runs ?Q (\<lambda>x. x = f) (liftE (decode_frontier V (mk_frontier target)))" using f(1) by (rule runs_liftE) simp
  note disk = runs_on_disk [where Q = "ckpt_ready parse ser ?root"]
  have "runs ?Q (\<lambda>_. True)
     (bindE (on_store_doc (referenced_hashes V C ?retained)) (\<lambda>referenced.
     bindE (liftE (decode_frontier V (mk_frontier target))) (\<lambda>frontier.
     bindE (on_doc (doc_shallow_snapshot (ve_loro V) frontier)) (\<lambda>shallow.
     bindE (on_disk (snapshot_save mem_fs (snapshot_path ?root) shallow)) (\<lambda>_.
     bindE (on_disk (truncate_logs mem_fs ?root (mk_log_lens target))) (\<lambda>_.
     bindE (on_disk (blob_list (store_blobs V st))) (\<lambda>hs.
     bindE (on_disk (reclaim (store_blobs V st) referenced hs 0)) (\<lambda>freed.
     bindE (on_disk (rewrite_history C mem_fs ?root all (mk_ts_ms target))) (\<lambda>_.
     returnE freed)))))))))"
    unfolding bs
    by (rule runs_bindE [OF refs], rule runs_bindE [OF frontier], simp, rule runs_bindE [OF shallow],
        rule runs_bindE [OF disk [OF save_runs]], rule runs_bindE [OF disk [OF trunc]], rule runs_bindE [OF disk [OF list_runs]],
        rule runs_bindE [OF disk [OF reclaim_runs]], assumption, rule runs_bindE [OF disk [OF rewrite_runs]], rule runs_returnE, simp)
  from runsD [OF this, of st] assms(1) show ?thesis unfolding mem_list.checkpoint_unfold [OF ok assms(2-4)] by auto
qed


text \<open>A vault in memory: one marker that counts one line, a log of three lines and one blob.\<close>

definition ex_marker :: marker where
  "ex_marker = \<lparr>mk_ts_ms = 5, mk_frontier = [], mk_log_lens = [(1, 1)]\<rparr>"

definition ex_codec :: hist_codec where
  "ex_codec = \<lparr>hc_parse_marker = toy_parses [ex_marker], hc_ser_marker = toy_sers [ex_marker], hc_parse_held = \<lambda>_. None,
     hc_ser_held = \<lambda>_. [], hc_str_field = \<lambda>_ _. Some ex_hash, hc_hash = \<lambda>b. b\<rparr>"

definition ex_mem_vault :: "(mem_state, unit, unit, unit) vault_env" where
  "ex_mem_vault = \<lparr>ve_fs = mem_fs, ve_env = toy_env, ve_crypto = toy_crypto,
     ve_loro = toy_loro\<lparr>lo_map_keys := \<lambda>_ _. [[1]], lo_map_get := \<lambda>_ _ _. Some (LString [])\<rparr>, ve_valid_key = \<lambda>_. True,
     ve_x_secret = \<lambda>k. k, ve_to_x = \<lambda>k. k, ve_parse_op = \<lambda>_. None, ve_ser_op = \<lambda>_. toy_json,
     ve_parse_roster = \<lambda>_. None, ve_ser_roster = \<lambda>_. toy_json, ve_parse_key = \<lambda>_. None, ve_ser_key = \<lambda>_. toy_json,
     ve_ser_peers = \<lambda>_. [], ve_order = \<lambda>ks. ks\<rparr>"

definition ex_lines :: "nat list" where "ex_lines = [0, 1, 2]"

definition ex_mem :: mem_state where
  "ex_mem = \<lparr>mem_files = bt_insert (history_path []) (utf8 (log_text (hc_ser_marker ex_codec) [ex_marker]))
       (bt_insert (op_log_path [] 1) (utf8 (log_text (toy_sers ex_lines) ex_lines))
       (bt_insert [Normal (lit ''assets''), Normal ex_hash] [7] [])),
     mem_dirs = [[Normal (lit ''assets'')]], mem_owner_only = []\<rparr>"

definition ex_mem_store :: "(mem_state, unit, unit) store" where
  "ex_mem_store = \<lparr>st_disk = ex_mem, st_root = [], st_identity = ex_id, st_doc = (), st_persisted = (), st_peers = [], st_founder = None\<rparr>"

lemma ex_mem_store_simps [simp]: "st_disk ex_mem_store = ex_mem" "st_root ex_mem_store = []" "ve_fs ex_mem_vault = mem_fs"
  by (simp_all add: ex_mem_store_def ex_mem_vault_def)

lemma ex_mem_files:
  "mem_ok ex_mem" "mem_file ex_mem (history_path []) = Some (utf8 (log_text (hc_ser_marker ex_codec) [ex_marker]))"
  "mem_file ex_mem (op_log_path [] a) = (if a = 1 then Some (utf8 (log_text (toy_sers ex_lines) ex_lines)) else None)"
proof -
  show "mem_ok ex_mem" by (simp add: mem_ok_def ex_mem_def btree_simps)
  show "mem_file ex_mem (history_path []) = Some (utf8 (log_text (hc_ser_marker ex_codec) [ex_marker]))"
    by (simp add: mem_file_def ex_mem_def btree_simps)
  have "op_log_path [] a \<noteq> history_path []" "op_log_path [] a \<noteq> [Normal (lit ''assets''), Normal ex_hash]"
    by (simp_all add: file_forms) (simp_all add: lit_def)
  moreover have "op_log_path [] a = op_log_path [] 1 \<longleftrightarrow> a = 1" by (simp add: file_forms show_nat_inj word_unat_eq_iff)
  ultimately show "mem_file ex_mem (op_log_path [] a) = (if a = 1 then Some (utf8 (log_text (toy_sers ex_lines) ex_lines)) else None)"
    by (simp add: mem_file_def ex_mem_def btree_simps)
qed

lemma ex_codec_laws: "json_laws (hc_parse_marker ex_codec) (hc_ser_marker ex_codec) (set [ex_marker])"
  using toy_lines_laws [of "[ex_marker]"] by (simp add: ex_codec_def)

lemma ex_marker_found: "find (\<lambda>m. mk_ts_ms m \<le> 9) (rev [ex_marker]) = Some ex_marker"
  by (simp add: ex_marker_def)

lemma ex_markers:
  "fst (markers ex_codec mem_fs [] ex_mem) = Inr [ex_marker]" "fst (marker_before ex_codec mem_fs [] 9 ex_mem) = Inr (Some ex_marker)"
  using mem_list.markers_read [OF ex_mem_files(1,2) ex_codec_laws] ex_marker_found by simp_all

lemma ex_ready: "ckpt_ready (toy_parses ex_lines) (toy_sers ex_lines) [] ex_mem"
  using ex_mem_files toy_lines_laws [of ex_lines] by (auto simp: ckpt_ready_def) (simp add: ex_mem_def)

lemma ex_live: "frontiers_live ex_mem_vault (map mk_frontier [ex_marker])"
  by (simp add: frontiers_live_def ex_marker_def decode_frontier_def frontier_from_bytes_def ex_mem_vault_def toy_env_def toy_loro_def returnE_def)


theorem second_checkpoint_drops_live_lines_witness:
  "\<exists>n1 st1 n2 st2. checkpoint ex_mem_vault ex_codec 9 ex_mem_store = (Inr n1, st1) \<and> checkpoint ex_mem_vault ex_codec 9 st1 = (Inr n2, st2)
     \<and> mem_file (st_disk st2) (op_log_path [] 1) = Some (utf8 (log_text (toy_sers ex_lines) [2]))"
proof -
  have lens: "distinct (map fst (mk_log_lens ex_marker))" "(1, 1) \<in> set (mk_log_lens ex_marker)" by (simp_all add: ex_marker_def)
  obtain n1 st1 where one: "checkpoint ex_mem_vault ex_codec 9 ex_mem_store = (Inr n1, st1)" "ckpt_ready (toy_parses ex_lines) (toy_sers ex_lines) [] (st_disk st1)"
    using checkpoint_runs [of "toy_parses ex_lines" "toy_sers ex_lines" ex_mem_store ex_mem_vault ex_codec 9 ex_marker "[ex_marker]"]
      ex_markers ex_ready ex_live by auto
  have log: "mem_file (st_disk ex_mem_store) (op_log_path (st_root ex_mem_store) 1) = Some (utf8 (log_text (toy_sers ex_lines) ex_lines))"
    using ex_mem_files(3) by simp
  have after: "mem_ok (st_disk st1)" "st_root st1 = []" "mem_file (st_disk st1) (history_path []) = Some (utf8 (log_text (hc_ser_marker ex_codec) [ex_marker]))"
    using mem_list.checkpoint_effect [OF _ _ _ _ ex_codec_laws ex_marker_found lens log toy_lines_laws one(1)] ex_mem_files(1,2)
    by (simp_all add: ckpt_paths_ok_def)
  obtain n2 st2 where two: "checkpoint ex_mem_vault ex_codec 9 st1 = (Inr n2, st2)"
    using checkpoint_runs [of "toy_parses ex_lines" "toy_sers ex_lines" st1 ex_mem_vault ex_codec 9 ex_marker "[ex_marker]"]
      mem_list.markers_read [OF after(1,3) ex_codec_laws] ex_marker_found one(2) ex_live after(2) by auto
  have "mem_file (st_disk st2) (op_log_path [] 1) = Some (utf8 (log_text (toy_sers ex_lines) (drop (unat (1 :: u64) + unat (1 :: u64)) ex_lines)))"
    using second_checkpoint_drops_live_lines [OF _ _ _ ex_codec_laws ex_marker_found lens log toy_lines_laws one(1) two] ex_mem_files(1,2) by simp
  moreover have "drop (unat (1 :: u64) + unat (1 :: u64)) ex_lines = [2]" by (simp add: ex_lines_def)
  ultimately show ?thesis using one(1) two by auto
qed


end
