(* ===== verification/Snapshot_Bootstrap.thy ===== *)
theory Snapshot_Bootstrap
  imports Snapshot_Msg Checkpoint
begin

text \<open>
  Adopting a snapshot received from a peer or from the backend
  (\<open>roam-storage/src/snapshot_bootstrap.rs\<close>): the frame is split, the manifest's signature is checked
  against the keys of the active admins, and only then is the store changed.
\<close>

record snap_codec =
  sc_parse_manifest :: "bytes \<Rightarrow> snapshot_manifest option"
  sc_b64url_decode :: "ustr \<Rightarrow> bytes option"

datatype adopt_outcome = Adopted ustr "ustr list" | Undecryptable | Rejected ustr

definition admin_author_keys :: "('s, 'd, 'v, 'f) vault_env \<Rightarrow> ('s, 'd, 'v) store \<Rightarrow> peer \<rightharpoonup> bytes" where
  "admin_author_keys V st =
     (let m = fold (\<lambda>r m. if pr_role r = Admin \<and> pr_status r = Active \<and> ve_valid_key V (pr_verifying_key r)
                          then m(pr_peer_id r \<mapsto> pr_verifying_key r) else m) (st_peers st) Map.empty in
      if self_role st = Some Admin \<and> ve_valid_key V (self_key V st) then m(self_id st \<mapsto> self_key V st) else m)"

definition open_classified :: "crypto \<Rightarrow> keychain \<Rightarrow> bytes \<Rightarrow> bytes option" where
  "open_classified C kc payload =
     (let plan = classify kc payload in
      case rp_key plan of
        None \<Rightarrow> None
      | Some key \<Rightarrow> (case open_epoch C key (drop (rp_body_offset plan) payload) of Inr pt \<Rightarrow> Some pt | Inl _ \<Rightarrow> None))"

definition adopt_and_hold :: "('s, 'd, 'v, 'f) vault_env \<Rightarrow> hist_codec \<Rightarrow> bytes \<Rightarrow> ustr \<Rightarrow> ustr list \<Rightarrow> bytes
    \<Rightarrow> (('s, 'd, 'v) store, storage_error, adopt_outcome) op" where
  "adopt_and_hold V C plaintext i subsumed framed =
     bindE (adopt_snapshot V plaintext) (\<lambda>_ st.
     bindE (on_disk (record_held_snapshot C (ve_fs V) (st_root st) i subsumed)) (\<lambda>_ st.
     bindE (on_disk (persist_snapshot_object (ve_fs V) (st_root st) i framed)) (\<lambda>_.
     returnE (Adopted i subsumed)) st) st)"

definition verify_and_adopt_snapshot :: "('s, 'd, 'v, 'f) vault_env \<Rightarrow> hist_codec \<Rightarrow> snap_codec \<Rightarrow> keychain \<Rightarrow> (peer \<rightharpoonup> bytes)
    \<Rightarrow> ustr \<Rightarrow> bytes \<Rightarrow> (('s, 'd, 'v) store, storage_error, adopt_outcome) op" where
  "verify_and_adopt_snapshot V C S kc author_keys i framed =
     (case unframe framed of
        None \<Rightarrow> returnE (Rejected (lit ''malformed frame''))
      | Some (manifest_json, sealed) \<Rightarrow>
          case sc_parse_manifest S manifest_json of
            None \<Rightarrow> returnE (Rejected (lit ''manifest parse''))
          | Some manifest \<Rightarrow>
              case author_keys (sm_author manifest) of
                None \<Rightarrow> returnE (Rejected (lit ''author not admin''))
              | Some vk \<Rightarrow>
                  if \<not> manifest_verify (ve_env V) (sc_b64url_decode S) vk manifest then returnE (Rejected (lit ''bad signature''))
                  else if cr_blake3 (ve_crypto V) sealed \<noteq> sm_ct_hash manifest then returnE (Rejected (lit ''ct hash mismatch''))
                  else case open_classified (ve_crypto V) kc sealed of
                         None \<Rightarrow> returnE Undecryptable
                       | Some plaintext \<Rightarrow> adopt_and_hold V C plaintext i (sm_subsumed manifest) framed)"

section \<open>Who may author a snapshot\<close>

lemma admin_fold:
  "fold (\<lambda>r m. if pr_role r = Admin \<and> pr_status r = Active \<and> ve_valid_key V (pr_verifying_key r)
               then m(pr_peer_id r \<mapsto> pr_verifying_key r) else m) rs m p = Some k
   \<Longrightarrow> m p = Some k \<or> (\<exists>r \<in> set rs. pr_peer_id r = p \<and> pr_verifying_key r = k \<and> pr_role r = Admin \<and> pr_status r = Active)"
proof (induction rs arbitrary: m)
  case (Cons r rs)
  from Cons.IH [OF Cons.prems [unfolded fold_simps]] show ?case by (auto split: if_splits)
qed simp

lemma admin_author_keys_Some:
  assumes "admin_author_keys V st p = Some k"
  shows "(\<exists>r \<in> set (st_peers st). pr_peer_id r = p \<and> pr_verifying_key r = k \<and> pr_role r = Admin \<and> pr_status r = Active)
    \<or> p = self_id st \<and> k = self_key V st \<and> self_role st = Some Admin"
  using assms admin_fold [of V "st_peers st" Map.empty p k] by (auto simp: admin_author_keys_def Let_def split: if_splits)


text \<open>A vault whose document records that something was imported.\<close>

definition flag_loro :: "(bool, unit, unit) loro" where
  "flag_loro = \<lparr>lo_new = False, lo_set_peer_id = \<lambda>_. returnE (), lo_set_record_timestamp = \<lambda>_ d. d,
     lo_set_change_merge_interval = \<lambda>_ d. d, lo_text_insert = \<lambda>_ _ _. returnE (), lo_text_delete = \<lambda>_ _ _. returnE (),
     lo_text = \<lambda>_ _. [], lo_map_insert = \<lambda>_ _ _. returnE (), lo_map_delete = \<lambda>_ _. returnE (), lo_map_get = \<lambda>_ _ _. None,
     lo_map_keys = \<lambda>_ _. [], lo_commit = \<lambda>d. d, lo_commit_at = \<lambda>_ d. d,
     lo_import = \<lambda>_ d. (Inr \<lparr>is_success = [], is_pending = None\<rparr>, True), lo_oplog_vv = \<lambda>_. (),
     lo_export_snapshot = returnE [], lo_export_updates = \<lambda>_. returnE [], lo_export_shallow = \<lambda>_. returnE [],
     lo_oplog_frontiers = \<lambda>_. (), lo_checkout = \<lambda>_. returnE (), lo_checkout_latest = \<lambda>d. d,
     lo_vv_encode = \<lambda>_. [], lo_vv_decode = \<lambda>_. Some (), lo_includes_vv = \<lambda>_ _. True,
     lo_frontier_encode = \<lambda>_. [], lo_frontier_decode = \<lambda>_. Some ()\<rparr>"

definition flag_vault :: "(mem_state, bool, unit, unit) vault_env" where
  "flag_vault = \<lparr>ve_fs = mem_fs, ve_env = toy_env, ve_crypto = toy_crypto, ve_loro = flag_loro, ve_valid_key = \<lambda>_. True,
     ve_x_secret = \<lambda>k. k, ve_to_x = \<lambda>k. k, ve_parse_op = \<lambda>_. None, ve_ser_op = \<lambda>_. toy_json,
     ve_parse_roster = \<lambda>_. None, ve_ser_roster = \<lambda>_. toy_json, ve_parse_key = \<lambda>_. None, ve_ser_key = \<lambda>_. toy_json,
     ve_ser_peers = \<lambda>_. [], ve_order = \<lambda>ks. ks\<rparr>"

definition flag_store :: "(mem_state, bool, unit) store" where
  "flag_store = \<lparr>st_disk = mem_new, st_root = [], st_identity = ex_id, st_doc = False, st_persisted = (), st_peers = [ex_me], st_founder = None\<rparr>"

definition ex_sealed :: bytes where
  "ex_sealed = replicate 24 0 @ cr_seal toy_crypto [5] (replicate 24 0) [1]"

definition ex_signed :: snapshot_manifest where
  "ex_signed = manifest_signed toy_env (map unat) ex_id ((ex_manifest [])\<lparr>sm_ct_hash := cr_blake3 toy_crypto ex_sealed\<rparr>)"

definition ex_snap_codec :: snap_codec where
  "ex_snap_codec = \<lparr>sc_parse_manifest = \<lambda>_. Some ex_signed, sc_b64url_decode = \<lambda>s. Some (map of_nat s)\<rparr>"

definition ex_kc :: keychain where
  "ex_kc = keychain_build toy_crypto [] [5] 1 [] []"

lemma on_disk_doc [simp]: "st_doc (snd (on_disk m st)) = st_doc st"
  by (simp add: on_disk_def case_prod_beta)

lemma flag_adopts: "st_doc (snd (adopt_and_hold flag_vault C b i subsumed framed st))"
  by (auto simp: adopt_and_hold_def adopt_snapshot_def on_doc_def doc_import_def loro_call_def errE_def bindE_def flag_vault_def
      flag_loro_def doc_snapshot_def on_disk_def returnE_def case_prod_beta split: sum.splits)


end
