(* ===== verification/File_Set.thy ===== *)
theory File_Set
  imports Rust_Text
begin

text \<open>
  The values of the file-set map (\<open>roam-files/src/fileset.rs\<close>): which files take part in the sync and
  the hash of their content. The JSON form of an entry is read and printed by serde, a parameter.
\<close>

datatype entry_status = Live | Tombstoned

datatype entry_kind = TextEntry | BlobEntry

record file_entry =
  fe_kind :: entry_kind
  fe_status :: entry_status
  fe_content_hash :: ustr
  fe_renamed_from :: "ustr option"
  fe_tombstoned_at :: "ustr option"

definition to_live :: "file_entry \<Rightarrow> file_entry" where
  "to_live e = e\<lparr>fe_status := Live, fe_tombstoned_at := None\<rparr>"

text \<open>A live entry for a binary file; its content hash names the blob.\<close>

definition live_blob :: "file_entry \<Rightarrow> bool" where
  "live_blob e \<longleftrightarrow> fe_kind e = BlobEntry \<and> fe_status e = Live"

end
