(* ===== verification/Engine.thy ===== *)
theory Engine
  imports Snapshot_Bootstrap File_Set "HOL-Library.State_Monad"
begin

text \<open>
  The sync engine (\<open>roam-sync-core/src/engine.rs\<close>): what a device does with one frame from a peer, and
  the pushes its own edits cause. Calls are modelled one after the other, each as a state transformer;
  interleavings of concurrent calls between their locked sections are not. Frames handed to the
  transport are recorded in order, and whether a peer can be dialled is a parameter. Iteration over a
  hash map or hash set of peers follows \<open>ve_order\<close>, since Rust leaves the order open.
\<close>

datatype wire_frame =
    Hello bytes
  | Have bytes
  | Ops peer bytes
  | RosterHave "(peer \<times> u64) list"
  | RosterOps peer bytes
  | Ping
  | BlobWant ustr
  | BlobData ustr bytes
  | KeylogHave "(peer \<times> u64) list"
  | KeylogOps peer bytes
  | SnapshotHave "ustr list"
  | SnapshotWant ustr
  | SnapshotData bytes
  | BlobChunk ustr u64 u64 bytes

datatype net_event = Send peer wire_frame | AddRoute peer bytes | RemoveRoute peer

record incoming_blob =
  ib_total_len :: u64
  ib_received :: u64
  ib_seen :: "u64 list"

record ('s, 'd, 'v, 'f) engine_env =
  ee_vault_env :: "('s, 'd, 'v, 'f) vault_env"
  ee_hist :: hist_codec
  ee_snap :: snap_codec
  ee_parse_entry :: "ustr \<Rightarrow> file_entry option"
  ee_blob_hash :: "bytes \<Rightarrow> ustr"
  ee_dial :: "peer \<Rightarrow> bool"
  ee_peer_id :: peer
  ee_vault :: bytes
  ee_vault_key :: bytes

record ('s, 'd, 'v) engine =
  en_store :: "('s, 'd, 'v) store"
  en_sent_offsets :: "(peer, nat) btree"
  en_acked_versions :: "(peer, bytes) btree"
  en_connected :: "peer list"
  en_incoming :: "(ustr, incoming_blob) btree"
  en_out :: "net_event list"
  en_changed :: nat
  en_flushed :: nat

type_synonym ('s, 'd, 'v, 'a) act = "(('s, 'd, 'v) engine, 'a) state"

definition skip :: "('s, 'd, 'v, unit) act" where
  "skip = State_Monad.return ()"

definition view :: "(('s, 'd, 'v) engine \<Rightarrow> 'a) \<Rightarrow> ('s, 'd, 'v, 'a) act" where
  "view f = State (\<lambda>e. (f e, e))"

definition change :: "(('s, 'd, 'v) engine \<Rightarrow> ('s, 'd, 'v) engine) \<Rightarrow> ('s, 'd, 'v, unit) act" where
  "change f = State (\<lambda>e. ((), f e))"

text \<open>A store call under the store lock.\<close>

definition on_store :: "(('s, 'd, 'v) store, storage_error, 'a) op \<Rightarrow> ('s, 'd, 'v, (storage_error, 'a) res) act" where
  "on_store m = State (\<lambda>e. case m (en_store e) of (r, st') \<Rightarrow> (r, e\<lparr>en_store := st'\<rparr>))"

definition or_default :: "'a \<Rightarrow> (storage_error, 'a) res \<Rightarrow> 'a" where
  "or_default d r = (case r of Inr a \<Rightarrow> a | Inl _ \<Rightarrow> d)"

fun each :: "('x \<Rightarrow> ('s, 'd, 'v, unit) act) \<Rightarrow> 'x list \<Rightarrow> ('s, 'd, 'v, unit) act" where
  "each f [] = skip"
| "each f (x # xs) = do { f x; each f xs }"

definition emit :: "net_event \<Rightarrow> ('s, 'd, 'v, unit) act" where
  "emit ev = change (\<lambda>e. e\<lparr>en_out := en_out e @ [ev]\<rparr>)"

definition send :: "peer \<Rightarrow> wire_frame \<Rightarrow> ('s, 'd, 'v, unit) act" where
  "send p f = emit (Send p f)"

definition notify_changed :: "('s, 'd, 'v, unit) act" where
  "notify_changed = change (\<lambda>e. e\<lparr>en_changed := en_changed e + 1\<rparr>)"

section \<open>Constants and chunk checks\<close>

definition BLOB_CHUNK_SIZE :: u64 where "BLOB_CHUNK_SIZE = 1024 * 1024"

definition MAX_INCOMING_BLOB_BYTES :: u64 where "MAX_INCOMING_BLOB_BYTES = 16 * 1024 * 1024 * 1024"

definition chunk_offset_is_admissible :: "u64 \<Rightarrow> u64 \<Rightarrow> bool" where
  "chunk_offset_is_admissible offset total_len =
     (if total_len = 0 then offset = 0 else offset < total_len \<and> offset mod BLOB_CHUNK_SIZE = 0)"

definition expected_chunk_len :: "u64 \<Rightarrow> u64 \<Rightarrow> u64" where
  "expected_chunk_len offset total_len = min BLOB_CHUNK_SIZE (total_len - offset)"

definition chunk_is_admissible :: "u64 \<Rightarrow> u64 \<Rightarrow> nat \<Rightarrow> bool" where
  "chunk_is_admissible offset total_len len \<longleftrightarrow>
     chunk_offset_is_admissible offset total_len \<and> of_nat len = expected_chunk_len offset total_len"

section \<open>Reading the roster and the logs\<close>

definition active_in :: "('s, 'd, 'v) store \<Rightarrow> peer \<Rightarrow> bool" where
  "active_in st p \<longleftrightarrow> (\<exists>r \<in> set (st_peers st). pr_peer_id r = p \<and> pr_status r = Active)"

definition is_active :: "peer \<Rightarrow> ('s, 'd, 'v, bool) act" where
  "is_active p = view (\<lambda>e. active_in (en_store e) p)"

definition key_for :: "('s, 'd, 'v, 'f) engine_env \<Rightarrow> peer \<Rightarrow> ('s, 'd, 'v, bytes option) act" where
  "key_for E p = view (\<lambda>e. Option.bind (find_peer (st_peers (en_store e)) p)
     (\<lambda>r. if ve_valid_key (ee_vault_env E) (pr_verifying_key r) then Some (pr_verifying_key r) else None))"

definition other_active :: "('s, 'd, 'v, 'f) engine_env \<Rightarrow> ('s, 'd, 'v) store \<Rightarrow> peer_record list" where
  "other_active E st = filter (\<lambda>r. pr_status r = Active \<and> pr_peer_id r \<noteq> ee_peer_id E) (st_peers st)"

fun held_logs :: "(peer \<Rightarrow> (('s, 'd, 'v) store, storage_error, bytes) op) \<Rightarrow> peer list \<Rightarrow> ('s, 'd, 'v, (peer \<times> bytes) list) act" where
  "held_logs export [] = State_Monad.return []"
| "held_logs export (p # ps) =
     do { r \<leftarrow> on_store (export p);
          rest \<leftarrow> held_logs export ps;
          State_Monad.return (case r of Inr jsonl \<Rightarrow> if jsonl = [] then rest else (p, jsonl) # rest | Inl _ \<Rightarrow> rest) }"

definition held_peer_logs :: "('s, 'd, 'v, 'f) engine_env \<Rightarrow> ('s, 'd, 'v, (peer \<times> bytes) list) act" where
  "held_peer_logs E =
     do { peers \<leftarrow> view (\<lambda>e. map pr_peer_id (other_active E (en_store e)));
          held_logs (export_peer_log (ee_vault_env E)) peers }"

definition held_keylogs :: "('s, 'd, 'v, 'f) engine_env \<Rightarrow> ('s, 'd, 'v, (peer \<times> bytes) list) act" where
  "held_keylogs E =
     do { peers \<leftarrow> view (\<lambda>e. map pr_peer_id (other_active E (en_store e)));
          held_logs (export_keylog (ee_vault_env E)) peers }"

section \<open>Offers\<close>

record offer =
  of_doc_version :: bytes
  of_roster_have :: "(peer \<times> u64) list"
  of_own_log :: bytes
  of_own_roster :: bytes
  of_peer_logs :: "(peer \<times> bytes) list"
  of_own_keylog :: bytes
  of_keylogs :: "(peer \<times> bytes) list"

definition gather_offer :: "('s, 'd, 'v, 'f) engine_env \<Rightarrow> ('s, 'd, 'v, offer) act" where
  "gather_offer E =
     do { have \<leftarrow> view (\<lambda>e. map (\<lambda>r. (pr_peer_id r, 0)) (st_peers (en_store e)));
          version \<leftarrow> view (\<lambda>e. doc_version_bytes (ee_vault_env E) (en_store e));
          own_log \<leftarrow> on_store (export_own_log (ee_vault_env E));
          own_roster \<leftarrow> on_store (export_own_roster (ee_vault_env E));
          peer_logs \<leftarrow> held_peer_logs E;
          own_keylog \<leftarrow> on_store (export_own_keylog (ee_vault_env E));
          keylogs \<leftarrow> held_keylogs E;
          State_Monad.return \<lparr>of_doc_version = version, of_roster_have = have, of_own_log = or_default [] own_log,
            of_own_roster = or_default [] own_roster, of_peer_logs = peer_logs, of_own_keylog = or_default [] own_keylog,
            of_keylogs = keylogs\<rparr> }"

definition send_offer :: "('s, 'd, 'v, 'f) engine_env \<Rightarrow> peer \<Rightarrow> offer \<Rightarrow> ('s, 'd, 'v, unit) act" where
  "send_offer E p offer =
     do { send p (RosterHave (of_roster_have offer));
          send p (Have (of_doc_version offer));
          send p (Ops (ee_peer_id E) (of_own_log offer));
          each (\<lambda>(author, jsonl). send p (Ops author jsonl)) (of_peer_logs offer);
          send p (RosterOps (ee_peer_id E) (of_own_roster offer));
          send p (KeylogHave ((ee_peer_id E, 0) # map (\<lambda>(a, _). (a, 0)) (of_keylogs offer)));
          send p (KeylogOps (ee_peer_id E) (of_own_keylog offer));
          each (\<lambda>(author, jsonl). send p (KeylogOps author jsonl)) (of_keylogs offer) }"

definition send_bundle :: "('s, 'd, 'v, 'f) engine_env \<Rightarrow> peer \<Rightarrow> ('s, 'd, 'v, unit) act" where
  "send_bundle E p =
     do { offer \<leftarrow> gather_offer E;
          change (\<lambda>e. e\<lparr>en_sent_offsets := bt_insert p (length (of_own_log offer)) (en_sent_offsets e)\<rparr>);
          change (\<lambda>e. e\<lparr>en_connected := bs_insert p (en_connected e)\<rparr>);
          send p (Hello (ee_vault E));
          send_offer E p offer }"

definition push_logs :: "('s, 'd, 'v, 'f) engine_env \<Rightarrow> peer \<Rightarrow> ('s, 'd, 'v, unit) act" where
  "push_logs E p =
     do { own_log \<leftarrow> on_store (export_own_log (ee_vault_env E));
          peer_logs \<leftarrow> held_peer_logs E;
          send p (Ops (ee_peer_id E) (or_default [] own_log));
          each (\<lambda>(author, jsonl). send p (Ops author jsonl)) peer_logs }"

definition held_ids :: "('s, 'd, 'v, 'f) engine_env \<Rightarrow> ('s, 'd, 'v, ustr list) act" where
  "held_ids E =
     do { r \<leftarrow> on_store (\<lambda>st. on_disk (held_snapshot_ids (ve_fs (ee_vault_env E)) (st_root st)) st);
          State_Monad.return (or_default [] r) }"

definition offer_snapshots :: "('s, 'd, 'v, 'f) engine_env \<Rightarrow> peer \<Rightarrow> 'v \<Rightarrow> ('s, 'd, 'v, unit) act" where
  "offer_snapshots E p incoming =
     do { ours \<leftarrow> view (\<lambda>e. doc_version_bytes (ee_vault_env E) (en_store e));
          let L = ve_loro (ee_vault_env E);
          let behind = (case lo_vv_decode L ours of Some v \<Rightarrow> \<not> lo_includes_vv L incoming v | None \<Rightarrow> False);
          ids \<leftarrow> (if behind then held_ids E else State_Monad.return []);
          if ids \<noteq> [] then send p (SnapshotHave ids) else skip }"

definition ensure_offset :: "peer \<Rightarrow> ('s, 'd, 'v, unit) act" where
  "ensure_offset p = change (\<lambda>e. e\<lparr>en_sent_offsets := bt_upsert p (\<lambda>n. n) 0 (en_sent_offsets e)\<rparr>)"

definition connect :: "('s, 'd, 'v, 'f) engine_env \<Rightarrow> peer \<Rightarrow> ('s, 'd, 'v, bool) act" where
  "connect E p =
     (if ee_dial E p then do { send_bundle E p; State_Monad.return True } else State_Monad.return False)"

definition reconnect_active :: "('s, 'd, 'v, 'f) engine_env \<Rightarrow> ('s, 'd, 'v, unit) act" where
  "reconnect_active E =
     do { peers \<leftarrow> view (\<lambda>e. map pr_peer_id (other_active E (en_store e)));
          each (\<lambda>p. if ee_dial E p then send_bundle E p else skip) peers }"

section \<open>Local changes\<close>

text \<open>A store change followed, when it succeeds, by what the engine does with its result.\<close>

definition then_tell :: "(('s, 'd, 'v) store, storage_error, 'a) op \<Rightarrow> ('a \<Rightarrow> ('s, 'd, 'v, unit) act)
    \<Rightarrow> ('s, 'd, 'v, (storage_error, 'a) res) act" where
  "then_tell m tell =
     do { r \<leftarrow> on_store m;
          (case r of Inl e \<Rightarrow> State_Monad.return (Inl e) | Inr a \<Rightarrow> do { tell a; State_Monad.return (Inr a) }) }"

definition flush_peer :: "('s, 'd, 'v, 'f) engine_env \<Rightarrow> bytes \<Rightarrow> peer \<Rightarrow> ('s, 'd, 'v, unit) act" where
  "flush_peer E suffix p = (if suffix = [] then skip else send p (Ops (ee_peer_id E) suffix))"

definition flush_local :: "('s, 'd, 'v, 'f) engine_env \<Rightarrow> ('s, 'd, 'v, unit) act" where
  "flush_local E =
     do { r \<leftarrow> on_store (export_own_log (ee_vault_env E));
          let own_log = or_default [] r;
          offsets \<leftarrow> view en_sent_offsets;
          change (\<lambda>e. e\<lparr>en_sent_offsets := map (\<lambda>(p, _). (p, length own_log)) (en_sent_offsets e)\<rparr>);
          each (\<lambda>p. flush_peer E (drop (min (the (bt_get offsets p)) (length own_log)) own_log) p)
            (ve_order (ee_vault_env E) (bt_keys offsets));
          change (\<lambda>e. e\<lparr>en_flushed := en_flushed e + 1\<rparr>) }"

definition engine_edit_text :: "('s, 'd, 'v, 'f) engine_env \<Rightarrow> ustr \<Rightarrow> nat \<Rightarrow> ustr \<Rightarrow> ('s, 'd, 'v, (storage_error, unit) res) act" where
  "engine_edit_text E i pos s = then_tell (edit_text (ee_vault_env E) i pos s) (\<lambda>_. flush_local E)"

section \<open>Blobs\<close>

definition file_entries :: "('s, 'd, 'v, 'f) engine_env \<Rightarrow> ('s, 'd, 'v) store \<Rightarrow> file_entry list" where
  "file_entries E st =
     List.map_filter (\<lambda>(k, v). ee_parse_entry E v) (doc_entries (ve_loro (ee_vault_env E)) FILESET_MAP_ID (st_doc st))"

definition blobs_of :: "('s, 'd, 'v, 'f) engine_env \<Rightarrow> ('s, 'd, 'v) store \<Rightarrow> 's blob_store" where
  "blobs_of E st = store_blobs (ee_vault_env E) st"

fun first_seen :: "ustr list \<Rightarrow> ustr list \<Rightarrow> ustr list" where
  "first_seen seen [] = []"
| "first_seen seen (h # hs) = (if h \<in> set seen then first_seen seen hs else h # first_seen (h # seen) hs)"

definition missing_blob_hashes :: "('s, 'd, 'v, 'f) engine_env \<Rightarrow> ('s, 'd, 'v) store \<Rightarrow> ustr list" where
  "missing_blob_hashes E st =
     first_seen [] (filter (\<lambda>h. \<not> blob_has (blobs_of E st) h (st_disk st))
       (map fe_content_hash (filter live_blob (file_entries E st))))"

definition fileset_wants :: "('s, 'd, 'v, 'f) engine_env \<Rightarrow> ustr \<Rightarrow> ('s, 'd, 'v) store \<Rightarrow> bool" where
  "fileset_wants E h st \<longleftrightarrow> (\<exists>e \<in> set (file_entries E st). live_blob e \<and> fe_content_hash e = h)"

definition request_missing_blobs :: "('s, 'd, 'v, 'f) engine_env \<Rightarrow> ('s, 'd, 'v, unit) act" where
  "request_missing_blobs E =
     do { wanted \<leftarrow> view (\<lambda>e. missing_blob_hashes E (en_store e));
          active \<leftarrow> view (\<lambda>e. map pr_peer_id (other_active E (en_store e)));
          if wanted = [] then skip
          else do { peers \<leftarrow> view (\<lambda>e. filter (\<lambda>p. p \<in> set active) (ve_order (ee_vault_env E) (en_connected e)));
                    each (\<lambda>p. each (\<lambda>h. send p (BlobWant h)) wanted) peers } }"

text \<open>
  Serving a blob chunk by chunk. The first argument bounds the number of reads; every read that goes on
  returns at least one byte, so the length of the blob is enough.
\<close>

fun serve_chunks :: "('s, 'd, 'v, 'f) engine_env \<Rightarrow> nat \<Rightarrow> peer \<Rightarrow> ustr \<Rightarrow> u64 \<Rightarrow> u64 \<Rightarrow> ('s, 'd, 'v, unit) act" where
  "serve_chunks E 0 p h total_len offset = skip"
| "serve_chunks E (Suc n) p h total_len offset =
     (if offset < total_len then
        do { r \<leftarrow> on_store (\<lambda>st. on_disk (blob_read_range (blobs_of E st) h offset (unat (min BLOB_CHUNK_SIZE (total_len - offset)))) st);
             (case r of
                Inr chunk \<Rightarrow>
                  if chunk = [] then skip
                  else do { send p (BlobChunk h offset total_len chunk);
                            serve_chunks E n p h total_len (offset + of_nat (length chunk)) }
              | Inl _ \<Rightarrow> skip) }
      else skip)"

definition serve_blob :: "('s, 'd, 'v, 'f) engine_env \<Rightarrow> peer \<Rightarrow> ustr \<Rightarrow> ('s, 'd, 'v, unit) act" where
  "serve_blob E p h =
     do { r \<leftarrow> on_store (\<lambda>st. on_disk (blob_size (blobs_of E st) h) st);
          (case r of
             Inr (Some n) \<Rightarrow>
               let total_len = of_nat n :: u64 in
               if total_len = 0 then send p (BlobChunk h 0 0 []) else serve_chunks E (unat total_len) p h total_len 0
           | _ \<Rightarrow> skip) }"

definition wants_bytes :: "('s, 'd, 'v, 'f) engine_env \<Rightarrow> ustr \<Rightarrow> ('s, 'd, 'v, bool) act" where
  "wants_bytes E h = view (\<lambda>e. \<not> blob_has (blobs_of E (en_store e)) h (st_disk (en_store e)) \<and> fileset_wants E h (en_store e))"

definition take_blob_data :: "('s, 'd, 'v, 'f) engine_env \<Rightarrow> ustr \<Rightarrow> bytes \<Rightarrow> ('s, 'd, 'v, unit) act" where
  "take_blob_data E h b =
     (if ee_blob_hash E b \<noteq> h then skip
      else do { accept \<leftarrow> wants_bytes E h;
                if \<not> accept then skip
                else do { r \<leftarrow> on_store (\<lambda>st. on_disk (blob_put (ee_blob_hash E) (blobs_of E st) b) st);
                          (case r of Inr _ \<Rightarrow> notify_changed | Inl _ \<Rightarrow> skip) } })"

text \<open>Counting the distinct offsets received for a blob.\<close>

definition count_chunk :: "u64 \<Rightarrow> u64 \<Rightarrow> nat \<Rightarrow> incoming_blob option \<Rightarrow> incoming_blob" where
  "count_chunk total_len offset len entry =
     (let ib = (case entry of Some ib \<Rightarrow> ib | None \<Rightarrow> \<lparr>ib_total_len = total_len, ib_received = 0, ib_seen = []\<rparr>) in
      if ib_total_len ib = total_len \<and> offset \<notin> set (ib_seen ib)
      then ib\<lparr>ib_seen := offset # ib_seen ib, ib_received := ib_received ib + of_nat len\<rparr> else ib)"

definition finish_blob :: "('s, 'd, 'v, 'f) engine_env \<Rightarrow> ustr \<Rightarrow> ('s, 'd, 'v, unit) act" where
  "finish_blob E h =
     do { change (\<lambda>e. e\<lparr>en_incoming := bt_remove h (en_incoming e)\<rparr>);
          held \<leftarrow> view (\<lambda>e. blob_has (blobs_of E (en_store e)) h (st_disk (en_store e)));
          if held then do { on_store (\<lambda>st. on_disk (discard_incoming (blobs_of E st) h) st); skip }
          else do { r \<leftarrow> on_store (\<lambda>st. on_disk (finalize_incoming (ee_blob_hash E) (blobs_of E st) h) st);
                    if or_default False r then notify_changed else skip } }"

definition take_blob_chunk :: "('s, 'd, 'v, 'f) engine_env \<Rightarrow> ustr \<Rightarrow> u64 \<Rightarrow> u64 \<Rightarrow> bytes \<Rightarrow> ('s, 'd, 'v, unit) act" where
  "take_blob_chunk E h offset total_len b =
     (if total_len > MAX_INCOMING_BLOB_BYTES then skip
      else if \<not> chunk_is_admissible offset total_len (length b) then skip
      else do { accept \<leftarrow> wants_bytes E h;
                if \<not> accept then skip
                else do { r \<leftarrow> on_store (\<lambda>st. on_disk (write_incoming_chunk (blobs_of E st) h offset total_len b) st);
                          (case r of
                             Inl _ \<Rightarrow> skip
                           | Inr _ \<Rightarrow>
                               do { ib \<leftarrow> view (\<lambda>e. count_chunk total_len offset (length b) (bt_get (en_incoming e) h));
                                    change (\<lambda>e. e\<lparr>en_incoming := bt_insert h ib (en_incoming e)\<rparr>);
                                    if ib_received ib \<ge> ib_total_len ib then finish_blob E h else skip }) } })"

section \<open>Vault administration\<close>

definition broadcast_own_roster :: "('s, 'd, 'v, 'f) engine_env \<Rightarrow> ('s, 'd, 'v, unit) act" where
  "broadcast_own_roster E =
     do { r \<leftarrow> on_store (export_own_roster (ee_vault_env E));
          peers \<leftarrow> view (\<lambda>e. ve_order (ee_vault_env E) (en_connected e));
          each (\<lambda>p. send p (RosterOps (ee_peer_id E) (or_default [] r))) peers }"

definition broadcast_own_keylog :: "('s, 'd, 'v, 'f) engine_env \<Rightarrow> ('s, 'd, 'v, unit) act" where
  "broadcast_own_keylog E =
     do { r \<leftarrow> on_store (export_own_keylog (ee_vault_env E));
          peers \<leftarrow> view (\<lambda>e. ve_order (ee_vault_env E) (en_connected e));
          each (\<lambda>p. send p (KeylogOps (ee_peer_id E) (or_default [] r))) peers }"

definition engine_add_peer :: "('s, 'd, 'v, 'f) engine_env \<Rightarrow> peer \<Rightarrow> bytes \<Rightarrow> role \<Rightarrow> ('s, 'd, 'v, (storage_error, unit) res) act" where
  "engine_add_peer E p key role =
     then_tell (add_peer (ee_vault_env E) p key role) (\<lambda>_. do { emit (AddRoute p key); broadcast_own_roster E })"

definition engine_revoke_peer :: "('s, 'd, 'v, 'f) engine_env \<Rightarrow> peer \<Rightarrow> bytes \<Rightarrow> ('s, 'd, 'v, (storage_error, unit) res) act" where
  "engine_revoke_peer E p key =
     then_tell (revoke_peer (ee_vault_env E) p key) (\<lambda>_.
       do { emit (RemoveRoute p);
            change (\<lambda>e. e\<lparr>en_connected := filter (\<lambda>q. q \<noteq> p) (en_connected e)\<rparr>);
            change (\<lambda>e. e\<lparr>en_sent_offsets := bt_remove p (en_sent_offsets e)\<rparr>);
            change (\<lambda>e. e\<lparr>en_acked_versions := bt_remove p (en_acked_versions e)\<rparr>);
            broadcast_own_roster E })"

definition engine_set_role :: "('s, 'd, 'v, 'f) engine_env \<Rightarrow> peer \<Rightarrow> bytes \<Rightarrow> role \<Rightarrow> ('s, 'd, 'v, (storage_error, unit) res) act" where
  "engine_set_role E p key role = then_tell (set_role (ee_vault_env E) p key role) (\<lambda>_. broadcast_own_roster E)"

definition engine_set_device_name :: "('s, 'd, 'v, 'f) engine_env \<Rightarrow> ustr \<Rightarrow> ('s, 'd, 'v, (storage_error, unit) res) act" where
  "engine_set_device_name E name = then_tell (set_device_name (ee_vault_env E) name) (\<lambda>_. broadcast_own_roster E)"

text \<open>The fresh key, nonce and wrap randomness of a rotation are arguments.\<close>

definition engine_rotate_epoch :: "('s, 'd, 'v, 'f) engine_env \<Rightarrow> bytes \<Rightarrow> bytes \<Rightarrow> (nat \<Rightarrow> bytes \<times> bytes) \<Rightarrow> bytes option
    \<Rightarrow> ('s, 'd, 'v, (storage_error, bytes) res) act" where
  "engine_rotate_epoch E nonce new_key rnd paper =
     (case vault_subkeys (ve_crypto (ee_vault_env E)) (ee_vault_key E) of (id_key, epoch0_key) \<Rightarrow>
        then_tell (rotate_epoch (ee_vault_env E) nonce new_key rnd id_key epoch0_key paper) (\<lambda>_. broadcast_own_keylog E))"

definition engine_recover_with_paper :: "('s, 'd, 'v, 'f) engine_env \<Rightarrow> (nat \<Rightarrow> bytes \<times> bytes) \<Rightarrow> ustr
    \<Rightarrow> ('s, 'd, 'v, (storage_error, nat) res) act" where
  "engine_recover_with_paper E rnd phrase =
     (case vault_subkeys (ve_crypto (ee_vault_env E)) (ee_vault_key E) of (id_key, epoch0_key) \<Rightarrow>
        then_tell (recover_with_paper (ee_vault_env E) rnd phrase id_key epoch0_key)
          (\<lambda>n. if n > 0 then broadcast_own_keylog E else skip))"

definition engine_backfill_wraps :: "('s, 'd, 'v, 'f) engine_env \<Rightarrow> (nat \<Rightarrow> bytes \<times> bytes)
    \<Rightarrow> ('s, 'd, 'v, (storage_error, nat) res) act" where
  "engine_backfill_wraps E rnd =
     (case vault_subkeys (ve_crypto (ee_vault_env E)) (ee_vault_key E) of (id_key, epoch0_key) \<Rightarrow>
        then_tell (backfill_wraps (ee_vault_env E) rnd id_key epoch0_key)
          (\<lambda>n. if n > 0 then broadcast_own_keylog E else skip))"

definition engine_vault_state :: "('s, 'd, 'v, 'f) engine_env \<Rightarrow> ('s, 'd, 'v, (storage_error, vault_issue list) res) act" where
  "engine_vault_state E =
     (case vault_subkeys (ve_crypto (ee_vault_env E)) (ee_vault_key E) of (id_key, epoch0_key) \<Rightarrow>
        on_store (vault_state (ee_vault_env E) id_key epoch0_key))"

section \<open>Handling a frame\<close>

text \<open>The read-side gate: the body runs only for a peer that is active now.\<close>

definition when_active :: "peer \<Rightarrow> ('s, 'd, 'v, unit) act \<Rightarrow> ('s, 'd, 'v, unit) act" where
  "when_active p body = do { ok \<leftarrow> is_active p; if ok then body else skip }"

definition handle_hello :: "('s, 'd, 'v, 'f) engine_env \<Rightarrow> peer \<Rightarrow> bytes \<Rightarrow> ('s, 'd, 'v, unit) act" where
  "handle_hello E p vault =
     (if vault \<noteq> ee_vault E then skip
      else when_active p (do {
        ensure_offset p;
        known \<leftarrow> view (\<lambda>e. p \<in> set (en_connected e));
        change (\<lambda>e. e\<lparr>en_connected := bs_insert p (en_connected e)\<rparr>);
        if known then skip else send_bundle E p }))"

definition ack_version :: "('d, 'v, 'f) loro \<Rightarrow> peer \<Rightarrow> 'v \<Rightarrow> bytes \<Rightarrow> (peer, bytes) btree \<Rightarrow> (peer, bytes) btree" where
  "ack_version L p incoming doc_version acked =
     (let replace = (case bt_get acked p of
                       None \<Rightarrow> True
                     | Some prev \<Rightarrow> (case lo_vv_decode L prev of Some v \<Rightarrow> lo_includes_vv L incoming v | None \<Rightarrow> True)) in
      if replace then bt_insert p doc_version acked else acked)"

definition handle_have :: "('s, 'd, 'v, 'f) engine_env \<Rightarrow> peer \<Rightarrow> bytes \<Rightarrow> ('s, 'd, 'v, unit) act" where
  "handle_have E p doc_version =
     (case lo_vv_decode (ve_loro (ee_vault_env E)) doc_version of
        None \<Rightarrow> skip
      | Some incoming \<Rightarrow> when_active p (do {
          change (\<lambda>e. e\<lparr>en_acked_versions := ack_version (ve_loro (ee_vault_env E)) p incoming doc_version (en_acked_versions e)\<rparr>);
          push_logs E p;
          offer_snapshots E p incoming }))"

definition handle_ops :: "('s, 'd, 'v, 'f) engine_env \<Rightarrow> peer \<Rightarrow> bytes \<Rightarrow> ('s, 'd, 'v, unit) act" where
  "handle_ops E author jsonl =
     (if author = ee_peer_id E then skip
      else do { key \<leftarrow> key_for E author;
                (case key of
                   None \<Rightarrow> skip
                 | Some k \<Rightarrow>
                     do { before \<leftarrow> view (\<lambda>e. doc_version_bytes (ee_vault_env E) (en_store e));
                          r \<leftarrow> on_store (apply_peer_ops (ee_vault_env E) author k jsonl);
                          after \<leftarrow> view (\<lambda>e. doc_version_bytes (ee_vault_env E) (en_store e));
                          (case r of Inr _ \<Rightarrow> if after \<noteq> before then notify_changed else skip | Inl _ \<Rightarrow> skip) }) })"

text \<open>Active peers of the roster without a session, and the attempt to open one with each.\<close>

definition new_peers :: "('s, 'd, 'v, 'f) engine_env \<Rightarrow> ('s, 'd, 'v) store \<Rightarrow> peer list \<Rightarrow> (peer \<times> bytes) list" where
  "new_peers E st connected =
     map (\<lambda>r. (pr_peer_id r, pr_verifying_key r)) (filter (\<lambda>r. pr_peer_id r \<notin> set connected) (other_active E st))"

definition meet :: "('s, 'd, 'v, 'f) engine_env \<Rightarrow> (peer \<times> bytes) list \<Rightarrow> ('s, 'd, 'v, unit) act" where
  "meet E peers = each (\<lambda>(q, k). do { emit (AddRoute q k); connect E q; skip }) peers"

definition handle_roster_ops :: "('s, 'd, 'v, 'f) engine_env \<Rightarrow> peer \<Rightarrow> bytes \<Rightarrow> ('s, 'd, 'v, unit) act" where
  "handle_roster_ops E author jsonl =
     (if author = ee_peer_id E then skip
      else do { key \<leftarrow> key_for E author;
                (case key of
                   None \<Rightarrow> skip
                 | Some k \<Rightarrow>
                     do { r \<leftarrow> on_store (import_roster (ee_vault_env E) author k jsonl);
                          peers \<leftarrow> view (\<lambda>e. case r of Inl _ \<Rightarrow> [] | Inr _ \<Rightarrow> new_peers E (en_store e) (en_connected e));
                          meet E peers }) })"

definition handle_roster_have :: "('s, 'd, 'v, 'f) engine_env \<Rightarrow> peer \<Rightarrow> ('s, 'd, 'v, unit) act" where
  "handle_roster_have E p = when_active p (do {
     r \<leftarrow> on_store (export_own_roster (ee_vault_env E));
     send p (RosterOps (ee_peer_id E) (or_default [] r)) })"

definition handle_keylog_ops :: "('s, 'd, 'v, 'f) engine_env \<Rightarrow> peer \<Rightarrow> bytes \<Rightarrow> ('s, 'd, 'v, unit) act" where
  "handle_keylog_ops E author jsonl =
     (if author = ee_peer_id E then skip
      else do { key \<leftarrow> key_for E author;
                (case key of
                   None \<Rightarrow> skip
                 | Some k \<Rightarrow> do { on_store (import_keylog (ee_vault_env E) author k jsonl); skip }) })"

definition handle_keylog_have :: "('s, 'd, 'v, 'f) engine_env \<Rightarrow> peer \<Rightarrow> ('s, 'd, 'v, unit) act" where
  "handle_keylog_have E p = when_active p (do {
     own \<leftarrow> on_store (export_own_keylog (ee_vault_env E));
     keylogs \<leftarrow> held_keylogs E;
     send p (KeylogOps (ee_peer_id E) (or_default [] own));
     each (\<lambda>(author, jsonl). send p (KeylogOps author jsonl)) keylogs })"

definition handle_snapshot_have :: "('s, 'd, 'v, 'f) engine_env \<Rightarrow> peer \<Rightarrow> ustr list \<Rightarrow> ('s, 'd, 'v, unit) act" where
  "handle_snapshot_have E p ids = when_active p (do {
     held \<leftarrow> held_ids E;
     each (\<lambda>i. if i \<in> set held then skip else send p (SnapshotWant i)) ids })"

definition handle_snapshot_want :: "('s, 'd, 'v, 'f) engine_env \<Rightarrow> peer \<Rightarrow> ustr \<Rightarrow> ('s, 'd, 'v, unit) act" where
  "handle_snapshot_want E p i = when_active p (do {
     r \<leftarrow> on_store (\<lambda>st. on_disk (load_snapshot_object (ve_fs (ee_vault_env E)) (st_root st) i) st);
     (case r of Inr (Some framed) \<Rightarrow> send p (SnapshotData framed) | _ \<Rightarrow> skip) })"

definition handle_snapshot_data :: "('s, 'd, 'v, 'f) engine_env \<Rightarrow> peer \<Rightarrow> bytes \<Rightarrow> ('s, 'd, 'v, unit) act" where
  "handle_snapshot_data E p framed = when_active p (
     let V = ee_vault_env E; i = ee_blob_hash E framed in
     (case vault_subkeys (ve_crypto V) (ee_vault_key E) of (id_key, epoch0_key) \<Rightarrow>
        do { kc \<leftarrow> on_store (store_keychain V id_key epoch0_key);
             (case kc of
                Inl _ \<Rightarrow> skip
              | Inr kc \<Rightarrow>
                  do { author_keys \<leftarrow> view (\<lambda>e. admin_author_keys V (en_store e));
                       before \<leftarrow> view (\<lambda>e. doc_version_bytes V (en_store e));
                       r \<leftarrow> on_store (verify_and_adopt_snapshot V (ee_hist E) (ee_snap E) kc author_keys i framed);
                       after \<leftarrow> view (\<lambda>e. doc_version_bytes V (en_store e));
                       (case r of Inr (Adopted _ _) \<Rightarrow> if after \<noteq> before then notify_changed else skip | _ \<Rightarrow> skip) }) }))"

fun handle :: "('s, 'd, 'v, 'f) engine_env \<Rightarrow> peer \<Rightarrow> wire_frame \<Rightarrow> ('s, 'd, 'v, unit) act" where
  "handle E p (Hello vault) = handle_hello E p vault"
| "handle E p (Have doc_version) = handle_have E p doc_version"
| "handle E p (Ops author jsonl) = handle_ops E author jsonl"
| "handle E p (RosterOps author jsonl) = handle_roster_ops E author jsonl"
| "handle E p (RosterHave authors) = handle_roster_have E p"
| "handle E p (KeylogOps author jsonl) = handle_keylog_ops E author jsonl"
| "handle E p (KeylogHave authors) = handle_keylog_have E p"
| "handle E p (BlobWant h) = when_active p (serve_blob E p h)"
| "handle E p (BlobData h b) = take_blob_data E h b"
| "handle E p (BlobChunk h offset total_len b) = take_blob_chunk E h offset total_len b"
| "handle E p (SnapshotHave ids) = handle_snapshot_have E p ids"
| "handle E p (SnapshotWant i) = handle_snapshot_want E p i"
| "handle E p (SnapshotData framed) = handle_snapshot_data E p framed"
| "handle E p Ping = skip"

text \<open>The receive loop over the frames the transport delivers before it closes.\<close>

definition run :: "('s, 'd, 'v, 'f) engine_env \<Rightarrow> (peer \<times> wire_frame) list \<Rightarrow> ('s, 'd, 'v, unit) act" where
  "run E incoming = each (\<lambda>(p, f). handle E p f) incoming"

definition engine_new :: "('s, 'd, 'v) store \<Rightarrow> ('s, 'd, 'v) engine" where
  "engine_new st = \<lparr>en_store = st, en_sent_offsets = [], en_acked_versions = [], en_connected = [], en_incoming = [],
     en_out = [], en_changed = 0, en_flushed = 0\<rparr>"

end
