(* ===== verification/Engine_Gate.thy ===== *)
theory Engine_Gate
  imports Engine
begin

text \<open>
  What the engine says to whom. Handlers are combined from small actions, so a property that every
  action has and that composes is proved once, in the locale \<open>frame_rule\<close>; it is used for the actions
  that only send to given peers and leave the session tables alone, and for the tables that only grow.
\<close>

section \<open>Running actions\<close>

definition exec :: "('s, 'd, 'v, 'a) act \<Rightarrow> ('s, 'd, 'v) engine \<Rightarrow> ('s, 'd, 'v) engine" where
  "exec m e = snd (run_state m e)"

definition val :: "('s, 'd, 'v, 'a) act \<Rightarrow> ('s, 'd, 'v) engine \<Rightarrow> 'a" where
  "val m e = fst (run_state m e)"

lemma exec_simps [simp]:
  "exec skip e = e" "exec (State_Monad.return a) e = e" "exec (view f) e = e" "exec (change g) e = g e"
  "exec (State_Monad.bind m k) e = exec (k (val m e)) (exec m e)"
  "exec (emit ev) e = e\<lparr>en_out := en_out e @ [ev]\<rparr>"
  by (simp_all add: exec_def val_def skip_def view_def change_def emit_def State_Monad.return_def State_Monad.bind_def case_prod_beta)

lemma val_simps [simp]:
  "val (State_Monad.return a) e = a" "val (view f) e = f e" "val (is_active p) e = active_in (en_store e) p"
  "val (State_Monad.bind m k) e = val (k (val m e)) (exec m e)"
  by (simp_all add: exec_def val_def view_def is_active_def State_Monad.return_def State_Monad.bind_def case_prod_beta)

lemma exec_if [simp]: "exec (if b then m else n) e = (if b then exec m e else exec n e)"
  by simp

lemma exec_gets [simp]: "exec (is_active p) e = e" "exec (key_for E p) e = e"
  by (simp_all add: is_active_def key_for_def)

lemma exec_on_store [simp]: "exec (on_store m) e = e\<lparr>en_store := snd (m (en_store e))\<rparr>"
  by (simp add: exec_def on_store_def case_prod_beta)

lemma val_on_store [simp]: "val (on_store m) e = fst (m (en_store e))"
  by (simp add: val_def on_store_def case_prod_beta)

lemma exec_when_active [simp]: "exec (when_active p m) e = (if active_in (en_store e) p then exec m e else e)"
  by (simp add: when_active_def)

lemma exec_run: "exec (run E []) e = e" "exec (run E ((p, f) # fs)) e = exec (run E fs) (exec (handle E p f) e)"
  by (simp_all add: run_def)

section \<open>Relations that compose\<close>

definition upholds :: "(('s, 'd, 'v) engine \<Rightarrow> ('s, 'd, 'v) engine \<Rightarrow> bool) \<Rightarrow> ('s, 'd, 'v, 'a) act \<Rightarrow> bool" where
  "upholds R m \<longleftrightarrow> (\<forall>e. R e (exec m e))"

lemma upholdsD: "upholds R m \<Longrightarrow> R e (exec m e)"
  by (simp add: upholds_def)

locale frame_rule =
  fixes R :: "('s, 'd, 'v) engine \<Rightarrow> ('s, 'd, 'v) engine \<Rightarrow> bool"
  assumes refl: "R e e"
    and trans: "R a b \<Longrightarrow> R b c \<Longrightarrow> R a c"
begin

lemma idle: "upholds R skip" "upholds R (State_Monad.return a)" "upholds R (view f)" "upholds R (is_active p)" "upholds R (key_for E p)"
  by (simp_all add: upholds_def refl)

lemma bind: "upholds R m \<Longrightarrow> (\<And>x. upholds R (k x)) \<Longrightarrow> upholds R (State_Monad.bind m k)"
  by (simp add: upholds_def) (blast intro: trans)

lemma cond: "(b \<Longrightarrow> upholds R m) \<Longrightarrow> (\<not> b \<Longrightarrow> upholds R n) \<Longrightarrow> upholds R (if b then m else n)"
  by simp

lemma cases_sum: "(\<And>e. r = Inl e \<Longrightarrow> upholds R (f e)) \<Longrightarrow> (\<And>a. r = Inr a \<Longrightarrow> upholds R (g a))
    \<Longrightarrow> upholds R (case r of Inl e \<Rightarrow> f e | Inr a \<Rightarrow> g a)"
  by (cases r) simp_all

lemma cases_option: "upholds R m \<Longrightarrow> (\<And>a. r = Some a \<Longrightarrow> upholds R (g a)) \<Longrightarrow> upholds R (case r of None \<Rightarrow> m | Some a \<Rightarrow> g a)"
  by (cases r) simp_all

lemma each: "(\<And>x. x \<in> set xs \<Longrightarrow> upholds R (f x)) \<Longrightarrow> upholds R (each f xs)"
  by (induction xs) (auto intro: idle bind)

lemma when_active: "upholds R m \<Longrightarrow> upholds R (when_active p m)"
  by (simp add: upholds_def refl)

lemma run: "(\<And>p f. upholds R (handle E p f)) \<Longrightarrow> upholds R (run E fs)"
  by (auto simp: run_def intro: each)

lemmas rules = idle bind cond cases_sum cases_option each when_active

end

section \<open>Store calls keep the roster\<close>

definition same_peers :: "(('s, 'd, 'v) store, storage_error, 'a) op \<Rightarrow> bool" where
  "same_peers m \<longleftrightarrow> (\<forall>st. st_peers (snd (m st)) = st_peers st)"

lemma same_peersI: "(\<And>st. st_peers (snd (m st)) = st_peers st) \<Longrightarrow> same_peers m"
  by (simp add: same_peers_def)

lemma peers_disk [simp]: "st_peers (snd (on_disk m st)) = st_peers st" "st_peers (snd (on_doc n st)) = st_peers st"
  "st_peers (snd (liftE r st)) = st_peers st" "st_peers (snd (returnE a st)) = st_peers st"
  by (simp_all add: on_disk_def on_doc_def case_prod_beta)

lemma peers_bindE:
  "st_peers (snd (m st)) = ps \<Longrightarrow> (\<And>a st. st_peers st = ps \<Longrightarrow> st_peers (snd (f a st)) = ps)
   \<Longrightarrow> st_peers (snd (bindE m f st)) = ps"
  by (simp add: bindE_def case_prod_beta split: sum.split)

lemma same_peers_exports:
  "same_peers (export_peer_log V p)" "same_peers (export_own_log V)" "same_peers (export_own_roster V)"
  "same_peers (export_keylog V p)" "same_peers (export_own_keylog V)"
  by (auto intro!: same_peersI simp: export_peer_log_def export_own_log_def export_own_roster_def export_keylog_def export_own_keylog_def)

lemma same_peers_disk: "same_peers (\<lambda>st. on_disk (f st) st)"
  by (simp add: same_peers_def)

lemma same_peers_merge: "same_peers (merge_entries V es)"
proof -
  have "st_peers (snd (eachE (\<lambda>e. on_doc (doc_import (ve_loro V) (oe_update e))) es st)) = st_peers st" for st
    by (induction es arbitrary: st) (auto intro: peers_bindE)
  then show ?thesis by (auto intro!: same_peersI peers_bindE simp: merge_entries_def Let_def)
qed

lemma same_peers_ops: "same_peers (apply_peer_ops V author k b)"
  using same_peers_merge [of V] same_peers_exports(1) [of V author]
  by (auto intro!: same_peersI peers_bindE simp: apply_peer_ops_def import_peer_def Let_def same_peers_def)

lemma same_peers_keylog: "same_peers (import_keylog V author k b)"
  by (auto intro!: same_peersI peers_bindE simp: import_keylog_def Let_def)

lemma same_peers_keychain: "same_peers (store_keychain V id_key k0)"
  by (auto intro!: same_peersI peers_bindE simp: store_keychain_def merged_keylog_def)

lemma same_peers_adopt: "same_peers (verify_and_adopt_snapshot V C S kc keys i framed)"
proof -
  have "same_peers (adopt_snapshot V b)" for b
    by (auto intro!: same_peersI peers_bindE simp: adopt_snapshot_def)
  then show ?thesis
    by (auto intro!: same_peersI peers_bindE simp: verify_and_adopt_snapshot_def adopt_and_hold_def same_peers_def
        split: option.split)
qed

lemmas same_peers = same_peers_exports same_peers_disk same_peers_ops same_peers_keylog same_peers_keychain same_peers_adopt

section \<open>Actions that leave the session tables alone\<close>

text \<open>Only frames other than \<open>Hello\<close>, only to peers of \<open>Q\<close>; the roster and the session tables stay.\<close>

fun to_peer :: "peer set \<Rightarrow> net_event \<Rightarrow> bool" where
  "to_peer Q (Send q (Hello _)) = False"
| "to_peer Q (Send q _) = (q \<in> Q)"
| "to_peer Q _ = False"

lemma to_peer_Send: "to_peer Q (Send q g) \<Longrightarrow> q \<in> Q"
  by (cases g) auto

lemma to_peers_Send: "list_all (to_peer Q) new \<Longrightarrow> Send q g \<in> set new \<Longrightarrow> q \<in> Q"
  by (induction new) (auto dest: to_peer_Send)

lemma to_no_peer: "\<not> to_peer {} ev"
  using to_peer_Send [of "{}"] by (cases ev) auto

definition calm :: "peer set \<Rightarrow> ('s, 'd, 'v) engine \<Rightarrow> ('s, 'd, 'v) engine \<Rightarrow> bool" where
  "calm Q e e' \<longleftrightarrow> st_peers (en_store e') = st_peers (en_store e) \<and> en_connected e' = en_connected e
     \<and> en_acked_versions e' = en_acked_versions e \<and> en_sent_offsets e' = en_sent_offsets e
     \<and> (\<exists>new. en_out e' = en_out e @ new \<and> list_all (to_peer Q) new)"

interpretation calm: frame_rule "calm Q" for Q
  by unfold_locales (force simp: calm_def)+

lemma calm_on_store: "same_peers m \<Longrightarrow> upholds (calm Q) (on_store m)"
  by (simp add: upholds_def calm_def same_peers_def)

lemma calm_send: "to_peer Q (Send p f) \<Longrightarrow> upholds (calm Q) (send p f)"
  by (simp add: upholds_def calm_def send_def)

lemma calm_notify: "upholds (calm Q) notify_changed"
  by (simp add: upholds_def calm_def notify_changed_def)

lemma calm_incoming: "upholds (calm Q) (change (\<lambda>e. e\<lparr>en_incoming := f e\<rparr>))"
  by (simp add: upholds_def calm_def)

lemma calm_mono: "upholds (calm Q) m \<Longrightarrow> Q \<subseteq> Q' \<Longrightarrow> upholds (calm Q') m"
proof -
  have "to_peer Q ev \<Longrightarrow> Q \<subseteq> Q' \<Longrightarrow> to_peer Q' ev" for ev
    by (cases "(Q, ev)" rule: to_peer.cases) auto
  then show "upholds (calm Q) m \<Longrightarrow> Q \<subseteq> Q' \<Longrightarrow> upholds (calm Q') m"
    by (fastforce simp: upholds_def calm_def list_all_iff)
qed

lemmas calm_rules = calm.rules calm_on_store calm_send calm_notify calm_incoming same_peers

lemma calm_held: "upholds (calm Q) (held_peer_logs E)" "upholds (calm Q) (held_keylogs E)" "upholds (calm Q) (held_ids E)"
proof -
  have "upholds (calm Q) (held_logs ex ps)" if "\<And>p. same_peers (ex p)" for ex ps
    by (induction ps) (auto intro!: calm_rules that)
  then show "upholds (calm Q) (held_peer_logs E)" "upholds (calm Q) (held_keylogs E)" "upholds (calm Q) (held_ids E)"
    by (auto simp: held_peer_logs_def held_keylogs_def held_ids_def intro!: calm_rules)
qed

lemma calm_gather: "upholds (calm Q) (gather_offer E)"
  unfolding gather_offer_def by (intro calm_rules calm_held)

lemma calm_push: "p \<in> Q \<Longrightarrow> upholds (calm Q) (push_logs E p)"
  unfolding push_logs_def by (auto intro!: calm_rules calm_held)

lemma calm_offer: "p \<in> Q \<Longrightarrow> upholds (calm Q) (offer_snapshots E p v)"
  unfolding offer_snapshots_def Let_def by (auto intro!: calm_rules calm_held)

lemma calm_serve: "upholds (calm {p}) (serve_blob E p h)"
proof -
  have "upholds (calm {p}) (serve_chunks E n p h t off)" for n t off
    by (induction n arbitrary: off) (auto intro!: calm_rules)
  then show ?thesis unfolding serve_blob_def Let_def by (auto intro!: calm_rules split: option.split)
qed

lemma calm_blobs: "upholds (calm Q) (take_blob_data E h b)" "upholds (calm Q) (take_blob_chunk E h off t b)"
  unfolding take_blob_data_def take_blob_chunk_def wants_bytes_def finish_blob_def by (auto intro!: calm_rules)

lemma calm_imports: "upholds (calm Q) (handle_ops E a b)" "upholds (calm Q) (handle_keylog_ops E a b)"
  unfolding handle_ops_def handle_keylog_ops_def by (auto intro!: calm_rules)

lemma calm_snapshots: "upholds (calm {p}) (handle_snapshot_have E p ids)" "upholds (calm {p}) (handle_snapshot_want E p i)"
    "upholds (calm Q) (handle_snapshot_data E p b)"
  unfolding handle_snapshot_have_def handle_snapshot_want_def handle_snapshot_data_def Let_def case_prod_beta
  by (auto intro!: calm_rules calm_held split: option.split adopt_outcome.split)

lemma calm_haves: "upholds (calm {p}) (handle_roster_have E p)" "upholds (calm {p}) (handle_keylog_have E p)"
  unfolding handle_roster_have_def handle_keylog_have_def by (auto intro!: calm_rules calm_held)

section \<open>Opening a session\<close>

lemma calm_send_offer: "upholds (calm {p}) (send_offer E p off)"
  unfolding send_offer_def by (auto intro!: calm_rules)

lemma send_bundle_effect:
  "\<exists>n new. let e' = exec (send_bundle E p) e in
     st_peers (en_store e') = st_peers (en_store e) \<and> en_connected e' = bs_insert p (en_connected e)
     \<and> en_acked_versions e' = en_acked_versions e \<and> en_sent_offsets e' = bt_insert p n (en_sent_offsets e)
     \<and> en_out e' = en_out e @ Send p (Hello (ee_vault E)) # new \<and> list_all (to_peer {p}) new"
proof -
  let ?off = "val (gather_offer E) e" and ?e1 = "exec (gather_offer E) e"
  let ?e2 = "?e1\<lparr>en_sent_offsets := bt_insert p (length (of_own_log ?off)) (en_sent_offsets ?e1),
    en_connected := bs_insert p (en_connected ?e1), en_out := en_out ?e1 @ [Send p (Hello (ee_vault E))]\<rparr>"
  have e': "exec (send_bundle E p) e = exec (send_offer E p ?off) ?e2"
    by (simp add: send_bundle_def send_def)
  have "calm {} e ?e1" by (rule upholdsD [OF calm_gather])
  then have "calm {} e ?e1 \<and> en_out ?e1 = en_out e" by (auto simp: calm_def list_all_iff to_no_peer)
  moreover have "calm {p} ?e2 (exec (send_offer E p ?off) ?e2)" by (rule upholdsD [OF calm_send_offer])
  ultimately show ?thesis by (auto simp: e' calm_def)
qed

text \<open>Sends of any kind, but only to peers of \<open>Q\<close>; sessions may open, none is closed.\<close>

definition loud :: "peer set \<Rightarrow> ('s, 'd, 'v) engine \<Rightarrow> ('s, 'd, 'v) engine \<Rightarrow> bool" where
  "loud Q e e' \<longleftrightarrow> st_peers (en_store e') = st_peers (en_store e) \<and> en_acked_versions e' = en_acked_versions e
     \<and> set (bt_keys (en_sent_offsets e)) \<subseteq> set (bt_keys (en_sent_offsets e'))
     \<and> (\<exists>new. en_out e' = en_out e @ new \<and> (\<forall>q g. Send q g \<in> set new \<longrightarrow> q \<in> Q))"

lemma loud_trans: "loud Q a b \<Longrightarrow> loud Q b c \<Longrightarrow> loud Q a c"
  unfolding loud_def by (elim conjE exE) (intro conjI, simp, simp, blast, rule_tac x = "new @ newa" in exI, auto)

interpretation loud: frame_rule "loud Q" for Q
  by unfold_locales (simp add: loud_def, rule loud_trans)

lemma calm_loud_step: "calm Q e e' \<Longrightarrow> loud Q e e'"
  unfolding calm_def loud_def by (auto dest: to_peers_Send)

lemma calm_loud: "upholds (calm Q) m \<Longrightarrow> upholds (loud Q) m"
  by (simp add: upholds_def calm_loud_step)

lemma bt_keys_insert: "set (bt_keys (bt_insert k v m)) = insert k (set (bt_keys m))"
  by (simp add: bt_keys_def bt_insert_def keys_bt_upsert)

lemma loud_bundle: "p \<in> Q \<Longrightarrow> upholds (loud Q) (send_bundle E p)"
  unfolding upholds_def
proof
  fix e :: "('a, 'b, 'c) engine"
  assume "p \<in> Q"
  then show "loud Q e (exec (send_bundle E p) e)"
    using send_bundle_effect [of E p e] by (auto simp: loud_def Let_def bt_keys_insert dest: to_peers_Send)
qed

lemma loud_route: "upholds (loud Q) (emit (AddRoute p k))" "upholds (loud Q) (emit (RemoveRoute p))"
  by (simp_all add: upholds_def loud_def)

lemma loud_connect: "p \<in> Q \<Longrightarrow> upholds (loud Q) (connect E p)"
  unfolding connect_def by (auto intro!: loud.rules loud_bundle)

lemma loud_session: "upholds (loud Q) (ensure_offset p)" "upholds (loud Q) (change (\<lambda>e. e\<lparr>en_connected := f e\<rparr>))"
  by (auto simp: upholds_def loud_def ensure_offset_def bt_keys_def keys_bt_upsert)

section \<open>The handlers that change a session\<close>

lemma handle_hello_loud: "upholds (loud {p}) (handle_hello E p v)"
  unfolding handle_hello_def by (auto intro!: loud.rules loud_session loud_bundle)

lemma handle_have_eq:
  "exec (handle_have E p b) e =
     (case lo_vv_decode (ve_loro (ee_vault_env E)) b of
        Some v \<Rightarrow> if active_in (en_store e) p
          then exec (do { push_logs E p; offer_snapshots E p v })
                 (e\<lparr>en_acked_versions := ack_version (ve_loro (ee_vault_env E)) p v b (en_acked_versions e)\<rparr>)
          else e
      | None \<Rightarrow> e)"
  by (simp add: handle_have_def split: option.split)

lemma calm_have_rest: "calm {p} e (exec (offer_snapshots E p v) (exec (push_logs E p) e))"
  by (rule calm.trans, (rule upholdsD, rule calm_push, simp), (rule upholdsD, rule calm_offer, simp))

text \<open>The peers a roster import makes the engine connect to are all active in the new roster.\<close>

lemma handle_roster_cases:
  obtains (idle) "exec (handle_roster_ops E a b) e = e"
    | (learn) k r st' where "import_roster (ee_vault_env E) a k b (en_store e) = (r, st')"
        "exec (handle_roster_ops E a b) e = (case r of Inl _ \<Rightarrow> e\<lparr>en_store := st'\<rparr>
           | Inr _ \<Rightarrow> exec (meet E (new_peers E st' (en_connected e))) (e\<lparr>en_store := st'\<rparr>))"
proof (cases "a = ee_peer_id E \<or> val (key_for E a) e = None")
  case True
  then show ?thesis using idle by (auto simp: handle_roster_ops_def)
next
  case False
  then obtain k where k: "a \<noteq> ee_peer_id E" "val (key_for E a) e = Some k" by blast
  obtain r st' where imp: "import_roster (ee_vault_env E) a k b (en_store e) = (r, st')" by fastforce
  show ?thesis using k imp by (intro learn [OF imp]) (simp add: handle_roster_ops_def meet_def split: sum.split)
qed

lemma new_peers_active: "(q, k) \<in> set (new_peers E st C) \<Longrightarrow> active_in st q"
  by (auto simp: new_peers_def other_active_def active_in_def)

lemma active_in_peers: "st_peers st' = st_peers st \<Longrightarrow> active_in st' p = active_in st p"
  by (simp add: active_in_def)

lemma loud_meet: "(\<And>q k. (q, k) \<in> set qs \<Longrightarrow> q \<in> Q) \<Longrightarrow> upholds (loud Q) (meet E qs)"
  unfolding meet_def by (auto intro!: loud.rules loud_route loud_connect)

lemma handle_roster_loud: "\<exists>st'. loud {q. active_in st' q} (e\<lparr>en_store := st'\<rparr>) (exec (handle_roster_ops E a b) e)"
proof (cases E a b e rule: handle_roster_cases)
  case idle
  then show ?thesis using loud.refl [of _ e] by (intro exI [of _ "en_store e"]) simp
next
  case (learn k r st')
  have "upholds (loud {q. active_in st' q}) (meet E (new_peers E st' (en_connected e)))"
    by (auto intro!: loud_meet dest: new_peers_active)
  then show ?thesis
    using learn(2) loud.refl [of "{q. active_in st' q}" "e\<lparr>en_store := st'\<rparr>"]
    by (intro exI [of _ st']) (auto dest: upholdsD split: sum.split)
qed

lemmas calm_handlers = calm_blobs calm_imports calm_snapshots calm_serve calm_haves

lemma handle_calm:
  assumes "\<nexists>v. f = Hello v" "\<nexists>v. f = Have v" "\<nexists>a b. f = RosterOps a b"
  shows "calm (if active_in (en_store e) p then {p} else {}) e (exec (handle E p f) e)"
proof (cases "active_in (en_store e) p")
  case True
  with assms show ?thesis by (cases f) (simp_all add: calm.refl calm_handlers [THEN upholdsD])
next
  case False
  with assms show ?thesis
    by (cases f) (simp_all add: calm.refl calm_blobs [THEN upholdsD] calm_imports [THEN upholdsD] calm_snapshots(3) [THEN upholdsD]
        handle_snapshot_have_def handle_snapshot_want_def handle_roster_have_def handle_keylog_have_def)
qed

text \<open>Answers: frames sent to the sender only, and only when it is active.\<close>

definition answers :: "peer \<Rightarrow> ('s, 'd, 'v) engine \<Rightarrow> ('s, 'd, 'v) engine \<Rightarrow> bool" where
  "answers p e e' \<longleftrightarrow> (\<exists>new. en_out e' = en_out e @ new
     \<and> (\<forall>q g. Send q g \<in> set new \<longrightarrow> q = p \<and> active_in (en_store e') p))"

lemma answers_idle: "answers p e e"
  by (simp add: answers_def)

lemma answers_loud: "active_in (en_store e) p \<Longrightarrow> loud {p} (e\<lparr>en_acked_versions := A\<rparr>) e' \<Longrightarrow> answers p e e'"
  by (auto simp: answers_def loud_def active_in_def)

lemma answers_calm: "calm (if active_in (en_store e) p then {p} else {}) e e' \<Longrightarrow> answers p e e'"
proof (cases "active_in (en_store e) p")
  case True
  then show "calm (if active_in (en_store e) p then {p} else {}) e e' \<Longrightarrow> answers p e e'"
    using answers_loud [of e p "en_acked_versions e" e'] by (auto dest: calm_loud_step)
qed (auto simp: calm_def answers_def list_all_iff to_no_peer)

lemma answers_handle:
  assumes "\<nexists>a b. f = RosterOps a b"
  shows "answers p e (exec (handle E p f) e)"
proof -
  consider (hello) v where "f = Hello v" | (version) v where "f = Have v" | (other) "\<nexists>v. f = Hello v" "\<nexists>v. f = Have v" by blast
  then show ?thesis
  proof cases
    case hello
    then show ?thesis
      using answers_idle answers_loud [of e p "en_acked_versions e"] upholdsD [OF handle_hello_loud, of p e E v]
      by (cases "active_in (en_store e) p") (auto simp: handle_hello_def)
  next
    case version
    then show ?thesis
      by (auto simp: handle_have_eq answers_idle split: option.split intro!: answers_loud calm_loud_step calm_have_rest)
  next
    case other
    then show ?thesis using assms by (intro answers_calm handle_calm) auto
  qed
qed

text \<open>
  C32: the read gate. Whatever frame a peer sends, every frame the engine sends while handling it goes
  to a peer that the roster lists as active; unless the frame carries a roster log, it goes to the
  sender itself, so a peer that is not active gets no answer at all.
\<close>

theorem handle_answers_active_peers_only:
  "\<exists>new. en_out (exec (handle E p f) e) = en_out e @ new
     \<and> (\<forall>q g. Send q g \<in> set new \<longrightarrow> active_in (en_store (exec (handle E p f) e)) q \<and> ((\<exists>a b. f = RosterOps a b) \<or> q = p))"
proof (cases "\<exists>a b. f = RosterOps a b")
  case True
  then obtain a b where f: "f = RosterOps a b" by blast
  show ?thesis using handle_roster_loud [of e E a b] by (auto simp: f loud_def active_in_def)
next
  case False
  then show ?thesis using answers_handle [of f p e E] unfolding answers_def by blast
qed

section \<open>One Hello per peer\<close>

fun is_hello :: "peer \<Rightarrow> net_event \<Rightarrow> bool" where
  "is_hello p (Send q (Hello _)) = (q = p)"
| "is_hello p _ = False"

definition hellos :: "peer \<Rightarrow> ('s, 'd, 'v) engine \<Rightarrow> nat" where
  "hellos p e = length (filter (is_hello p) (en_out e))"

lemma to_peer_no_hello: "to_peer Q ev \<Longrightarrow> \<not> is_hello p ev"
  by (cases "(Q, ev)" rule: to_peer.cases) auto

lemma no_hellos: "list_all (to_peer Q) new \<Longrightarrow> filter (is_hello p) new = []"
  by (auto simp: filter_empty_conv list_all_iff dest: to_peer_no_hello)

lemma calm_hellos: "calm Q e e' \<Longrightarrow> hellos p e' = hellos p e \<and> en_connected e' = en_connected e"
  by (auto simp: calm_def hellos_def no_hellos)

lemma bundle_hellos:
  "hellos p (exec (send_bundle E q) e) = hellos p e + (if p = q then 1 else 0)"
  "set (en_connected (exec (send_bundle E q) e)) = insert q (set (en_connected e))"
  using send_bundle_effect [of E q e] by (auto simp: Let_def hellos_def no_hellos set_bs_insert)

text \<open>A peer without a session may be greeted once, which opens the session.\<close>

definition greets :: "peer \<Rightarrow> ('s, 'd, 'v) engine \<Rightarrow> ('s, 'd, 'v) engine \<Rightarrow> bool" where
  "greets p e e' \<longleftrightarrow> set (en_connected e) \<subseteq> set (en_connected e')
     \<and> hellos p e' \<le> hellos p e + (if p \<in> set (en_connected e') - set (en_connected e) then 1 else 0)"

interpretation greets: frame_rule "greets p" for p
  by unfold_locales (auto simp: greets_def split: if_splits)

lemma greets_calm: "calm Q e e' \<Longrightarrow> greets p e e'"
  by (drule calm_hellos [of _ _ _ p]) (simp add: greets_def)

lemma greets_store: "greets p (e\<lparr>en_store := st\<rparr>) e' = greets p e e'" "greets p (e\<lparr>en_acked_versions := A\<rparr>) e' = greets p e e'"
  "greets p e (e\<lparr>en_store := st\<rparr>)"
  by (simp_all add: greets_def hellos_def)

lemma greets_have: "greets p e (exec (offer_snapshots E q v) (exec (push_logs E q) (e\<lparr>en_acked_versions := A\<rparr>)))"
  using greets_calm [OF calm_have_rest, of p "e\<lparr>en_acked_versions := A\<rparr>" E q v] by (simp add: greets_store)

lemma greets_meet:
  assumes "distinct (map fst qs)" "\<forall>q \<in> set qs. fst q \<notin> set (en_connected e)"
  shows "greets p e (exec (meet E qs) e)"
  using assms
proof (induction qs arbitrary: e)
  case Nil
  then show ?case by (simp add: meet_def greets.refl)
next
  case (Cons x qs)
  obtain q k where x: "x = (q, k)" by fastforce
  let ?e1 = "e\<lparr>en_out := en_out e @ [AddRoute q k]\<rparr>"
  let ?e2 = "exec (connect E q) ?e1"
  have h1: "hellos p ?e1 = hellos p e" by (simp add: hellos_def)
  have "greets p e ?e2 \<and> set (en_connected ?e2) \<subseteq> insert q (set (en_connected e))"
    using Cons.prems(2) by (auto simp: connect_def greets_def bundle_hellos h1 x)
  moreover have "greets p ?e2 (exec (meet E qs) ?e2)"
    using Cons.prems calculation by (intro Cons.IH) (auto simp: x)
  moreover have "exec (meet E (x # qs)) e = exec (meet E qs) ?e2" by (simp add: meet_def x)
  ultimately show ?case using greets.trans by metis
qed

lemma refreshed_distinct:
  assumes "import_roster V a k b st = (Inr u, st')"
  shows "distinct (map pr_peer_id (st_peers st'))"
proof -
  have "distinct (map pr_peer_id (merge_roster es f))" for es f using merge_roster_sorted strict_sorted_iff by metis
  then show ?thesis
    using assms by (auto simp: import_roster_def refresh_peers_def rebuild_peers_def write_peers_cache_def Let_def chain_iffs
        split: if_splits)
qed

lemma new_peers_fresh:
  "distinct (map pr_peer_id (st_peers st)) \<Longrightarrow> distinct (map fst (new_peers E st C))"
  "\<forall>q \<in> set (new_peers E st C). fst q \<notin> set C"
  by (auto simp: new_peers_def other_active_def comp_def distinct_map_filter)

lemma greets_handle: "upholds (greets p) (handle E q f)"
  unfolding upholds_def
proof
  fix e :: "('a, 'b, 'c) engine"
  consider (hello) v where "f = Hello v" | (version) v where "f = Have v" | (roster) a b where "f = RosterOps a b"
    | (other) "\<nexists>v. f = Hello v" "\<nexists>v. f = Have v" "\<nexists>a b. f = RosterOps a b" by blast
  then show "greets p e (exec (handle E q f) e)"
  proof cases
    case hello
    then show ?thesis
      by (auto simp: handle_hello_def greets_def bundle_hellos ensure_offset_def set_bs_insert) (simp_all add: hellos_def)
  next
    case version
    then show ?thesis
      by (auto simp: handle_have_eq greets.refl greets_have split: option.split)
  next
    case roster
    show ?thesis
    proof (cases E a b e rule: handle_roster_cases)
      case (learn k r st')
      then show ?thesis
        using roster greets_meet [OF new_peers_fresh(1) [OF refreshed_distinct], of "ee_vault_env E" a k b "en_store e" "()" st'
            E "en_connected e" "e\<lparr>en_store := st'\<rparr>" p] new_peers_fresh(2) [of E st' "en_connected e"]
        by (auto simp: greets_store greets.refl split: sum.split)
    qed (simp add: roster greets.refl)
  next
    case other
    then show ?thesis using greets_calm [OF handle_calm] by blast
  qed
qed

text \<open>
  C33: greetings end. Whatever frames arrive, in whatever order, the engine sends at most one Hello to
  a peer in reply, and none to a peer that already has a session, so two engines never trade Hellos
  forever.
\<close>

theorem hello_answered_once:
  "hellos p (exec (run E fs) e) \<le> hellos p e + (if p \<in> set (en_connected e) then 0 else 1)"
proof -
  have "greets p e (exec (run E fs) e)" by (rule upholdsD [OF greets.run [OF greets_handle]])
  then show ?thesis by (auto simp: greets_def split: if_splits)
qed

section \<open>What a peer has told us\<close>

text \<open>The order of version vectors, as the document library documents it: reflexive and transitive.\<close>

definition includes_laws :: "('d, 'v, 'f) loro \<Rightarrow> bool" where
  "includes_laws L \<longleftrightarrow> (\<forall>v. lo_includes_vv L v v)
     \<and> (\<forall>u v w. lo_includes_vv L u v \<longrightarrow> lo_includes_vv L v w \<longrightarrow> lo_includes_vv L u w)"

definition acked_as :: "('d, 'v, 'f) loro \<Rightarrow> (peer, bytes) btree \<Rightarrow> peer \<Rightarrow> 'v \<Rightarrow> bool" where
  "acked_as L m p v \<longleftrightarrow> (\<exists>b. bt_get m p = Some b \<and> lo_vv_decode L b = Some v)"

definition ack_grows :: "('d, 'v, 'f) loro \<Rightarrow> ('s, 'd, 'v) engine \<Rightarrow> ('s, 'd, 'v) engine \<Rightarrow> bool" where
  "ack_grows L e e' \<longleftrightarrow> (bt_ok (en_acked_versions e) \<longrightarrow> bt_ok (en_acked_versions e')
     \<and> (\<forall>p v. acked_as L (en_acked_versions e) p v \<longrightarrow> (\<exists>w. acked_as L (en_acked_versions e') p w \<and> lo_includes_vv L w v)))"

lemma ack_grows_rule: "includes_laws L \<Longrightarrow> frame_rule (ack_grows L)"
  unfolding includes_laws_def by unfold_locales (auto simp: ack_grows_def, meson)

lemma ack_grows_same: "includes_laws L \<Longrightarrow> en_acked_versions e' = en_acked_versions e \<Longrightarrow> ack_grows L e e'"
  by (auto simp: ack_grows_def includes_laws_def)

lemma ack_version_grows:
  assumes "includes_laws L" "lo_vv_decode L b = Some w"
    "en_acked_versions e' = ack_version L p w b (en_acked_versions e)"
  shows "ack_grows L e e'"
  using assms
  by (auto simp: ack_grows_def ack_version_def acked_as_def includes_laws_def Let_def bt_get_insert bt_ok_insert split: option.splits)

lemma ack_grows_handle:
  fixes E :: "('s, 'd, 'v, 'f) engine_env"
  defines "L \<equiv> ve_loro (ee_vault_env E)"
  assumes laws: "includes_laws L"
  shows "upholds (ack_grows L) (handle E p f)"
  unfolding upholds_def
proof
  fix e :: "('s, 'd, 'v) engine"
  consider (hello) v where "f = Hello v" | (version) v where "f = Have v" | (roster) a b where "f = RosterOps a b"
    | (other) "\<nexists>v. f = Hello v" "\<nexists>v. f = Have v" "\<nexists>a b. f = RosterOps a b" by blast
  then show "ack_grows L e (exec (handle E p f) e)"
  proof cases
    case hello
    then show ?thesis using upholdsD [OF handle_hello_loud, of p e E v] laws by (auto simp: loud_def intro: ack_grows_same)
  next
    case version
    show ?thesis
    proof (cases "lo_vv_decode L v")
      case (Some w)
      have "en_acked_versions (exec (offer_snapshots E p w) (exec (push_logs E p) e')) = en_acked_versions e'" for e'
        using calm_have_rest [of p e' E w] by (simp add: calm_def)
      then have "ack_grows L e (exec (offer_snapshots E p w) (exec (push_logs E p)
          (e\<lparr>en_acked_versions := ack_version L p w v (en_acked_versions e)\<rparr>)))"
        by (intro ack_version_grows [OF laws Some]) simp
      then show ?thesis using version Some laws by (auto simp: handle_have_eq L_def intro: ack_grows_same)
    qed (use version laws in \<open>auto simp: handle_have_eq L_def intro: ack_grows_same\<close>)
  next
    case roster
    then show ?thesis using handle_roster_loud [of e E a b] laws by (auto simp: loud_def intro: ack_grows_same)
  next
    case other
    then show ?thesis using handle_calm [of f e p E] laws by (auto simp: calm_def intro: ack_grows_same)
  qed
qed

text \<open>
  C34: acknowledged versions never go back. Once a peer has said that it holds a version, every later
  record of what it holds includes that version, whatever frames arrive and in whatever order; a stale or
  reordered announcement can not make the peer look further behind, nor another peer change it.
\<close>

theorem acked_versions_monotone:
  assumes "includes_laws (ve_loro (ee_vault_env E))" "bt_ok (en_acked_versions e)"
    and "acked_as (ve_loro (ee_vault_env E)) (en_acked_versions e) p v"
  shows "\<exists>w. acked_as (ve_loro (ee_vault_env E)) (en_acked_versions (exec (run E fs) e)) p w
    \<and> lo_includes_vv (ve_loro (ee_vault_env E)) w v"
proof -
  have "ack_grows (ve_loro (ee_vault_env E)) e (exec (run E fs) e)"
    by (rule upholdsD [OF frame_rule.run [OF ack_grows_rule [OF assms(1)] ack_grows_handle [OF assms(1)]]])
  then show ?thesis using assms(2,3) by (simp add: ack_grows_def)
qed

end
