(* ===== verification/Blob_Exchange.thy ===== *)
theory Blob_Exchange
  imports Engine_Gate
begin

text \<open>
  Blobs between two engines: the frames a device sends for a blob it holds, and what a device that
  wants the blob makes of them, in whatever order they come and however often. The receiver's lemmas are
  proved once for every lawful file system.
\<close>

section \<open>The chunks of a blob\<close>

abbreviation chunk_size :: nat where "chunk_size \<equiv> unat BLOB_CHUNK_SIZE"

lemma chunk_size: "chunk_size = 1048576"
  by (simp add: BLOB_CHUNK_SIZE_def)

definition chunk_at :: "bytes \<Rightarrow> nat \<Rightarrow> bytes" where
  "chunk_at c i = byte_range (i * chunk_size) chunk_size c"

definition chunk_count :: "bytes \<Rightarrow> nat" where
  "chunk_count c = max 1 ((length c + chunk_size - 1) div chunk_size)"

definition chunk_off :: "nat \<Rightarrow> u64" where
  "chunk_off i = of_nat (i * chunk_size)"

definition chunk_frame :: "ustr \<Rightarrow> bytes \<Rightarrow> nat \<Rightarrow> wire_frame" where
  "chunk_frame h c i = BlobChunk h (chunk_off i) (of_nat (length c)) (chunk_at c i)"

lemma chunk_count_iff: "i < chunk_count c \<longleftrightarrow> i = 0 \<or> i * chunk_size < length c"
proof -
  have "i < (length c + chunk_size - 1) div chunk_size \<longleftrightarrow> Suc i * chunk_size \<le> length c + chunk_size - 1"
    using less_eq_div_iff_mult_less_eq [of chunk_size "Suc i" "length c + chunk_size - 1"] by (simp add: chunk_size Suc_le_eq)
  then show ?thesis by (auto simp: chunk_count_def chunk_size)
qed

lemma length_chunk_at: "length (chunk_at c i) = min chunk_size (length c - i * chunk_size)"
  by (simp add: chunk_at_def byte_range_def min.commute)

lemma chunk_at_end: "i * chunk_size + length (chunk_at c i) = min (length c) (Suc i * chunk_size)" if "i * chunk_size \<le> length c"
  using that by (simp add: length_chunk_at)

text \<open>The chunk lengths add up to the blob, so no proper part of the chunks does.\<close>

lemma chunk_lengths: "(\<Sum>i < n. length (chunk_at c i)) = min (length c) (n * chunk_size)"
  by (induction n) (auto simp: length_chunk_at)

lemma chunk_lengths_all: "(\<Sum>i < chunk_count c. length (chunk_at c i)) = length c"
proof -
  have "\<not> chunk_count c < chunk_count c" by simp
  then have "length c \<le> chunk_count c * chunk_size" by (subst (asm) chunk_count_iff) simp
  then show ?thesis by (simp add: chunk_lengths)
qed

lemma chunk_lengths_part:
  assumes "I \<subseteq> {..<chunk_count c}" "c \<noteq> []"
  shows "(\<Sum>i \<in> I. length (chunk_at c i)) \<ge> length c \<longleftrightarrow> I = {..<chunk_count c}"
proof
  assume ge: "(\<Sum>i \<in> I. length (chunk_at c i)) \<ge> length c"
  show "I = {..<chunk_count c}"
  proof (rule ccontr)
    assume "I \<noteq> {..<chunk_count c}"
    then obtain j where j: "j < chunk_count c" "j \<notin> I" using assms(1) by auto
    have pos: "0 < length (chunk_at c j)" using j(1) assms(2) by (auto simp: chunk_count_iff length_chunk_at chunk_size)
    have "(\<Sum>i \<in> insert j I. length (chunk_at c i)) \<le> (\<Sum>i < chunk_count c. length (chunk_at c i))"
      using j(1) assms(1) by (intro sum_mono2) auto
    moreover have "(\<Sum>i \<in> insert j I. length (chunk_at c i)) = length (chunk_at c j) + (\<Sum>i \<in> I. length (chunk_at c i))"
      using j(2) finite_subset [OF assms(1)] by simp
    ultimately show False using ge pos by (simp add: chunk_lengths_all)
  qed
qed (simp add: chunk_lengths_all)

lemma chunk_covers: "(\<Union>i < chunk_count c. {i * chunk_size..<i * chunk_size + length (chunk_at c i)}) \<supseteq> {..<length c}"
proof
  fix x assume "x \<in> {..<length c}"
  then have x: "x < length c" by simp
  define i where "i = x div chunk_size"
  have "i * chunk_size \<le> x" "x < i * chunk_size + chunk_size"
    using div_mult_mod_eq [of x chunk_size] by (simp_all add: i_def chunk_size)
  moreover from this x have "i < chunk_count c" by (auto simp: chunk_count_iff)
  ultimately show "x \<in> (\<Union>i < chunk_count c. {i * chunk_size..<i * chunk_size + length (chunk_at c i)})"
    using x by (auto simp: length_chunk_at)
qed

lemma unat_small: "n < 2 ^ 64 \<Longrightarrow> unat (of_nat n :: u64) = n"
  by (simp add: unat_of_nat)

lemma chunk_words:
  assumes "length c < 2 ^ 64" "i < chunk_count c"
  shows "unat (of_nat (length c) :: u64) = length c" "unat (chunk_off i) = i * chunk_size" "i * chunk_size \<le> length c"
proof -
  show le: "i * chunk_size \<le> length c" using assms(2) by (auto simp: chunk_count_iff)
  show "unat (of_nat (length c) :: u64) = length c" by (rule unat_small [OF assms(1)])
  show "unat (chunk_off i) = i * chunk_size" unfolding chunk_off_def by (rule unat_small) (use le assms(1) in linarith)
qed

lemma chunk_admissible:
  assumes "length c < 2 ^ 64" "i < chunk_count c"
  shows "chunk_is_admissible (chunk_off i) (of_nat (length c)) (length (chunk_at c i))"
proof -
  note w = chunk_words [OF assms]
  have "unat (of_nat (length (chunk_at c i)) :: u64) = min chunk_size (length c - i * chunk_size)"
    unfolding length_chunk_at by (rule unat_small) (use assms(1) in linarith)
  moreover have "unat (min BLOB_CHUNK_SIZE (of_nat (length c) - chunk_off i)) = min chunk_size (length c - i * chunk_size)"
    using w by (simp add: min_def word_le_nat_alt unat_sub)
  ultimately have "of_nat (length (chunk_at c i)) = min BLOB_CHUNK_SIZE (of_nat (length c) - chunk_off i)"
    by (simp add: word_unat_eq_iff)
  moreover have "chunk_off i mod BLOB_CHUNK_SIZE = 0" using w(2) by (simp add: word_unat_eq_iff unat_mod)
  ultimately show ?thesis
    using assms(2) w by (auto simp: chunk_is_admissible_def chunk_offset_is_admissible_def expected_chunk_len_def chunk_count_iff
        word_less_nat_alt word_unat_eq_iff)
qed

lemma chunk_off_inj:
  assumes "length c < 2 ^ 64" "i < chunk_count c" "j < chunk_count c" "chunk_off i = chunk_off j"
  shows "i = j"
proof -
  have "i * chunk_size = j * chunk_size" by (metis chunk_words(2) assms)
  then show ?thesis by (simp add: chunk_size)
qed

section \<open>Serving\<close>

context lawful_fs
begin

lemma blob_read_back:
  assumes "ok s" "bs_fs bs = fs" "is_valid_hash h" "valid_str h" "files s (bs_root bs @ [Normal h]) = Some c"
  shows "blob_size bs h s = (Inr (Some (length c)), s)" "blob_read_range bs h off n s = (Inr (byte_range (unat off) n c), s)"
  using assms(2-5) file_len_law [OF assms(1)] read_range_law [OF assms(1)]
  by (simp_all add: blob_size_def blob_read_range_def blob_path_def blob_paths bindE_def errE_def)

lemma serve_chunks_sends:
  assumes s: "ok (st_disk (en_store e))" "ve_fs (ee_vault_env E) = fs" and h: "is_valid_hash h" "valid_str h"
    and c: "files (st_disk (en_store e)) (bs_root (blobs_of E (en_store e)) @ [Normal h]) = Some c" "length c < 2 ^ 64" "c \<noteq> []"
  shows "length c \<le> n + i * chunk_size \<Longrightarrow>
    exec (serve_chunks E n p h (of_nat (length c)) (of_nat (min (length c) (i * chunk_size)))) e
      = e\<lparr>en_out := en_out e @ map (\<lambda>j. Send p (chunk_frame h c j)) [i..<chunk_count c]\<rparr>"
  using s(1) c(1)
proof (induction n arbitrary: i e)
  case 0
  then have "\<not> i < chunk_count c" using c(3) by (cases i) (auto simp: chunk_count_iff)
  then show ?case by simp
next
  case (Suc n)
  show ?case
  proof (cases "i < chunk_count c")
    case False
    then have "\<not> (of_nat (min (length c) (i * chunk_size)) :: u64) < of_nat (length c)" by (auto simp: chunk_count_iff min_def)
    then show ?thesis using False by simp
  next
    case True
    note w = chunk_words [OF c(2) True]
    have lt: "i * chunk_size < length c" using True c(3) by (auto simp: chunk_count_iff)
    have off: "of_nat (min (length c) (i * chunk_size)) = chunk_off i" using w(3) by (simp only: min.absorb2 chunk_off_def)
    have "unat (min BLOB_CHUNK_SIZE (of_nat (length c) - chunk_off i)) = min chunk_size (length c - i * chunk_size)"
      using w by (simp add: min_def word_le_nat_alt unat_sub)
    then have chunk: "byte_range (unat (chunk_off i)) (unat (min BLOB_CHUNK_SIZE (of_nat (length c) - chunk_off i))) c = chunk_at c i"
      using w(2) by (simp add: chunk_at_def byte_range_def min_def)
    have less: "chunk_off i < of_nat (length c)" using w lt by (simp add: word_less_nat_alt)
    have "0 < length (chunk_at c i)" using lt by (simp add: length_chunk_at chunk_size)
    then have ne: "chunk_at c i \<noteq> []" by simp
    have nxt: "chunk_off i + of_nat (length (chunk_at c i)) = of_nat (min (length c) (Suc i * chunk_size))"
      unfolding chunk_off_def of_nat_add [symmetric] chunk_at_end [OF w(3)] by simp
    have read: "on_disk (blob_read_range (blobs_of E (en_store e)) h (chunk_off i) (unat (min BLOB_CHUNK_SIZE (of_nat (length c) - chunk_off i))))
        (en_store e) = (Inr (chunk_at c i), en_store e)"
      using blob_read_back(2) [OF Suc.prems(2) _ h Suc.prems(3)] s(2) chunk
      by (simp add: on_disk_def blobs_of_def store_blobs_def)
    let ?e = "e\<lparr>en_out := en_out e @ [Send p (chunk_frame h c i)]\<rparr>"
    have "exec (serve_chunks E (Suc n) p h (of_nat (length c)) (chunk_off i)) e
        = exec (serve_chunks E n p h (of_nat (length c)) (of_nat (min (length c) (Suc i * chunk_size)))) ?e"
      unfolding nxt [symmetric] using less ne by (simp add: read send_def chunk_frame_def)
    moreover have "length c \<le> n + Suc i * chunk_size" using Suc.prems(1) by (simp add: chunk_size)
    ultimately show ?thesis using Suc.IH [of "Suc i" ?e] Suc.prems(2,3) True by (simp add: off upt_conv_Cons)
  qed
qed

lemma serve_blob_sends:
  assumes s: "ok (st_disk (en_store e))" "ve_fs (ee_vault_env E) = fs" and h: "is_valid_hash h" "valid_str h"
    and c: "files (st_disk (en_store e)) (bs_root (blobs_of E (en_store e)) @ [Normal h]) = Some c" "length c < 2 ^ 64"
  shows "exec (serve_blob E p h) e = e\<lparr>en_out := en_out e @ map (\<lambda>j. Send p (chunk_frame h c j)) [0..<chunk_count c]\<rparr>"
proof -
  have size: "on_disk (blob_size (blobs_of E (en_store e)) h) (en_store e) = (Inr (Some (length c)), en_store e)"
    using blob_read_back(1) [OF s(1) _ h c(1)] s(2) by (simp add: on_disk_def blobs_of_def store_blobs_def)
  note small = unat_small [OF c(2)]
  show ?thesis
  proof (cases "c = []")
    case True
    moreover have "chunk_count [] = 1" by (simp add: chunk_count_def chunk_size)
    ultimately show ?thesis
      using size by (simp add: serve_blob_def send_def chunk_frame_def chunk_off_def chunk_at_def byte_range_def)
  next
    case False
    then have "(of_nat (length c) :: u64) \<noteq> 0" using small by (metis length_0_conv unat_0)
    then have "exec (serve_blob E p h) e = exec (serve_chunks E (length c) p h (of_nat (length c)) (of_nat (min (length c) (0 * chunk_size)))) e"
      using size small by (simp add: serve_blob_def Let_def)
    then show ?thesis using serve_chunks_sends [OF s h c False, of "length c" 0 p] by simp
  qed
qed

end

section \<open>Receiving\<close>

text \<open>Where the bytes of the chunks \<open>I\<close> lie, and what the receiver holds after those chunks.\<close>

definition chunk_bytes :: "bytes \<Rightarrow> nat set \<Rightarrow> nat set" where
  "chunk_bytes c I = (\<Union>i \<in> I. {i * chunk_size..<i * chunk_size + length (chunk_at c i)})"

definition counted :: "bytes \<Rightarrow> nat set \<Rightarrow> incoming_blob option \<Rightarrow> bool" where
  "counted c I x \<longleftrightarrow> (case x of
       None \<Rightarrow> I = {}
     | Some ib \<Rightarrow> ib_total_len ib = of_nat (length c) \<and> ib_received ib = of_nat (\<Sum>i \<in> I. length (chunk_at c i))
         \<and> set (ib_seen ib) = chunk_off ` I)"

lemma counted_step:
  assumes "counted c I x" "I \<subseteq> {..<chunk_count c}" "length c < 2 ^ 64" "i < chunk_count c"
  shows "counted c (insert i I) (Some (count_chunk (of_nat (length c)) (chunk_off i) (length (chunk_at c i)) x))"
proof -
  have fresh: "chunk_off i \<in> chunk_off ` I \<longleftrightarrow> i \<in> I"
    using chunk_off_inj [OF assms(3,4)] assms(2) by (auto dest: subsetD)
  have "finite I" using assms(2) finite_subset by blast
  then show ?thesis
    using assms(1) fresh
    by (cases x) (auto simp: counted_def count_chunk_def Let_def insert_absorb algebra_simps)
qed

lemma counted_complete:
  assumes "counted c I (Some ib)" "I \<subseteq> {..<chunk_count c}" "length c < 2 ^ 64" "I \<noteq> {}"
  shows "ib_received ib \<ge> ib_total_len ib \<longleftrightarrow> I = {..<chunk_count c}"
proof (cases "c = []")
  case True
  have "chunk_count [] = 1" by (simp add: chunk_count_def chunk_size)
  then show ?thesis using True assms(1,2,4) by (auto simp: counted_def)
next
  case False
  have "(\<Sum>i \<in> I. length (chunk_at c i)) \<le> length c"
    using sum_mono2 [of "{..<chunk_count c}" I "\<lambda>i. length (chunk_at c i)"] assms(2) chunk_lengths_all [of c] by simp
  then have "unat (of_nat (\<Sum>i \<in> I. length (chunk_at c i)) :: u64) = (\<Sum>i \<in> I. length (chunk_at c i))"
    using assms(3) by (intro unat_small) simp
  then show ?thesis
    using chunk_lengths_part [OF assms(2) False] assms(1) unat_small [OF assms(3)]
    by (simp add: counted_def word_le_nat_alt del: of_nat_sum)
qed

definition receiving :: "('s \<Rightarrow> bool) \<Rightarrow> ('s \<Rightarrow> path \<Rightarrow> bytes option) \<Rightarrow> ('s \<Rightarrow> path \<Rightarrow> bool) \<Rightarrow> ('s \<Rightarrow> path \<Rightarrow> bool)
    \<Rightarrow> 's blob_store \<Rightarrow> ustr \<Rightarrow> bytes \<Rightarrow> nat set \<Rightarrow> 's \<Rightarrow> bool" where
  "receiving ok files dir room bs h c I s \<longleftrightarrow> ok s \<and> room s (part_path bs h) \<and> \<not> dir s (part_path bs h)
     \<and> files s (bs_root bs @ [Normal h]) = None \<and> \<not> dir s (bs_root bs @ [Normal h])
     \<and> (files s (part_path bs h) = None \<and> I = {}
        \<or> (\<exists>P. files s (part_path bs h) = Some P \<and> agrees c (chunk_bytes c I) P))"

lemma incoming_prefixes:
  assumes "is_valid_hash h" "valid_str h"
  shows "bs_root bs @ [Normal h] \<notin> set (dir_prefixes (incoming_dir bs))"
proof -
  have step: "dir_prefixes (xs @ [x]) = dir_prefixes xs @ [path_push cur x]" if "cur = fst (fold (\<lambda>c (cur, ds). let cur' = path_push cur c in (cur', ds @ [cur'])) xs ([], []))" for xs x cur
    using that by (simp add: dir_prefixes_def case_prod_beta Let_def)
  have "h \<noteq> lit ''incoming''"
    using assms(1) by (auto simp: is_valid_hash_def HASH_HEX_LEN_def str_len_def lit_def utf8_char.simps)
  then show ?thesis
    using dir_prefixes_short [of "bs_root bs @ [Normal h]" "bs_root bs"] step [OF refl, of "bs_root bs"]
    by (auto simp: blob_paths(3) [OF assms] path_push_def)
qed

context lawful_fs
begin

lemma receive_chunk:
  assumes r: "receiving ok files dir room bs h c I s" and bs: "bs_fs bs = fs" and h: "is_valid_hash h" "valid_str h"
    and p: "okp (part_path bs h)" and c: "length c < 2 ^ 64" "i < chunk_count c"
  shows "\<exists>s'. write_incoming_chunk bs h (chunk_off i) (of_nat (length c)) (chunk_at c i) s = (Inr (), s')
    \<and> receiving ok files dir room bs h c (insert i I) s'"
proof -
  note w = chunk_words [OF c] and d = r [unfolded receiving_def]
  let ?p = "part_path bs h" and ?f = "bs_root bs @ [Normal h]"
  obtain P where P: "files s ?p = None \<and> P = replicate (length c) 0 \<or> files s ?p = Some P" "agrees c (chunk_bytes c I) P"
  proof (cases "files s ?p")
    case None
    then have "I = {}" using d by simp
    then show ?thesis using that [of "replicate (length c) 0"] None by (simp add: agrees_def chunk_bytes_def)
  qed (use d that in auto)
  have fits: "chunk_fits c (chunk_off i, length (chunk_at c i))"
    using w by (simp add: chunk_fits_def length_chunk_at)
  have slice: "byte_range (unat (chunk_off i)) (length (chunk_at c i)) c = chunk_at c i"
    using w(2) by (simp add: chunk_at_def byte_range_def min_def)
  obtain s' where s': "write_incoming_chunk bs h (chunk_off i) (of_nat (length c)) (chunk_at c i) s = (Inr (), s')" "ok s'" "\<not> dir s' ?p"
      "files s' = (files s)(?p \<mapsto> patch (unat (chunk_off i)) (chunk_at c i) P)"
      "dir s' = (\<lambda>q. dir s q \<or> q \<in> set (dir_prefixes (incoming_dir bs)))"
    using chunk_step [OF _ bs h refl p, of s "chunk_off i" "chunk_at c i" "of_nat (length c)" P] d P fits w
    by (auto simp: chunk_fits_def agrees_def)
  have "agrees c (chunk_bytes c (insert i I)) (patch (unat (chunk_off i)) (chunk_at c i) P)"
    using agrees_patch [OF P(2) fits] slice w(2) by (simp add: chunk_bytes_def Un_commute)
  moreover have "?p \<noteq> ?f" by (simp add: blob_paths(4) [OF h])
  ultimately have "receiving ok files dir room bs h c (insert i I) s'"
    using s' d incoming_prefixes [OF h, of bs] room_file [OF s'(2), of ?p] by (simp add: receiving_def)
  then show ?thesis using s'(1) by blast
qed

lemma receive_all:
  assumes r: "receiving ok files dir room bs h c {..<chunk_count c} s" and bs: "bs_fs bs = fs" and h: "is_valid_hash h" "valid_str h"
    and p: "okp (bs_root bs @ [Normal h])" and c: "H c = h"
  shows "\<exists>s'. finalize_incoming H bs h s = (Inr True, s') \<and> ok s' \<and> files s' (bs_root bs @ [Normal h]) = Some c"
proof -
  have "{..<chunk_count c} \<noteq> {}" by (auto simp: chunk_count_iff)
  then obtain P where P: "files s (part_path bs h) = Some P" "agrees c (chunk_bytes c {..<chunk_count c}) P"
    using r by (auto simp: receiving_def)
  then have "P = c" using chunk_covers [of c] by (intro nth_equalityI) (auto simp: agrees_def chunk_bytes_def)
  then show ?thesis
    using finalize_eq [OF _ bs h, of s P H] P(1) r p c by (auto simp: receiving_def)
qed

lemma blob_has_iff: "ok s \<Longrightarrow> bs_fs bs = fs \<Longrightarrow> is_valid_hash h \<Longrightarrow> valid_str h
    \<Longrightarrow> blob_has bs h s \<longleftrightarrow> files s (bs_root bs @ [Normal h]) \<noteq> None \<or> dir s (bs_root bs @ [Normal h])"
  using exists_law by (simp add: blob_has_def blob_path_def blob_paths)

end

section \<open>The receiving engine\<close>

definition awaiting :: "('s \<Rightarrow> bool) \<Rightarrow> ('s \<Rightarrow> path \<Rightarrow> bytes option) \<Rightarrow> ('s \<Rightarrow> path \<Rightarrow> bool) \<Rightarrow> ('s \<Rightarrow> path \<Rightarrow> bool)
    \<Rightarrow> ('s, 'd, 'v, 'f) engine_env \<Rightarrow> ustr \<Rightarrow> bytes \<Rightarrow> nat set \<Rightarrow> ('s, 'd, 'v) engine \<Rightarrow> bool" where
  "awaiting ok files dir room E h c I e \<longleftrightarrow>
     receiving ok files dir room (blobs_of E (en_store e)) h c I (st_disk (en_store e))
     \<and> counted c I (bt_get (en_incoming e) h) \<and> bt_ok (en_incoming e) \<and> fileset_wants E h (en_store e)"

definition holding :: "('s \<Rightarrow> bool) \<Rightarrow> ('s \<Rightarrow> path \<Rightarrow> bytes option) \<Rightarrow> ('s, 'd, 'v, 'f) engine_env \<Rightarrow> ustr \<Rightarrow> bytes
    \<Rightarrow> ('s, 'd, 'v) engine \<Rightarrow> bool" where
  "holding ok files E h c e \<longleftrightarrow> ok (st_disk (en_store e))
     \<and> files (st_disk (en_store e)) (bs_root (blobs_of E (en_store e)) @ [Normal h]) = Some c"

lemma disk_update_simps [simp]:
  "blobs_of E (st\<lparr>st_disk := s\<rparr>) = blobs_of E st" "fileset_wants E h (st\<lparr>st_disk := s\<rparr>) = fileset_wants E h st"
  by (simp_all add: blobs_of_def store_blobs_def fileset_wants_def file_entries_def)

lemma blobs_fs [simp]: "bs_fs (blobs_of E st) = ve_fs (ee_vault_env E)"
  by (simp add: blobs_of_def store_blobs_def)

lemma take_chunk_eq:
  assumes "\<not> t > MAX_INCOMING_BLOB_BYTES" "chunk_is_admissible off t (length b)" "val (wants_bytes E h) e"
    and "write_incoming_chunk (blobs_of E (en_store e)) h off t b (st_disk (en_store e)) = (Inr (), s')"
    and "ib = count_chunk t off (length b) (bt_get (en_incoming e) h)"
  shows "exec (take_blob_chunk E h off t b) e =
    (let e2 = e\<lparr>en_store := (en_store e)\<lparr>st_disk := s'\<rparr>, en_incoming := bt_insert h ib (en_incoming e)\<rparr> in
     if ib_received ib \<ge> ib_total_len ib then exec (finish_blob E h) e2 else e2)"
  using assms by (simp add: take_blob_chunk_def wants_bytes_def on_disk_def Let_def)

context lawful_fs
begin

lemma take_chunk_step:
  assumes a: "awaiting ok files dir room E h c I e" "I \<subseteq> {..<chunk_count c}" and i: "i < chunk_count c"
    and E: "ve_fs (ee_vault_env E) = fs" "ee_blob_hash E c = h" and h: "is_valid_hash h" "valid_str h"
    and c: "length c \<le> unat MAX_INCOMING_BLOB_BYTES"
    and p: "okp (part_path (blobs_of E (en_store e)) h)" "okp (bs_root (blobs_of E (en_store e)) @ [Normal h])"
    and e': "e' = exec (take_blob_chunk E h (chunk_off i) (of_nat (length c)) (chunk_at c i)) e"
  shows "st_root (en_store e') = st_root (en_store e)
    \<and> (if insert i I = {..<chunk_count c} then holding ok files E h c e' else awaiting ok files dir room E h c (insert i I) e')"
proof -
  let ?bs = "blobs_of E (en_store e)"
  note r = a(1) [unfolded awaiting_def]
  have c64: "length c < 2 ^ 64" using c by (simp add: MAX_INCOMING_BLOB_BYTES_def)
  obtain s' where w: "write_incoming_chunk ?bs h (chunk_off i) (of_nat (length c)) (chunk_at c i) (st_disk (en_store e)) = (Inr (), s')"
      and r': "receiving ok files dir room ?bs h c (insert i I) s'"
    using receive_chunk [OF conjunct1 [OF r] _ h p(1) c64 i] E(1) by auto
  define ib where "ib = count_chunk (of_nat (length c)) (chunk_off i) (length (chunk_at c i)) (bt_get (en_incoming e) h)"
  have cnt: "counted c (insert i I) (Some ib)" using counted_step [OF _ a(2) c64 i] r by (simp add: ib_def)
  have sub: "insert i I \<subseteq> {..<chunk_count c}" using a(2) i by simp
  have small: "\<not> of_nat (length c) > MAX_INCOMING_BLOB_BYTES" using c unat_small [OF c64] by (simp add: word_less_nat_alt)
  have "\<not> blob_has ?bs h (st_disk (en_store e))" and has: "\<not> blob_has ?bs h s'"
    using blob_has_iff [OF _ _ h, of _ ?bs] r r' E(1) by (auto simp: receiving_def)
  then have want: "val (wants_bytes E h) e" using r by (simp add: wants_bytes_def)
  let ?e2 = "e\<lparr>en_store := (en_store e)\<lparr>st_disk := s'\<rparr>, en_incoming := bt_insert h ib (en_incoming e)\<rparr>"
  have eq: "e' = (if insert i I = {..<chunk_count c} then exec (finish_blob E h) ?e2 else ?e2)"
    using take_chunk_eq [OF small chunk_admissible [OF c64 i] want w ib_def] counted_complete [OF cnt sub c64] e' by simp
  show ?thesis
  proof (cases "insert i I = {..<chunk_count c}")
    case True
    obtain s2 where "finalize_incoming (ee_blob_hash E) ?bs h s' = (Inr True, s2)" "ok s2" "files s2 (bs_root ?bs @ [Normal h]) = Some c"
      using receive_all [where H = "ee_blob_hash E", OF r' [unfolded True] _ h p(2) E(2)] E(1) by auto
    then show ?thesis
      using True eq has by (simp add: finish_blob_def on_disk_def or_default_def notify_changed_def holding_def)
  next
    case False
    then show ?thesis using eq r r' cnt by (simp add: awaiting_def bt_get_insert bt_ok_insert)
  qed
qed

lemma take_chunk_held:
  assumes "holding ok files E h c e" "ve_fs (ee_vault_env E) = fs" "is_valid_hash h" "valid_str h"
  shows "exec (take_blob_chunk E h off t b) e = e"
  using blob_has_iff [of "st_disk (en_store e)" "blobs_of E (en_store e)" h] assms
  by (simp add: take_blob_chunk_def wants_bytes_def holding_def)

text \<open>Any sequence of the chunk frames, from any peers, in any order and with repetitions.\<close>

lemma receive_run:
  assumes E: "ve_fs (ee_vault_env E) = fs" "ee_blob_hash E c = h" and h: "is_valid_hash h" "valid_str h"
    and c: "length c \<le> unat MAX_INCOMING_BLOB_BYTES"
  shows "if I = {..<chunk_count c} then holding ok files E h c e else awaiting ok files dir room E h c I e \<Longrightarrow> I \<subseteq> {..<chunk_count c}
    \<Longrightarrow> okp (part_path (blobs_of E (en_store e)) h) \<Longrightarrow> okp (bs_root (blobs_of E (en_store e)) @ [Normal h])
    \<Longrightarrow> \<forall>x \<in> set js. snd x < chunk_count c \<Longrightarrow> I \<union> snd ` set js = {..<chunk_count c}
    \<Longrightarrow> holding ok files E h c (exec (run E (map (\<lambda>(q, i). (q, chunk_frame h c i)) js)) e)
      \<and> st_root (en_store (exec (run E (map (\<lambda>(q, i). (q, chunk_frame h c i)) js)) e)) = st_root (en_store e)"
proof (induction js arbitrary: I e)
  case Nil
  then show ?case by (simp add: exec_run)
next
  case (Cons x js)
  obtain q i where x: "x = (q, i)" by fastforce
  define e1 where "e1 = exec (take_blob_chunk E h (chunk_off i) (of_nat (length c)) (chunk_at c i)) e"
  have i: "i < chunk_count c" using Cons.prems(5) by (simp add: x)
  have e1: "st_root (en_store e1) = st_root (en_store e) \<and>
      (if insert i I = {..<chunk_count c} then holding ok files E h c e1 else awaiting ok files dir room E h c (insert i I) e1)"
  proof (cases "I = {..<chunk_count c}")
    case True
    then have "insert i I = {..<chunk_count c}" using i by auto
    then show ?thesis using Cons.prems(1) True take_chunk_held [OF _ E(1) h, of c e] by (simp add: e1_def)
  next
    case False
    then show ?thesis using take_chunk_step [OF _ Cons.prems(2) i E h c Cons.prems(3,4) e1_def] Cons.prems(1) by simp
  qed
  have "exec (run E (map (\<lambda>(q, i). (q, chunk_frame h c i)) (x # js))) e = exec (run E (map (\<lambda>(q, i). (q, chunk_frame h c i)) js)) e1"
    by (simp add: x exec_run chunk_frame_def e1_def)
  moreover have "blobs_of E (en_store e1) = blobs_of E (en_store e)" using e1 by (simp add: blobs_of_def store_blobs_def)
  ultimately show ?case using Cons.IH [of "insert i I" e1] Cons.prems(2-6) e1 i by (simp add: x)
qed

text \<open>A partial file of another length turns every chunk away.\<close>

lemma pinned_refuses:
  assumes s: "ok s" "bs_fs bs = fs" and h: "is_valid_hash h" "valid_str h"
    and P: "files s (part_path bs h) = Some P" "length P \<noteq> unat t"
    and f: "files s (bs_root bs @ [Normal h]) = None" "\<not> dir s (bs_root bs @ [Normal h])"
  shows "\<exists>s'. write_incoming_chunk bs h off t b s = (Inl Blob, s') \<and> ok s' \<and> files s' = files s \<and> \<not> dir s' (bs_root bs @ [Normal h])"
proof -
  obtain s1 where s1: "fs_create_dir_all fs (incoming_dir bs) s = (Inr (), s1)" "ok s1" "files s1 = files s"
    "dir s1 = (\<lambda>q. dir s q \<or> q \<in> set (dir_prefixes (incoming_dir bs)))"
    using create_dir_all_law [OF s(1)] by (auto simp: ok_step_def)
  then have "fs_exists fs (part_path bs h) s1" "fs_file_len fs (part_path bs h) s1 = (Inr (length P), s1)"
    using exists_law [OF s1(2)] file_len_law [OF s1(2)] P(1) by simp_all
  then have refuse: "write_incoming_chunk bs h off t b s \<in> {(Inl Blob, s), (Inl Blob, s1)}"
    using h s(2) s1(1) P(2) by (auto simp: write_incoming_chunk_def Let_def bindE_def errE_def split: option.split)
  then show ?thesis using s f s1 incoming_prefixes [OF h, of bs] by auto
qed

end

text \<open>The blob is absent and its partial file has the length \<open>n\<close>.\<close>

definition pinned :: "('s \<Rightarrow> bool) \<Rightarrow> ('s \<Rightarrow> path \<Rightarrow> bytes option) \<Rightarrow> ('s \<Rightarrow> path \<Rightarrow> bool) \<Rightarrow> ('s, 'd, 'v, 'f) engine_env
    \<Rightarrow> ustr \<Rightarrow> nat \<Rightarrow> ('s, 'd, 'v) engine \<Rightarrow> bool" where
  "pinned ok files dir E h n e \<longleftrightarrow>
     (let bs = blobs_of E (en_store e); s = st_disk (en_store e) in
      ok s \<and> (\<exists>P. files s (part_path bs h) = Some P \<and> length P = n)
      \<and> files s (bs_root bs @ [Normal h]) = None \<and> \<not> dir s (bs_root bs @ [Normal h]))"

context lawful_fs
begin

lemma pinned_run:
  assumes "ve_fs (ee_vault_env E) = fs" and h: "is_valid_hash h" "valid_str h" and n: "n \<noteq> length c" "length c < 2 ^ 64"
  shows "pinned ok files dir E h n e \<Longrightarrow> \<forall>x \<in> set fs'. \<exists>i. snd x = chunk_frame h c i
    \<Longrightarrow> pinned ok files dir E h n (exec (run E fs') e)"
proof (induction fs' arbitrary: e)
  case Nil
  then show ?case by (simp add: exec_run)
next
  case (Cons x fs')
  obtain q i where x: "x = (q, chunk_frame h c i)" using Cons.prems(2) by (cases x) auto
  let ?bs = "blobs_of E (en_store e)"
  obtain P where P: "ok (st_disk (en_store e))" "files (st_disk (en_store e)) (part_path ?bs h) = Some P" "length P = n"
      "files (st_disk (en_store e)) (bs_root ?bs @ [Normal h]) = None" "\<not> dir (st_disk (en_store e)) (bs_root ?bs @ [Normal h])"
    using Cons.prems(1) by (auto simp: pinned_def Let_def)
  have len: "length P \<noteq> unat (of_nat (length c) :: u64)" using P(3) n unat_small [OF n(2)] by simp
  obtain s' where s': "write_incoming_chunk ?bs h (chunk_off i) (of_nat (length c)) (chunk_at c i) (st_disk (en_store e)) = (Inl Blob, s')"
      "ok s'" "files s' = files (st_disk (en_store e))" "\<not> dir s' (bs_root ?bs @ [Normal h])"
    using pinned_refuses [OF P(1) _ h P(2) len P(4,5), of "chunk_off i" "chunk_at c i"] assms(1) by auto
  have "exec (handle E q (chunk_frame h c i)) e \<in> {e, e\<lparr>en_store := (en_store e)\<lparr>st_disk := s'\<rparr>\<rparr>}"
    using s'(1) by (simp add: chunk_frame_def take_blob_chunk_def wants_bytes_def on_disk_def)
  then have "pinned ok files dir E h n (exec (handle E q (chunk_frame h c i)) e)"
    using Cons.prems(1) P s' by (auto simp: pinned_def)
  then show ?case using Cons.IH Cons.prems(2) by (simp add: x exec_run)
qed

lemma wrong_length_pins:
  assumes a: "awaiting ok files dir room E h c {} e" and E: "ve_fs (ee_vault_env E) = fs" and h: "is_valid_hash h" "valid_str h"
    and p: "okp (part_path (blobs_of E (en_store e)) h)"
    and none: "files (st_disk (en_store e)) (part_path (blobs_of E (en_store e)) h) = None" "bt_get (en_incoming e) h = None"
    and t: "BLOB_CHUNK_SIZE < t" "t \<le> MAX_INCOMING_BLOB_BYTES" "length b = chunk_size"
  shows "pinned ok files dir E h (unat t) (exec (take_blob_chunk E h 0 t b) e)"
proof -
  let ?bs = "blobs_of E (en_store e)" and ?s = "st_disk (en_store e)"
  have r: "ok ?s" "room ?s (part_path ?bs h)" "\<not> dir ?s (part_path ?bs h)" "files ?s (bs_root ?bs @ [Normal h]) = None"
      "\<not> dir ?s (bs_root ?bs @ [Normal h])" "fileset_wants E h (en_store e)"
    using a by (auto simp: awaiting_def receiving_def)
  have bt: "chunk_size < unat t" using t(1) by (simp add: word_less_nat_alt)
  obtain s' where s': "write_incoming_chunk ?bs h 0 t b ?s = (Inr (), s')" "ok s'"
      "files s' = (files ?s)(part_path ?bs h \<mapsto> patch 0 b (replicate (unat t) 0))"
      "dir s' = (\<lambda>q. dir ?s q \<or> q \<in> set (dir_prefixes (incoming_dir ?bs)))"
    using chunk_step [OF r(1) _ h refl p r(2,3), of 0 b t "replicate (unat t) 0"] E none(1) bt t(3) by auto
  have "of_nat (length b) = BLOB_CHUNK_SIZE" by (simp add: t(3))
  then have adm: "chunk_is_admissible 0 t (length b)"
    using t(1) by (auto simp: chunk_is_admissible_def chunk_offset_is_admissible_def expected_chunk_len_def word_neq_0_conv)
  have "val (wants_bytes E h) e" using blob_has_iff [OF r(1) _ h, of ?bs] r(4-6) E by (simp add: wants_bytes_def)
  then have eq: "exec (take_blob_chunk E h 0 t b) e = e\<lparr>en_store := (en_store e)\<lparr>st_disk := s'\<rparr>,
      en_incoming := bt_insert h (count_chunk t 0 (length b) None) (en_incoming e)\<rparr>"
    using take_chunk_eq [OF _ adm _ s'(1) refl] t(1,2) \<open>of_nat (length b) = BLOB_CHUNK_SIZE\<close> none(2)
    by (simp add: not_less count_chunk_def Let_def leD)
  have "part_path ?bs h \<noteq> bs_root ?bs @ [Normal h]" by (simp add: blob_paths(4) [OF h])
  then show ?thesis
    using s'(2-4) r(4,5) bt t(3) incoming_prefixes [OF h, of ?bs] by (simp add: eq pinned_def Let_def)
qed

end

section \<open>From one device to the other\<close>

lemma frames_indexed:
  assumes "snd ` set fs = F ` A" "inj_on F A"
  shows "\<exists>js. fs = map (\<lambda>(q, i). (q, F i)) js \<and> snd ` set js = A"
proof -
  let ?g = "\<lambda>(q, f). (q, the_inv_into A F f)"
  have inv: "snd x \<in> F ` A" if "x \<in> set fs" for x using that assms(1) by (metis imageI)
  have "map (\<lambda>(q, i). (q, F i)) (map ?g fs) = fs"
    unfolding map_map by (rule map_idI) (auto dest!: inv simp: the_inv_into_f_f [OF assms(2)])
  moreover have "snd ` set (map ?g fs) = the_inv_into A F ` snd ` set fs" by (force simp: image_iff)
  moreover have "the_inv_into A F ` F ` A = A" by (force simp: the_inv_into_f_f [OF assms(2)])
  ultimately show ?thesis using assms(1) by (intro exI [of _ "map ?g fs"]) simp
qed

lemma chunk_frame_inj: "length c < 2 ^ 64 \<Longrightarrow> inj_on (chunk_frame h c) {..<chunk_count c}"
  by (rule inj_onI, rule chunk_off_inj) (simp_all add: chunk_frame_def)

text \<open>
  C31: a blob reaches the device that wants it. A device that holds the blob answers a request of an
  active peer with a list of frames; when those frames, in whatever order, from whatever peers and however
  often repeated, reach a device whose file set references the blob, that device ends up holding exactly
  the bytes. The length bound is the one the receiver enforces.
\<close>

theorem blob_reaches_peer:
  assumes S: "ve_fs (ee_vault_env S) = pool_fs" "pool_ok (st_disk (en_store e1))" "active_in (en_store e1) p"
      "pool_file (st_disk (en_store e1)) (bs_root (blobs_of S (en_store e1)) @ [Normal h]) = Some c"
    and R: "ve_fs (ee_vault_env R) = pool_fs" "ee_blob_hash R c = h"
      "pool_path (part_path (blobs_of R (en_store e2)) h)" "pool_path (bs_root (blobs_of R (en_store e2)) @ [Normal h])"
      "awaiting pool_ok pool_file pool_dir pool_room R h c {} e2"
    and h: "is_valid_hash h" "valid_str h" and c: "length c \<le> unat MAX_INCOMING_BLOB_BYTES"
  shows "\<exists>sent. en_out (exec (handle S p (BlobWant h)) e1) = en_out e1 @ map (Send p) sent
    \<and> (\<forall>fs. snd ` set fs = set sent \<longrightarrow>
         fst (blob_get (ee_blob_hash R) (blobs_of R (en_store e2)) h (st_disk (en_store (exec (run R fs) e2)))) = Inr (Some c))"
proof -
  have c64: "length c < 2 ^ 64" using c by (simp add: MAX_INCOMING_BLOB_BYTES_def)
  have sends: "en_out (exec (handle S p (BlobWant h)) e1) = en_out e1 @ map (Send p) (map (chunk_frame h c) [0..<chunk_count c])"
    using slots.serve_blob_sends [OF S(2,1) h S(4) c64, of p] S(3) by (simp add: comp_def)
  moreover have "fst (blob_get (ee_blob_hash R) (blobs_of R (en_store e2)) h (st_disk (en_store (exec (run R fs) e2)))) = Inr (Some c)"
    if covers: "snd ` set fs = set (map (chunk_frame h c) [0..<chunk_count c])" for fs
  proof -
    obtain js where js: "fs = map (\<lambda>(q, i). (q, chunk_frame h c i)) js" "snd ` set js = {..<chunk_count c}"
      using frames_indexed [OF _ chunk_frame_inj [OF c64], of fs h] covers by (auto simp: atLeast0LessThan)
    have "0 < chunk_count c" by (simp add: chunk_count_iff)
    then have "({} :: nat set) \<noteq> {..<chunk_count c}" by auto
    then have "holding pool_ok pool_file R h c (exec (run R fs) e2)
        \<and> st_root (en_store (exec (run R fs) e2)) = st_root (en_store e2)"
      unfolding js(1) using js(2) R(3-5) by (intro slots.receive_run [OF R(1,2) h c, of "{}"]) auto
    then show ?thesis
      using slots.blob_get_eq [OF _ _ h, of "st_disk (en_store (exec (run R fs) e2))" "blobs_of R (en_store e2)" "ee_blob_hash R"] R(1,2)
      by (auto simp: holding_def blobs_of_def store_blobs_def)
  qed
  ultimately show ?thesis by blast
qed

text \<open>
  C37: one hostile frame blocks a blob. While a device waits for a blob, any peer, active or not, can
  send a first chunk that announces another length. The partial file then keeps that length, and however
  many genuine chunks follow, from whomever, the blob never arrives.
\<close>

theorem wrong_length_blocks_blob:
  assumes R: "ve_fs (ee_vault_env R) = pool_fs" "pool_path (part_path (blobs_of R (en_store e)) h)"
      "awaiting pool_ok pool_file pool_dir pool_room R h c {} e"
      "pool_file (st_disk (en_store e)) (part_path (blobs_of R (en_store e)) h) = None" "bt_get (en_incoming e) h = None"
    and h: "is_valid_hash h" "valid_str h" and c: "length c < 2 ^ 64"
    and t: "BLOB_CHUNK_SIZE < t" "t \<le> MAX_INCOMING_BLOB_BYTES" "unat t \<noteq> length c" "length junk = unat BLOB_CHUNK_SIZE"
    and fs: "\<forall>x \<in> set fs. \<exists>i. snd x = chunk_frame h c i"
  shows "\<not> blob_has (blobs_of R (en_store (exec (run R ((q, BlobChunk h 0 t junk) # fs)) e))) h
    (st_disk (en_store (exec (run R ((q, BlobChunk h 0 t junk) # fs)) e)))"
proof -
  let ?e = "exec (run R ((q, BlobChunk h 0 t junk) # fs)) e"
  have "pinned pool_ok pool_file pool_dir R h (unat t) ?e"
    using slots.pinned_run [OF R(1) h t(3) c slots.wrong_length_pins [OF R(3,1) h R(2,4,5) t(1,2,4)] fs] by (simp add: exec_run)
  then show ?thesis using slots.blob_has_iff [OF _ _ h] R(1) by (auto simp: pinned_def Let_def)
qed

section \<open>Two example devices\<close>

definition ex_want :: file_entry where
  "ex_want = \<lparr>fe_kind = BlobEntry, fe_status = Live, fe_content_hash = ex_hash, fe_renamed_from = None, fe_tombstoned_at = None\<rparr>"

definition ex_device :: "(pool, unit, unit, unit) engine_env" where
  "ex_device = \<lparr>ee_vault_env = toy_vault\<lparr>ve_loro := toy_loro\<lparr>lo_map_keys := \<lambda>_ _. [[1]], lo_map_get := \<lambda>_ _ _. Some (LString [])\<rparr>\<rparr>,
     ee_hist = ex_codec, ee_snap = ex_snap_codec, ee_parse_entry = \<lambda>_. Some ex_want, ee_blob_hash = \<lambda>_. ex_hash, ee_dial = \<lambda>_. True,
     ee_peer_id = 1, ee_vault = [], ee_vault_key = []\<rparr>"

definition ex_side :: "pool \<Rightarrow> (pool, unit, unit) engine" where
  "ex_side s = engine_new (ex_kstore\<lparr>st_disk := s, st_root := [], st_peers := [ex_me\<lparr>pr_peer_id := 2, pr_status := Active\<rparr>]\<rparr>)"

definition ex_full :: pool where
  "ex_full = snd (fs_write pool_fs (bs_root ex_blobs @ [Normal ex_hash]) [7] ex_pool)"

lemma assets_path: "sub_path r ''assets'' = r @ [Normal (lit ''assets'')]"
  by (rule sub_path_eq) (simp_all add: lit_def slash_def dot_def)

lemma ex_side_simps [simp]:
  "blobs_of ex_device (en_store (ex_side s)) = ex_blobs" "st_disk (en_store (ex_side s)) = s" "ve_fs (ee_vault_env ex_device) = pool_fs"
  "active_in (en_store (ex_side s)) 2" "en_incoming (ex_side s) = []" "ee_blob_hash ex_device = (\<lambda>_. ex_hash)"
  by (simp_all add: ex_side_def engine_new_def blobs_of_def store_blobs_def ex_device_def toy_vault_def ex_blobs_def assets_path
      active_in_def)

lemma ex_full_facts: "pool_ok ex_full" "pool_file ex_full (bs_root ex_blobs @ [Normal ex_hash]) = Some [7]"
  using slots.write_law [OF ex_pool_ok ex_blob_paths(2) ex_pool_simps(1), of "[7]"] by (auto simp: ok_step_def ex_full_def)

lemma ex_awaiting: "awaiting pool_ok pool_file pool_dir pool_room ex_device ex_hash c {} (ex_side ex_pool)"
proof -
  have "fileset_wants ex_device ex_hash (en_store (ex_side ex_pool))"
    by (simp add: fileset_wants_def file_entries_def ex_device_def doc_entries_def ex_want_def live_blob_def toy_vault_def
        List.map_filter_def doc_get_entry_def)
  then show ?thesis
    by (simp add: awaiting_def receiving_def counted_def ex_pool_ok ex_pool_simps ex_pool_files)
qed

theorem blob_reaches_peer_witness:
  "\<exists>sent. en_out (exec (handle ex_device 2 (BlobWant ex_hash)) (ex_side ex_full)) = en_out (ex_side ex_full) @ map (Send 2) sent
    \<and> fst (blob_get (\<lambda>_. ex_hash) ex_blobs ex_hash (st_disk (en_store (exec (run ex_device (map (Pair 1) (rev sent))) (ex_side ex_pool)))))
      = Inr (Some [7])"
proof -
  obtain sent where "en_out (exec (handle ex_device 2 (BlobWant ex_hash)) (ex_side ex_full)) = en_out (ex_side ex_full) @ map (Send 2) sent"
    "\<forall>fs. snd ` set fs = set sent \<longrightarrow> fst (blob_get (\<lambda>_. ex_hash) ex_blobs ex_hash (st_disk (en_store (exec (run ex_device fs) (ex_side ex_pool)))))
      = Inr (Some [7])"
    using blob_reaches_peer [of ex_device "ex_side ex_full" 2 ex_hash "[7]" ex_device "ex_side ex_pool"]
    by (auto simp: ex_full_facts ex_blob_paths ex_awaiting ex_hash_valid MAX_INCOMING_BLOB_BYTES_def)
  moreover have "snd ` set (map (Pair (1 :: peer)) (rev sent)) = set sent" by (simp add: image_image)
  ultimately show ?thesis by blast
qed

theorem wrong_length_blocks_blob_witness:
  "\<not> blob_has (blobs_of ex_device (en_store (exec (run ex_device [(9, BlobChunk ex_hash 0 (2 * BLOB_CHUNK_SIZE) (replicate (unat BLOB_CHUNK_SIZE) 0)), (2, chunk_frame ex_hash [7] 0)]) (ex_side ex_pool)))) ex_hash
    (st_disk (en_store (exec (run ex_device [(9, BlobChunk ex_hash 0 (2 * BLOB_CHUNK_SIZE) (replicate (unat BLOB_CHUNK_SIZE) 0)), (2, chunk_frame ex_hash [7] 0)]) (ex_side ex_pool))))"
  by (rule wrong_length_blocks_blob [where c = "[7]"])
     (auto simp: ex_blob_paths ex_awaiting ex_hash_valid ex_pool_files BLOB_CHUNK_SIZE_def MAX_INCOMING_BLOB_BYTES_def word_less_nat_alt word_le_nat_alt)

end
