(* ===== verification/Engine_Exposure.thy ===== *)
theory Engine_Exposure
  imports Blob_Exchange
begin

text \<open>
  Two ways in which the engine gives out more than its read gate means to: live pushes follow the session
  table, which a revocation learned from another device does not prune, and a snapshot object is looked
  up under a name that comes from the network.
\<close>

section \<open>Sessions outlive a revocation\<close>

text \<open>No frame closes a session.\<close>

definition sessions_grow :: "('s, 'd, 'v) engine \<Rightarrow> ('s, 'd, 'v) engine \<Rightarrow> bool" where
  "sessions_grow e e' \<longleftrightarrow> set (bt_keys (en_sent_offsets e)) \<subseteq> set (bt_keys (en_sent_offsets e'))"

interpretation sessions: frame_rule sessions_grow
  by unfold_locales (auto simp: sessions_grow_def)

lemma sessions_handle: "upholds sessions_grow (handle E p f)"
  unfolding upholds_def
proof
  fix e :: "('a, 'b, 'c) engine"
  consider (hello) v where "f = Hello v" | (version) v where "f = Have v" | (roster) a b where "f = RosterOps a b"
    | (other) "\<nexists>v. f = Hello v" "\<nexists>v. f = Have v" "\<nexists>a b. f = RosterOps a b" by blast
  then show "sessions_grow e (exec (handle E p f) e)"
  proof cases
    case hello
    then show ?thesis using upholdsD [OF handle_hello_loud, of p e E v] by (simp add: loud_def sessions_grow_def)
  next
    case version
    have "en_sent_offsets (exec (offer_snapshots E p w) (exec (push_logs E p) e')) = en_sent_offsets e'" for e' w
      using calm_have_rest [of p e' E w] by (simp add: calm_def)
    then show ?thesis using version by (simp add: handle_have_eq sessions_grow_def split: option.split)
  next
    case roster
    then show ?thesis using handle_roster_loud [of e E a b] by (auto simp: loud_def sessions_grow_def)
  next
    case other
    then show ?thesis using handle_calm [of f e p E] by (simp add: calm_def sessions_grow_def)
  qed
qed

lemma flush_each:
  "exec (each (\<lambda>p. flush_peer E (suf p) p) ps) e =
     e\<lparr>en_out := en_out e @ concat (map (\<lambda>p. if suf p = [] then [] else [Send p (Ops (ee_peer_id E) (suf p))]) ps)\<rparr>"
  by (induction ps arbitrary: e) (simp_all add: flush_peer_def send_def)

lemma flush_sends:
  assumes "fst (export_own_log (ee_vault_env E) (en_store e)) = Inr own" "bt_get (en_sent_offsets e) p = Some n" "n < length own"
    and "\<forall>ks. set (ve_order (ee_vault_env E) ks) = set ks"
  shows "\<exists>new. en_out (exec (flush_local E) e) = en_out e @ new \<and> Send p (Ops (ee_peer_id E) (drop n own)) \<in> set new"
proof -
  let ?suf = "\<lambda>p. drop (min (the (bt_get (en_sent_offsets e) p)) (length own)) own"
  let ?ps = "ve_order (ee_vault_env E) (bt_keys (en_sent_offsets e))"
  have "en_out (exec (flush_local E) e) =
      en_out e @ concat (map (\<lambda>p. if ?suf p = [] then [] else [Send p (Ops (ee_peer_id E) (?suf p))]) ?ps)"
    using assms(1) by (simp add: flush_local_def Let_def flush_each or_default_def)
  moreover have "p \<in> set ?ps" using bt_get_mem [OF assms(2)] assms(4) by (force simp: bt_keys_def)
  ultimately show ?thesis using assms(2,3) by (intro exI conjI) (assumption, force simp: min_def)
qed

text \<open>
  C35: revocation does not stop live pushes. Let a peer have a session, and let the device then handle
  any frames, among them the roster log of another admin that revokes the peer. The peer is answered no
  more, yet the next local edit is still pushed to it: the unsent end of this device's operation log is
  sent to a peer the roster no longer lists as active.
\<close>

theorem revoked_peer_still_gets_ops:
  assumes "p \<in> set (bt_keys (en_sent_offsets e))" "e' = exec (run E fs) e" "\<not> active_in (en_store e') p"
    and "fst (export_own_log (ee_vault_env E) (en_store e')) = Inr own"
    and "the (bt_get (en_sent_offsets e') p) < length own"
    and "\<forall>ks. set (ve_order (ee_vault_env E) ks) = set ks"
  shows "\<exists>new b. en_out (exec (flush_local E) e') = en_out e' @ new \<and> Send p (Ops (ee_peer_id E) b) \<in> set new
    \<and> b \<noteq> [] \<and> (\<exists>sent. own = sent @ b)"
proof -
  have "sessions_grow e e'" unfolding assms(2) by (rule upholdsD [OF sessions.run [OF sessions_handle]])
  then have "bt_get (en_sent_offsets e') p \<noteq> None" using assms(1) by (auto simp: sessions_grow_def bt_keys_def bt_get_None)
  then obtain n where n: "bt_get (en_sent_offsets e') p = Some n" by blast
  then obtain new where "en_out (exec (flush_local E) e') = en_out e' @ new" "Send p (Ops (ee_peer_id E) (drop n own)) \<in> set new"
    using flush_sends [OF assms(4) n _ assms(6)] assms(5) by auto
  moreover have "drop n own \<noteq> []" "own = take n own @ drop n own" using assms(5) n by simp_all
  ultimately show ?thesis by blast
qed

section \<open>Snapshot names from the network\<close>

lemma path_join_absolute: "path_ok (RootDir # cs) \<Longrightarrow> path_join p (RootDir # cs) = RootDir # cs"
proof -
  have "list_all comp_ok cs \<Longrightarrow> fold (\<lambda>c p. path_push p c) cs q = q @ cs" for q
    by (induction cs arbitrary: q) (auto simp: path_push_def)
  then show "path_ok (RootDir # cs) \<Longrightarrow> path_join p (RootDir # cs) = RootDir # cs"
    by (simp add: path_join_def path_push_def path_ok_def)
qed

text \<open>
  C36: any readable file can be fetched. The id in a snapshot request is joined to the snapshot directory
  unchecked, and joining an absolute path replaces the directory. An active peer, a reader included, that
  asks for the name of any file gets the contents of that file, whichever file system is below.
\<close>

theorem snapshot_want_serves_any_file:
  assumes "active_in (en_store e) p" "path_ok (RootDir # cs)"
    and "fst (fs_read (ve_fs (ee_vault_env E)) (RootDir # cs) (st_disk (en_store e))) = Inr b"
  shows "en_out (exec (handle E p (SnapshotWant (path_to_str (RootDir # cs)))) e) = en_out e @ [Send p (SnapshotData b)]"
proof -
  have "object_path (st_root (en_store e)) (path_to_str (RootDir # cs)) = RootDir # cs"
    unfolding object_path_def by (simp only: path_of_to_str [OF assms(2)] path_join_absolute [OF assms(2)])
  then have "fst (load_snapshot_object (ve_fs (ee_vault_env E)) (st_root (en_store e)) (path_to_str (RootDir # cs)) (st_disk (en_store e))) = Inr (Some b)"
    using assms(3) by (auto simp: load_snapshot_object_def snapshot_load_def split: prod.splits)
  then show ?thesis
    using assms(1) by (auto simp: handle_snapshot_want_def send_def on_disk_def split: prod.splits)
qed

section \<open>Examples\<close>

definition ex_host :: "(mem_state, unit, unit, unit) engine_env" where
  "ex_host = \<lparr>ee_vault_env = ex_mem_vault, ee_hist = ex_codec, ee_snap = ex_snap_codec, ee_parse_entry = \<lambda>_. None,
     ee_blob_hash = \<lambda>_. ex_hash, ee_dial = \<lambda>_. True, ee_peer_id = 1, ee_vault = [], ee_vault_key = []\<rparr>"

definition ex_session :: "mem_state \<Rightarrow> peer_status \<Rightarrow> (mem_state, unit, unit) engine" where
  "ex_session s status = (engine_new (ex_mem_store\<lparr>st_disk := s, st_peers := [ex_me\<lparr>pr_peer_id := 2, pr_status := status\<rparr>]\<rparr>))
     \<lparr>en_sent_offsets := [(2, 0)], en_acked_versions := [(2, [])]\<rparr>"

lemma ex_session_simps:
  "active_in (en_store (ex_session s status)) 2 \<longleftrightarrow> status = Active" "st_disk (en_store (ex_session s status)) = s"
  "en_sent_offsets (ex_session s status) = [(2, 0)]" "en_acked_versions (ex_session s status) = [(2, [])]"
  "ve_fs (ee_vault_env ex_host) = mem_fs" "ve_order (ee_vault_env ex_host) ks = ks" "ve_loro (ee_vault_env ex_host) = ve_loro ex_mem_vault"
  "st_root (en_store (ex_session s status)) = []" "self_id (en_store (ex_session s status)) = 1" "ee_peer_id ex_host = 1"
  by (simp_all add: ex_session_def engine_new_def active_in_def ex_host_def ex_mem_vault_def self_id_def ex_mem_store_def ex_id_def)

theorem revoked_peer_still_gets_ops_witness:
  "\<exists>new b. en_out (exec (flush_local ex_host) (exec (run ex_host [(2, Ping)]) (ex_session ex_mem Revoked)))
      = en_out (exec (run ex_host [(2, Ping)]) (ex_session ex_mem Revoked)) @ new
    \<and> Send 2 (Ops (ee_peer_id ex_host) b) \<in> set new \<and> b \<noteq> [] \<and> (\<exists>sent. utf8 (log_text (toy_sers ex_lines) ex_lines) = sent @ b)"
proof (rule revoked_peer_still_gets_ops [OF _ refl])
  have run: "exec (run ex_host [(2, Ping)]) (ex_session ex_mem Revoked) = ex_session ex_mem Revoked" by (simp add: exec_run)
  show "2 \<in> set (bt_keys (en_sent_offsets (ex_session ex_mem Revoked)))" by (simp add: ex_session_simps bt_keys_def)
  show "\<not> active_in (en_store (exec (run ex_host [(2, Ping)]) (ex_session ex_mem Revoked))) 2" by (simp add: run ex_session_simps)
  show "fst (export_own_log (ee_vault_env ex_host) (en_store (exec (run ex_host [(2, Ping)]) (ex_session ex_mem Revoked))))
      = Inr (utf8 (log_text (toy_sers ex_lines) ex_lines))"
    using mem.read_law [OF ex_mem_files(1)] ex_mem_files(3) [of 1]
    by (simp add: run export_own_log_def on_disk_def read_or_empty_def ex_session_simps)
  show "the (bt_get (en_sent_offsets (exec (run ex_host [(2, Ping)]) (ex_session ex_mem Revoked))) 2) < length (utf8 (log_text (toy_sers ex_lines) ex_lines))"
    by (simp add: run ex_session_simps bt_get_def ex_lines_def utf8_newline)
  show "\<forall>ks. set (ve_order (ee_vault_env ex_host) ks) = set ks" by (simp add: ex_session_simps)
qed

definition ex_secret :: mem_state where
  "ex_secret = \<lparr>mem_files = [([RootDir, Normal (lit ''key'')], [5])], mem_dirs = [], mem_owner_only = []\<rparr>"

theorem snapshot_want_serves_any_file_witness:
  "en_out (exec (handle ex_host 2 (SnapshotWant (path_to_str [RootDir, Normal (lit ''key'')]))) (ex_session ex_secret Active))
    = en_out (ex_session ex_secret Active) @ [Send 2 (SnapshotData [5])]"
  by (rule snapshot_want_serves_any_file)
     (simp_all add: ex_session_simps path_ok_def lit_def slash_def dot_def scalar_def ex_secret_def mem_fs_def mem_read_def bt_get_def)

theorem acked_versions_monotone_witness:
  "\<exists>w. acked_as (ve_loro (ee_vault_env ex_host)) (en_acked_versions (exec (run ex_host [(2, Have [1])]) (ex_session ex_mem Active))) 2 w
    \<and> lo_includes_vv (ve_loro (ee_vault_env ex_host)) w ()"
  by (rule acked_versions_monotone)
     (simp_all add: ex_session_simps includes_laws_def acked_as_def bt_get_def bt_ok_def ex_mem_vault_def toy_loro_def)

theorem handle_answers_active_peers_only_witness:
  "\<exists>new. en_out (exec (handle ex_host 2 (SnapshotWant [])) (ex_session ex_mem Revoked)) = en_out (ex_session ex_mem Revoked) @ new
    \<and> (\<forall>q g. Send q g \<notin> set new)"
proof -
  have "\<not> active_in (en_store (exec (handle ex_host 2 (SnapshotWant [])) (ex_session ex_mem Revoked))) 2"
    by (simp add: handle_snapshot_want_def ex_session_simps)
  then show ?thesis using handle_answers_active_peers_only [of ex_host 2 "SnapshotWant []" "ex_session ex_mem Revoked"] by blast
qed

end
