(* ===== verification/Chunk_Tracker.thy ===== *)
theory Chunk_Tracker
  imports Engine_Gate
begin

text \<open>
  The table of blobs in flight. Chunks come from any peer that can reach the transport, so the table's
  entries are bounded by the checks of the engine alone: what an entry counts is what a blob of the
  announced length can have, and an entry never outlives its last chunk.
\<close>

section \<open>A well-formed entry\<close>

definition chunk_slots :: "u64 \<Rightarrow> nat" where
  "chunk_slots total_len = (unat total_len + unat BLOB_CHUNK_SIZE - 1) div unat BLOB_CHUNK_SIZE"

definition counted :: "incoming_blob \<Rightarrow> nat" where
  "counted ib = (\<Sum>off \<leftarrow> ib_seen ib. unat (expected_chunk_len off (ib_total_len ib)))"

definition tracker_ok :: "incoming_blob \<Rightarrow> bool" where
  "tracker_ok ib \<longleftrightarrow> ib_total_len ib \<le> MAX_INCOMING_BLOB_BYTES \<and> distinct (ib_seen ib)
     \<and> list_all (\<lambda>off. chunk_offset_is_admissible off (ib_total_len ib)) (ib_seen ib)
     \<and> unat (ib_received ib) = counted ib"

text \<open>The bytes an admissible chunk covers lie inside the blob, and two chunks never overlap.\<close>

definition chunk_span :: "u64 \<Rightarrow> u64 \<Rightarrow> nat set" where
  "chunk_span t off = {unat off..<unat off + unat (expected_chunk_len off t)}"

lemma expected_nat: "chunk_offset_is_admissible off t \<Longrightarrow>
    unat (expected_chunk_len off t) = min (unat BLOB_CHUNK_SIZE) (unat t - unat off)"
  by (cases "t = 0") (auto simp: expected_chunk_len_def chunk_offset_is_admissible_def min_def word_le_nat_alt unat_sub
      word_less_nat_alt split: if_splits)

lemma admissible_nat:
  "chunk_offset_is_admissible off t \<Longrightarrow> unat off \<le> unat t \<and> unat BLOB_CHUNK_SIZE dvd unat off"
  by (auto simp: chunk_offset_is_admissible_def word_less_nat_alt unat_mod_distrib mod_eq_0_iff_dvd [symmetric]
      unat_eq_zero [symmetric] simp del: unat_eq_zero split: if_splits dest!: arg_cong [of _ 0 unat])

lemma chunk_span_inside: "chunk_offset_is_admissible off t \<Longrightarrow> chunk_span t off \<subseteq> {..<unat t}"
  using admissible_nat [of off t] by (auto simp: chunk_span_def expected_nat)

lemma chunk_span_disjoint:
  assumes "chunk_offset_is_admissible a t" "chunk_offset_is_admissible b t" "a \<noteq> b"
  shows "chunk_span t a \<inter> chunk_span t b = {}"
proof -
  let ?c = "unat BLOB_CHUNK_SIZE"
  obtain i j where ij: "unat a = ?c * i" "unat b = ?c * j"
    using admissible_nat [OF assms(1)] admissible_nat [OF assms(2)] by (auto elim!: dvdE)
  have "unat a \<noteq> unat b" using assms(3) by (simp add: word_unat_eq_iff)
  then consider "Suc i \<le> j" | "Suc j \<le> i" using ij by (metis nat_neq_iff Suc_le_eq)
  then have "?c * Suc i \<le> ?c * j \<or> ?c * Suc j \<le> ?c * i" by cases (metis mult_le_mono2)+
  then show ?thesis using ij by (auto simp: chunk_span_def expected_nat assms)
qed

lemma counted_le:
  assumes "distinct xs" "list_all (\<lambda>off. chunk_offset_is_admissible off t) xs"
  shows "(\<Sum>off \<leftarrow> xs. unat (expected_chunk_len off t)) \<le> unat t"
proof -
  have "(\<Sum>off \<leftarrow> xs. unat (expected_chunk_len off t)) = (\<Sum>off \<in> set xs. card (chunk_span t off))"
    using assms(1) by (simp add: sum_list_distinct_conv_sum_set chunk_span_def)
  also have "\<dots> = card (\<Union>off \<in> set xs. chunk_span t off)"
    using assms(2) chunk_span_disjoint by (intro card_UN_disjoint [symmetric]) (blast | simp add: chunk_span_def list_all_iff)+
  also have "\<dots> \<le> card {..<unat t}"
    using assms(2) chunk_span_inside by (intro card_mono) (auto simp: list_all_iff)
  finally show ?thesis by simp
qed

lemma seen_bound:
  assumes "distinct xs" "list_all (\<lambda>off. chunk_offset_is_admissible off t) xs" "t \<noteq> 0"
  shows "length xs \<le> chunk_slots t"
proof -
  let ?c = "unat BLOB_CHUNK_SIZE"
  have c: "?c = 1048576" by (simp add: BLOB_CHUNK_SIZE_def)
  have "inj_on (\<lambda>off. unat off div ?c) (set xs)"
    using assms(2) admissible_nat by (auto simp: inj_on_def list_all_iff) (metis dvd_mult_div_cancel word_unat_eq_iff)
  moreover have "(\<lambda>off. unat off div ?c) ` set xs \<subseteq> {..<chunk_slots t}"
  proof
    fix i assume "i \<in> (\<lambda>off. unat off div ?c) ` set xs"
    then obtain off where off: "off \<in> set xs" "i = unat off div ?c" by auto
    have "off < t" using assms(2,3) off(1) by (auto simp: list_all_iff chunk_offset_is_admissible_def)
    then have "unat off < unat t" by (simp add: word_less_nat_alt)
    then show "i \<in> {..<chunk_slots t}" using off(2) by (simp add: chunk_slots_def c) 
  qed
  ultimately have "card (set xs) \<le> card {..<chunk_slots t}" by (intro card_inj_on_le) auto
  then show ?thesis using assms(1) by (simp add: distinct_card)
qed

section \<open>Every frame keeps the table well formed\<close>

definition trackers_ok :: "('s, 'd, 'v) engine \<Rightarrow> bool" where
  "trackers_ok e \<longleftrightarrow> list_all (\<lambda>(h, ib). tracker_ok ib \<and> ib_received ib < ib_total_len ib) (en_incoming e)"

definition keeps_trackers :: "('s, 'd, 'v) engine \<Rightarrow> ('s, 'd, 'v) engine \<Rightarrow> bool" where
  "keeps_trackers e e' \<longleftrightarrow> (trackers_ok e \<longrightarrow> trackers_ok e')"

interpretation track: frame_rule keeps_trackers
  by unfold_locales (simp_all add: keeps_trackers_def)

lemma track_other:
  "upholds keeps_trackers (on_store m)" "upholds keeps_trackers (send p f)" "upholds keeps_trackers (emit ev)"
  "upholds keeps_trackers notify_changed" "upholds keeps_trackers (ensure_offset p)"
  "upholds keeps_trackers (change (\<lambda>e. e\<lparr>en_connected := f1 e\<rparr>))"
  "upholds keeps_trackers (change (\<lambda>e. e\<lparr>en_sent_offsets := f2 e\<rparr>))"
  "upholds keeps_trackers (change (\<lambda>e. e\<lparr>en_acked_versions := f3 e\<rparr>))"
  by (simp_all add: upholds_def keeps_trackers_def trackers_ok_def send_def notify_changed_def ensure_offset_def)

lemmas track_rules = track.rules track_other

lemma track_held: "upholds keeps_trackers (held_logs ex ps)"
  by (induction ps) (auto intro!: track_rules)

lemma track_serve: "upholds keeps_trackers (serve_chunks E n p h t off)"
  by (induction n arbitrary: off) (auto intro!: track_rules)

lemma track_bundle: "upholds keeps_trackers (send_bundle E p)"
  unfolding send_bundle_def gather_offer_def held_peer_logs_def held_keylogs_def send_offer_def
  by (auto intro!: track_rules track_held)

lemma track_sessions:
  "upholds keeps_trackers (handle_hello E p v)" "upholds keeps_trackers (handle_have E p b)"
  "upholds keeps_trackers (handle_roster_ops E p b)" "upholds keeps_trackers (handle_roster_have E p)"
  "upholds keeps_trackers (handle_keylog_have E p)"
  unfolding handle_hello_def handle_have_def push_logs_def held_peer_logs_def held_keylogs_def offer_snapshots_def held_ids_def Let_def
    handle_roster_ops_def meet_def connect_def handle_roster_have_def handle_keylog_have_def
  by (auto intro!: track_rules track_held track_bundle)

lemma track_stores:
  "upholds keeps_trackers (handle_ops E p b)" "upholds keeps_trackers (handle_keylog_ops E p b)"
  "upholds keeps_trackers (serve_blob E p h)" "upholds keeps_trackers (take_blob_data E h b)"
  "upholds keeps_trackers (handle_snapshot_have E p ids)" "upholds keeps_trackers (handle_snapshot_want E p i)"
  "upholds keeps_trackers (handle_snapshot_data E p b)"
  unfolding handle_ops_def handle_keylog_ops_def serve_blob_def take_blob_data_def wants_bytes_def held_ids_def Let_def
    handle_snapshot_have_def handle_snapshot_want_def handle_snapshot_data_def case_prod_beta
  by (auto intro!: track_rules track_serve split: option.split adopt_outcome.split)

lemma count_chunk_ok:
  assumes "t \<le> MAX_INCOMING_BLOB_BYTES" "chunk_is_admissible off t n" "\<And>ib. entry = Some ib \<Longrightarrow> tracker_ok ib"
  shows "tracker_ok (count_chunk t off n entry)"
proof -
  define ib where "ib = (case entry of Some ib \<Rightarrow> ib | None \<Rightarrow> \<lparr>ib_total_len = t, ib_received = 0, ib_seen = []\<rparr>)"
  have ok: "tracker_ok ib"
    using assms(1,3) by (cases entry) (simp_all add: ib_def tracker_ok_def counted_def)
  show ?thesis
  proof (cases "ib_total_len ib = t \<and> off \<notin> set (ib_seen ib)")
    case True
    have adm: "list_all (\<lambda>off. chunk_offset_is_admissible off t) (off # ib_seen ib)" "distinct (off # ib_seen ib)"
      using ok True assms(2) by (auto simp: tracker_ok_def chunk_is_admissible_def)
    have "unat (ib_received ib) + unat (expected_chunk_len off t) \<le> unat t"
      using counted_le [OF adm(2,1)] ok True by (simp add: tracker_ok_def counted_def)
    moreover have "unat t < 2 ^ 64" using unsigned_less [of t] by simp
    ultimately have "unat (ib_received ib + expected_chunk_len off t) = unat (ib_received ib) + unat (expected_chunk_len off t)"
      by (intro unat_add_lem [THEN iffD1]) simp
    then show ?thesis
      using True ok adm assms(2) by (simp add: count_chunk_def ib_def [symmetric] tracker_ok_def counted_def chunk_is_admissible_def)
  next
    case False
    then show ?thesis using ok by (auto simp: count_chunk_def ib_def [symmetric] Let_def)
  qed
qed

lemma bt_insert_all: "list_all P m \<Longrightarrow> P (k, v) \<Longrightarrow> list_all P (bt_insert k v m)"
  unfolding bt_insert_def by (induction m) auto

lemma bt_remove_all: "list_all P m \<Longrightarrow> list_all P (bt_remove k m)"
  by (auto simp: bt_remove_def list_all_iff)

lemma bt_remove_insert_all: "list_all P m \<Longrightarrow> list_all P (bt_remove k (bt_insert k v m))"
  unfolding bt_insert_def by (induction m) (auto simp: bt_remove_def list_all_iff split: if_splits)

lemma bt_get_all: "list_all P m \<Longrightarrow> bt_get m k = Some v \<Longrightarrow> P (k, v)"
  by (auto simp: bt_get_def list_all_iff dest: map_of_SomeD)

lemma finish_incoming: "en_incoming (exec (finish_blob E h) e) = bt_remove h (en_incoming e)"
  by (simp add: finish_blob_def notify_changed_def)

lemma track_chunk: "upholds keeps_trackers (take_blob_chunk E h off t b)"
  unfolding upholds_def keeps_trackers_def
proof (intro allI impI)
  fix e :: "('a, 'b, 'c) engine"
  assume ok: "trackers_ok e"
  define ib where "ib = count_chunk t off (length b) (bt_get (en_incoming e) h)"
  let ?m = "bt_insert h ib (en_incoming e)"
  show "trackers_ok (exec (take_blob_chunk E h off t b) e)"
  proof (cases "t \<le> MAX_INCOMING_BLOB_BYTES \<and> chunk_is_admissible off t (length b)")
    case True
    then have "tracker_ok ib"
      using ok bt_get_all [of _ "en_incoming e" h] by (fastforce simp: ib_def trackers_ok_def intro!: count_chunk_ok)
    then have "trackers_ok (e'\<lparr>en_incoming := if ib_received ib \<ge> ib_total_len ib then bt_remove h ?m else ?m\<rparr>)" for e' :: "('a, 'b, 'c) engine"
      using ok by (auto simp: trackers_ok_def not_le intro!: bt_remove_insert_all bt_insert_all)
    moreover have "en_incoming (exec (take_blob_chunk E h off t b) e)
        \<in> {en_incoming e, if ib_received ib \<ge> ib_total_len ib then bt_remove h ?m else ?m}"
      using True by (auto simp: take_blob_chunk_def ib_def [symmetric] wants_bytes_def finish_incoming split: sum.split)
    ultimately show ?thesis using ok by (auto simp: trackers_ok_def)
  next
    case False
    then show ?thesis using ok by (auto simp: take_blob_chunk_def not_less)
  qed
qed

lemma track_handle: "upholds keeps_trackers (handle E p f)"
  by (cases f) (auto intro!: track_rules track_sessions track_stores track_chunk)

text \<open>
  C24: Whatever frames arrive, in whatever order and from whomever, every entry of the table of
  incoming blobs stays well formed: the announced length is within the limit, the offsets seen are
  distinct and are starts of chunks of a blob of that length, the byte count is exactly the length of
  those chunks with no wrap-around and falls short of the announced length, and at most 16384 offsets
  are remembered.
\<close>

theorem incoming_blobs_well_formed:
  "list_all (\<lambda>(h, ib). tracker_ok ib \<and> ib_received ib < ib_total_len ib \<and> length (ib_seen ib) \<le> 16384)
     (en_incoming (exec (run E frames) (engine_new st)))"
proof -
  have "length (ib_seen ib) \<le> 16384" if ib: "tracker_ok ib" "ib_received ib < ib_total_len ib" for ib
  proof -
    have "length (ib_seen ib) \<le> chunk_slots (ib_total_len ib)"
      using ib by (intro seen_bound) (auto simp: tracker_ok_def)
    also have "\<dots> \<le> 16384"
      using ib(1) div_le_mono [of "1048575 + unat (ib_total_len ib)" "1048575 + 17179869184" 1048576]
      by (auto simp: tracker_ok_def chunk_slots_def word_le_nat_alt MAX_INCOMING_BLOB_BYTES_def BLOB_CHUNK_SIZE_def)
    finally show ?thesis .
  qed
  moreover have "keeps_trackers (engine_new st) (exec (run E frames) (engine_new st))"
    by (intro upholdsD track.run track_handle)
  ultimately show ?thesis by (auto simp: keeps_trackers_def trackers_ok_def engine_new_def list_all_iff)
qed

end
