(* ===== verification/Vault_Path.thy ===== *)
theory Vault_Path
  imports Store_History File_Set
begin

text \<open>
  Container ids of vault files (\<open>roam-files/src/path.rs\<close>) and the errors of the crate
  (\<open>roam-files/src/error.rs\<close>). A container id is the path of a file relative to the vault root, with
  slashes, in Unicode normal form; the normal form is the parameter \<open>nfc\<close>. File names are Unicode
  strings, so the lossy conversion of other names does not occur.
\<close>

text \<open>\<open>FilesPanic\<close> stands for an index out of range in the text merge and for a directory walk that runs
  out of fuel; the other values are the variants of the source.\<close>

datatype files_error =
    FilesStorage storage_error
  | FilesIo io_kind
  | PathEscapesVault path
  | SidecarError
  | EntryError
  | FilesNotFound path
  | Desync
  | DirtyFile path
  | CaseCollision ustr ustr
  | ReservedName ustr
  | NoBlobHistory path
  | ReadOnly
  | FilesPanic

section \<open>Container ids\<close>

definition path_is_absolute :: "path \<Rightarrow> bool" where
  "path_is_absolute p \<longleftrightarrow> p \<noteq> [] \<and> hd p = RootDir"

fun normalize_step :: "bool \<Rightarrow> component \<Rightarrow> ustr list \<Rightarrow> ustr list" where
  "normalize_step absolute (Normal part) parts = parts @ [part]"
| "normalize_step absolute ParentDir parts =
     (if parts \<noteq> [] \<and> last parts \<noteq> [dot, dot] then butlast parts
      else if \<not> absolute then parts @ [[dot, dot]]
      else parts)"
| "normalize_step absolute CurDir parts = parts"
| "normalize_step absolute RootDir parts = parts"

definition lexical_normalize :: "path \<Rightarrow> ustr list" where
  "lexical_normalize p = fold (normalize_step (path_is_absolute p)) p []"

definition container_id :: "(ustr \<Rightarrow> ustr) \<Rightarrow> path \<Rightarrow> path \<Rightarrow> (files_error, ustr) res" where
  "container_id nfc vault_root file =
     (let remainder = (case strip_prefix vault_root file of Some r \<Rightarrow> r | None \<Rightarrow> file);
          combined = path_join vault_root remainder;
          root_parts = lexical_normalize vault_root;
          file_parts = lexical_normalize combined in
      if [dot, dot] \<in> set file_parts then Inl (PathEscapesVault file)
      else if length file_parts < length root_parts \<or> take (length root_parts) file_parts \<noteq> root_parts
      then Inl (PathEscapesVault file)
      else let key = nfc (str_join [slash] (drop (length root_parts) file_parts)) in
           if key = FILESET_MAP_ID then Inl (ReservedName key) else Inr key)"

definition key_to_path :: "path \<Rightarrow> ustr \<Rightarrow> path" where
  "key_to_path vault_root key = fold (\<lambda>c p. path_join p (path_of_str c)) (str_split slash key) vault_root"

section \<open>Keys name paths inside the vault\<close>

text \<open>
  What is used of Unicode normal form C: it is idempotent, a slash neither composes nor decomposes,
  and the form of a file name is a file name.
\<close>

definition nfc_laws :: "(ustr \<Rightarrow> ustr) \<Rightarrow> bool" where
  "nfc_laws nfc \<longleftrightarrow> nfc [] = [] \<and> (\<forall>s. nfc (nfc s) = nfc s)
     \<and> (\<forall>a b. nfc (a @ slash # b) = nfc a @ slash # nfc b)
     \<and> (\<forall>n. comp_ok (Normal n) \<longrightarrow> comp_ok (Normal (nfc n)))"

lemma nfc_join:
  assumes "nfc_laws nfc"
  shows "nfc (str_join [slash] ns) = str_join [slash] (map nfc ns)"
proof (induction "[slash]" ns rule: str_join.induct)
  case (3 p q ps)
  have "nfc (p @ slash # str_join [slash] (q # ps)) = nfc p @ slash # nfc (str_join [slash] (q # ps))"
    using assms unfolding nfc_laws_def by blast
  then show ?case using 3 by simp
qed (use assms in \<open>simp_all add: nfc_laws_def\<close>)

lemma path_join_names: "path_join p (map Normal ns) = p @ map Normal ns"
  by (induction ns arbitrary: p) (simp_all add: path_join_def path_push_def)

lemma normalize_names: "fold (normalize_step b) (map Normal ns) parts = parts @ ns"
  by (induction ns arbitrary: parts) simp_all

lemma lexical_normalize_names: "lexical_normalize (p @ map Normal ns) = lexical_normalize p @ ns"
  by (cases p; cases ns) (simp_all add: lexical_normalize_def path_is_absolute_def normalize_names)

lemma key_to_path_names:
  assumes "list_all (\<lambda>n. comp_ok (Normal n)) ns"
  shows "key_to_path root (str_join [slash] ns) = root @ map Normal ns"
proof (cases "ns = []")
  case True
  then show ?thesis by (simp add: key_to_path_def str_split_def path_of_str_def path_join_def)
next
  case False
  have "str_split slash (str_join [slash] ns) = ns"
    by (rule str_split_join) (use assms False in \<open>auto simp: list_all_iff\<close>)
  moreover have "fold (\<lambda>c p. path_join p (path_of_str c)) ns p = p @ map Normal ns" for p
    using assms
  proof (induction ns arbitrary: p)
    case (Cons n ns)
    then have "path_of_str n = [Normal n]" by (intro path_of_name) auto
    then show ?case using Cons path_join_names [of p "[n]"] by simp
  qed simp
  ultimately show ?thesis by (simp add: key_to_path_def)
qed

lemma normalize_parts:
  assumes "list_all (\<lambda>c. comp_ok c \<or> c = CurDir \<or> c = RootDir) p"
    "list_all (\<lambda>n. n = [dot, dot] \<or> comp_ok (Normal n)) parts"
  shows "list_all (\<lambda>n. n = [dot, dot] \<or> comp_ok (Normal n)) (fold (normalize_step b) p parts)"
  using assms
proof (induction p arbitrary: parts)
  case (Cons c p)
  have "list_all (\<lambda>n. n = [dot, dot] \<or> comp_ok (Normal n)) (normalize_step b c parts)"
    using Cons.prems by (cases c) (auto simp: list_all_iff dest: in_set_butlastD)
  then show ?case using Cons by simp
qed simp

lemma path_ok_components: "path_ok p \<Longrightarrow> list_all (\<lambda>c. comp_ok c \<or> c = CurDir \<or> c = RootDir) p"
  by (cases p) (auto simp: path_ok_def list_all_iff)

lemma path_join_components: "list_all P p \<Longrightarrow> list_all P q \<Longrightarrow> list_all P (path_join p q)"
  by (induction q arbitrary: p) (auto simp: path_join_def path_push_def)

lemma container_id_names:
  assumes "path_ok root" "path_ok file" "container_id nfc root file = Inr k"
  obtains ns where "k = nfc (str_join [slash] ns)" "list_all (\<lambda>n. comp_ok (Normal n)) ns"
    "[dot, dot] \<notin> set (lexical_normalize root)"
proof -
  define rest where "rest = (case strip_prefix root file of Some r \<Rightarrow> r | None \<Rightarrow> file)"
  define parts where "parts = lexical_normalize (path_join root rest)"
  let ?r = "lexical_normalize root"
  have k: "[dot, dot] \<notin> set parts" "take (length ?r) parts = ?r" "k = nfc (str_join [slash] (drop (length ?r) parts))"
    using assms(3) by (auto simp: container_id_def parts_def rest_def Let_def split: if_splits)
  have "list_all (\<lambda>c. comp_ok c \<or> c = CurDir \<or> c = RootDir) rest"
    using path_ok_components [OF assms(2)] by (auto simp: rest_def strip_prefix_Some split: option.splits)
  then have "list_all (\<lambda>n. n = [dot, dot] \<or> comp_ok (Normal n)) parts"
    unfolding parts_def lexical_normalize_def
    using path_ok_components [OF assms(1)] by (intro normalize_parts path_join_components) simp_all
  then have "list_all (\<lambda>n. comp_ok (Normal n)) parts" using k(1) by (auto simp: list_all_iff)
  then have "list_all (\<lambda>n. comp_ok (Normal n)) (drop (length ?r) parts)"
    by (auto simp: list_all_iff dest: in_set_dropD)
  moreover have "[dot, dot] \<notin> set ?r" using k(1,2) by (metis in_set_takeD)
  ultimately show thesis using k(3) that by blast
qed

text \<open>A key whose path leaves no trace of \<open>.\<close>, \<open>..\<close> or doubled slashes gets its own name back.\<close>

lemma container_id_of_key:
  assumes "nfc_laws nfc" "[dot, dot] \<notin> set (lexical_normalize root)" "list_all (\<lambda>n. comp_ok (Normal n)) ns"
    "nfc (str_join [slash] ns) = str_join [slash] ns" "str_join [slash] ns \<noteq> FILESET_MAP_ID"
  shows "container_id nfc root (key_to_path root (str_join [slash] ns)) = Inr (str_join [slash] ns)"
proof -
  have "strip_prefix root (root @ map Normal ns) = Some (map Normal ns)" by (simp add: strip_prefix_Some)
  moreover have "[dot, dot] \<notin> set ns" using assms(3) by (auto simp: list_all_iff)
  ultimately show ?thesis
    using assms(2,4,5)
    by (simp add: container_id_def key_to_path_names [OF assms(3)] path_join_names lexical_normalize_names Let_def)
qed

text \<open>
  C26: container ids are stable. The id of a vault file, turned back into a path, is a path that
  stays below the vault root without any parent step, and this path has the same id.
\<close>

theorem container_id_stable:
  assumes "nfc_laws nfc" "path_ok root" "path_ok file" "container_id nfc root file = Inr k"
  shows "container_id nfc root (key_to_path root k) = Inr k
    \<and> (\<exists>ns. key_to_path root k = root @ map Normal ns \<and> lexical_normalize (key_to_path root k) = lexical_normalize root @ ns
         \<and> [dot, dot] \<notin> set ns)"
proof
  obtain ns where ns: "k = nfc (str_join [slash] ns)" "list_all (\<lambda>n. comp_ok (Normal n)) ns"
    "[dot, dot] \<notin> set (lexical_normalize root)"
    using container_id_names [OF assms(2-4)] by blast
  have k: "k = str_join [slash] (map nfc ns)" using ns(1) nfc_join [OF assms(1)] by simp
  have ok: "list_all (\<lambda>n. comp_ok (Normal n)) (map nfc ns)"
    using ns(2) assms(1) by (auto simp: nfc_laws_def list_all_iff simp del: comp_ok.simps)
  have "nfc k = k" using ns(1) assms(1) by (simp add: nfc_laws_def)
  moreover have "k \<noteq> FILESET_MAP_ID" using assms(4) by (auto simp: container_id_def Let_def split: if_splits)
  ultimately show "container_id nfc root (key_to_path root k) = Inr k"
    using container_id_of_key [OF assms(1) ns(3) ok] k by simp
  have "[dot, dot] \<notin> set (map nfc ns)" using ok by (auto simp: list_all_iff)
  then show "\<exists>ns. key_to_path root k = root @ map Normal ns
      \<and> lexical_normalize (key_to_path root k) = lexical_normalize root @ ns \<and> [dot, dot] \<notin> set ns"
    using key_to_path_names [OF ok] lexical_normalize_names k by metis
qed

text \<open>ASCII text is in normal form.\<close>

lemma nfc_id_laws: "nfc_laws (\<lambda>s. s)"
  by (simp add: nfc_laws_def)

definition ex_root :: path where "ex_root = [RootDir, Normal (lit ''vault'')]"

definition ex_note :: path where "ex_note = ex_root @ [Normal (lit ''sub''), ParentDir, Normal (lit ''a'')]"

lemma ex_path_ok: "path_ok ex_root" "path_ok ex_note"
  by (simp_all add: ex_root_def ex_note_def path_ok_def lit_def slash_def dot_def valid_str_def scalar_def)

lemma ex_note_id: "container_id (\<lambda>s. s) ex_root ex_note = Inr (lit ''a'')"
  by (simp add: container_id_def ex_root_def ex_note_def path_join_def path_push_def lexical_normalize_def
      path_is_absolute_def lit_def dot_def FILESET_MAP_ID_def Let_def)

theorem container_id_stable_witness:
  "container_id (\<lambda>s. s) ex_root (key_to_path ex_root (lit ''a'')) = Inr (lit ''a'')"
  using container_id_stable [OF nfc_id_laws ex_path_ok ex_note_id] by (rule conjunct1)

text \<open>
  The converse fails: a key that a peer chose freely need not be the id of its own path. The path of
  \<open>sub/../a\<close> has the id \<open>a\<close>.
\<close>

lemma alias_key: "container_id (\<lambda>s. s) ex_root (key_to_path ex_root (lit ''sub/../a'')) = Inr (lit ''a'')"
proof -
  have "key_to_path ex_root (lit ''sub/../a'') = ex_note"
    by (simp add: key_to_path_def str_split_def ex_root_def ex_note_def path_of_str_def path_join_def path_push_def
        lit_def slash_def dot_def)
  then show ?thesis by (simp add: ex_note_id)
qed

end
