(* ===== verification/Sidecar.thy ===== *)
theory Sidecar
  imports Vault_Path Text_Rebase
begin

text \<open>
  Sidecars (\<open>roam-files/src/sidecar.rs\<close>): per file, the text and hash last brought in agreement with
  the document, kept as JSON in a directory of the store. The folder bridge calls \<open>std::fs\<close> itself;
  on the native backend these are the calls of the store's file system, so a bridge operation is an
  operation on the store. What the bridge needs beyond the store's parameters is \<open>bridge_env\<close>: the
  character diff, Unicode normal form, BLAKE3 in hex, the JSON codecs of entries and sidecars, the
  resolution of symbolic links and the type of a directory entry, and the iteration order of a hash
  set.
\<close>

record sidecar =
  sc_version :: u32
  sc_doc_id :: ustr
  sc_last_synced_hash :: ustr
  sc_last_synced_text :: ustr

datatype file_type = RegularFile | Directory | Symlink

record ('s, 'd, 'v, 'f) bridge_env =
  be_vault :: "('s, 'd, 'v, 'f) vault_env"
  be_hist :: hist_codec
  be_differ :: differ
  be_nfc :: "ustr \<Rightarrow> ustr"
  be_hash :: "bytes \<Rightarrow> ustr"
  be_parse_entry :: "ustr \<Rightarrow> file_entry option"
  be_ser_entry :: "file_entry \<Rightarrow> ustr"
  be_parse_sidecar :: "ustr \<Rightarrow> sidecar option"
  be_ser_sidecar :: "sidecar \<Rightarrow> bytes"
  be_canonicalize :: "path \<Rightarrow> 's \<Rightarrow> path option"
  be_file_type :: "path \<Rightarrow> 's \<Rightarrow> (io_kind, file_type) res"
  be_order :: "ustr list \<Rightarrow> ustr list"

type_synonym ('s, 'd, 'v, 'a) files_op = "(('s, 'd, 'v) store, files_error, 'a) op"

abbreviation be_fs :: "('s, 'd, 'v, 'f) bridge_env \<Rightarrow> 's vault_fs" where
  "be_fs E \<equiv> ve_fs (be_vault E)"

definition std_io :: "('s, io_kind, 'a) op \<Rightarrow> ('s, 'd, 'v, 'a) files_op" where
  "std_io m = errE FilesIo (on_disk m)"

section \<open>Paths of sidecars\<close>

text \<open>\<open>PathBuf::push\<close> on the string form, which a later append to the string can see.\<close>

definition str_push :: "ustr \<Rightarrow> ustr \<Rightarrow> ustr" where
  "str_push s c =
     (if c \<noteq> [] \<and> hd c = slash then c
      else if s \<noteq> [] \<and> last s \<noteq> slash then s @ slash # c
      else s @ c)"

definition meta_path :: "string \<Rightarrow> string \<Rightarrow> path \<Rightarrow> ustr \<Rightarrow> path" where
  "meta_path sub suffix meta_dir key =
     path_of_str (fold (\<lambda>c s. str_push s c) (str_split slash key) (str_push (path_to_str meta_dir) (lit sub)) @ lit suffix)"

definition sidecar_path :: "path \<Rightarrow> ustr \<Rightarrow> path" where
  "sidecar_path meta_dir key = meta_path ''sidecars'' ''.roammeta'' meta_dir key"

definition text_hash :: "('s, 'd, 'v, 'f) bridge_env \<Rightarrow> ustr \<Rightarrow> ustr" where
  "text_hash E t = be_hash E (utf8 t)"

section \<open>Loading and storing\<close>

definition sidecar_load :: "('s, 'd, 'v, 'f) bridge_env \<Rightarrow> path \<Rightarrow> ustr \<Rightarrow> ('s, 'd, 'v, sidecar option) files_op" where
  "sidecar_load E meta_dir key st =
     (case on_disk (read_to_string (be_fs E) (sidecar_path meta_dir key)) st of
        (Inl NotFound, st') \<Rightarrow> (Inr None, st')
      | (Inl e, st') \<Rightarrow> (Inl (FilesIo e), st')
      | (Inr json, st') \<Rightarrow>
          (case be_parse_sidecar E json of Some sc \<Rightarrow> (Inr (Some sc), st') | None \<Rightarrow> (Inl SidecarError, st')))"

definition create_parent :: "('s, 'd, 'v, 'f) bridge_env \<Rightarrow> path \<Rightarrow> ('s, 'd, 'v, unit) files_op" where
  "create_parent E p =
     (case path_parent p of Some d \<Rightarrow> std_io (fs_create_dir_all (be_fs E) d) | None \<Rightarrow> returnE ())"

definition temp_of :: "path \<Rightarrow> path" where
  "temp_of p = path_of_str (path_to_str p @ lit ''.tmp'')"

text \<open>The rename that ends an atomic write, with the temporary file removed when it fails.\<close>

definition rename_or_clean :: "('s, 'd, 'v, 'f) bridge_env \<Rightarrow> path \<Rightarrow> path \<Rightarrow> ('s, 'd, 'v, unit) files_op" where
  "rename_or_clean E temp p st =
     (case std_io (fs_rename (be_fs E) temp p) st of
        (Inr _, st') \<Rightarrow> (Inr (), st')
      | (Inl e, st') \<Rightarrow> (Inl e, snd (std_io (fs_remove_file (be_fs E) temp) st')))"

definition sidecar_store :: "('s, 'd, 'v, 'f) bridge_env \<Rightarrow> path \<Rightarrow> ustr \<Rightarrow> sidecar \<Rightarrow> ('s, 'd, 'v, unit) files_op" where
  "sidecar_store E meta_dir key sc =
     (let p = sidecar_path meta_dir key; temp = temp_of p in
      bindE (create_parent E p) (\<lambda>_.
      bindE (std_io (fs_write (be_fs E) temp (be_ser_sidecar E sc))) (\<lambda>_.
      rename_or_clean E temp p)))"

section \<open>Files never share a sidecar\<close>

lemma join_snoc: "ps \<noteq> [] \<Longrightarrow> str_join sep (ps @ [p]) = str_join sep ps @ sep @ p"
  by (induction sep ps rule: str_join.induct) auto

lemma join_last:
  "ps \<noteq> [] \<Longrightarrow> last ps \<noteq> [] \<Longrightarrow> str_join sep ps \<noteq> [] \<and> last (str_join sep ps) = last (last ps)"
proof (induction sep ps rule: str_join.induct)
  case (3 sep p q ps)
  then show ?case by (simp add: last_append)
qed auto

lemma path_to_str_snoc:
  assumes "path_ok p" "comp_ok (Normal n)"
  shows "path_to_str (p @ [Normal n]) = str_push (path_to_str p) n"
proof -
  have n: "n \<noteq> []" "hd n \<noteq> slash" using assms(2) hd_in_set by fastforce+
  have join: "str_join [slash] (map comp_str (cs @ [Normal n])) = str_push (str_join [slash] (map comp_str cs)) n"
    if "cs \<noteq> []" "comp_ok (last cs) \<or> last cs = CurDir" for cs
  proof -
    have "last (comp_str (last cs)) \<in> set (comp_str (last cs))" "comp_str (last cs) \<noteq> []"
      using comp_str_no_slash [OF that(2)] by auto
    then have "last (comp_str (last cs)) \<noteq> slash" using comp_str_no_slash [OF that(2)] by metis
    then show ?thesis
      using that(1) n join_last [of "map comp_str cs" "[slash]"] \<open>comp_str (last cs) \<noteq> []\<close>
      by (simp add: join_snoc last_map str_push_def)
  qed
  show ?thesis
  proof (cases p)
    case Nil
    then show ?thesis using n by (simp add: str_push_def)
  next
    case (Cons c cs)
    have cs: "list_all comp_ok cs" using assms(1) Cons by (simp add: path_ok_def)
    then have lst: "cs \<noteq> [] \<Longrightarrow> comp_ok (last cs)" by (simp add: list_all_iff)
    show ?thesis
    proof (cases "c = RootDir")
      case True
      have "str_push (slash # x) n = slash # str_push x n" if "x \<noteq> []" for x
        using n that by (simp add: str_push_def)
      moreover have "str_join [slash] (map comp_str cs) \<noteq> []" if "cs \<noteq> []"
        using join_last [of "map comp_str cs" "[slash]"] comp_str_no_slash [of "last cs"] lst that by (simp add: last_map)
      ultimately show ?thesis
        using True Cons join [of cs] lst n by (cases "cs = []") (simp_all add: str_push_def)
    next
      case False
      then have c: "comp_ok c \<or> c = CurDir" using assms(1) Cons by (auto simp: path_ok_def)
      have str: "path_to_str (c # xs) = str_join [slash] (map comp_str (c # xs))" for xs using False by (cases c) auto
      have "comp_ok (last p) \<or> last p = CurDir" using c lst Cons by (cases "cs = []") auto
      then show ?thesis using join [of p] str [of cs] str [of "cs @ [Normal n]"] Cons by simp
    qed
  qed
qed

lemma path_ok_name: "path_ok p \<Longrightarrow> comp_ok (Normal n) \<Longrightarrow> path_ok (p @ [Normal n])"
  by (cases p) (auto simp: path_ok_def)

lemma push_names:
  assumes "path_ok p" "list_all (\<lambda>n. comp_ok (Normal n)) ns"
  shows "fold (\<lambda>c s. str_push s c) ns (path_to_str p) = path_to_str (p @ map Normal ns) \<and> path_ok (p @ map Normal ns)"
  using assms
proof (induction ns arbitrary: p)
  case (Cons n ns)
  then show ?case using Cons.IH [of "p @ [Normal n]"] path_ok_name [of p n] path_to_str_snoc [of p n] by simp
qed simp

lemma meta_path_names:
  assumes "path_ok m" "list_all (\<lambda>n. comp_ok (Normal n)) (ns @ [n])" "comp_ok (Normal (lit sub))" "comp_ok (Normal (n @ lit suffix))"
  shows "meta_path sub suffix m (str_join [slash] (ns @ [n])) = m @ Normal (lit sub) # map Normal ns @ [Normal (n @ lit suffix)]"
proof -
  let ?q = "m @ Normal (lit sub) # map Normal ns"
  have m: "path_ok (m @ [Normal (lit sub)])" using path_ok_name [OF assms(1,3)] .
  then have q: "path_ok ?q" using push_names [OF m, of ns] assms(2) by simp
  have split: "str_split slash (str_join [slash] (ns @ [n])) = ns @ [n]"
    by (rule str_split_join) (use assms(2) in \<open>auto simp: list_all_iff\<close>)
  have "fold (\<lambda>c s. str_push s c) (ns @ [n]) (str_push (path_to_str m) (lit sub)) = path_to_str (?q @ [Normal n])"
    using push_names [OF m assms(2)] path_to_str_snoc [OF assms(1,3)] by simp
  also have "\<dots> @ lit suffix = path_to_str (?q @ [Normal (n @ lit suffix)])"
    using path_to_str_snoc [OF q, of n] path_to_str_snoc [OF q assms(4)] assms(2) by (auto simp: str_push_def hd_append)
  finally show ?thesis
    unfolding meta_path_def split using path_of_to_str [OF path_ok_name [OF q assms(4)]] by simp
qed

text \<open>A suffix keeps a name a name.\<close>

lemma comp_ok_suffix:
  assumes "comp_ok (Normal n)" "valid_str s" "slash \<notin> set s" "2 \<le> length s"
  shows "comp_ok (Normal (n @ s))"
proof -
  have "2 < length (n @ s)" using assms(1,4) by (cases n) auto
  then have "n @ s \<noteq> [dot]" "n @ s \<noteq> [dot, dot]" by (auto dest: arg_cong [where f = length])
  then show ?thesis using assms by (simp add: valid_str_def)
qed

definition clean_key :: "ustr \<Rightarrow> bool" where
  "clean_key k \<longleftrightarrow> (\<exists>ns. ns \<noteq> [] \<and> k = str_join [slash] ns \<and> list_all (\<lambda>n. comp_ok (Normal n)) ns)"

lemma meta_path_inj:
  assumes "path_ok m" "clean_key k" "clean_key k'" "meta_path sub suffix m k = meta_path sub suffix m k'"
    "comp_ok (Normal (lit sub))" "valid_str (lit suffix)" "slash \<notin> set (lit suffix)" "2 \<le> length (lit suffix)"
  shows "k = k'"
proof -
  obtain ns n ns' n' where k: "k = str_join [slash] (ns @ [n])" "list_all (\<lambda>n. comp_ok (Normal n)) (ns @ [n])"
    and k': "k' = str_join [slash] (ns' @ [n'])" "list_all (\<lambda>n. comp_ok (Normal n)) (ns' @ [n'])"
    using assms(2,3) unfolding clean_key_def by (metis append_butlast_last_id)
  have "comp_ok (Normal (n @ lit suffix))" "comp_ok (Normal (n' @ lit suffix))"
    using comp_ok_suffix [OF _ assms(6-8)] k(2) k'(2) by (simp_all del: comp_ok.simps)
  then have "map Normal ns @ [Normal (n @ lit suffix)] = map Normal ns' @ [Normal (n' @ lit suffix)]"
    using assms(4) meta_path_names [OF assms(1) k(2) assms(5)] meta_path_names [OF assms(1) k'(2) assms(5)] k(1) k'(1) by simp
  then have "map Normal ns = map Normal ns'" "n = n'" by auto
  then show ?thesis using k(1) k'(1) by (metis component.inject list.inj_map_strong)
qed

lemma sidecar_path_inj:
  assumes "path_ok m" "clean_key k" "clean_key k'" "sidecar_path m k = sidecar_path m k'"
  shows "k = k'"
  by (rule meta_path_inj [OF assms(1-3) assms(4) [unfolded sidecar_path_def]])
     (simp_all add: lit_def slash_def dot_def valid_str_def scalar_def)

section \<open>What an atomic write leaves\<close>

text \<open>The JSON of a sidecar is text that reads back as the sidecar.\<close>

definition sidecar_laws :: "('s, 'd, 'v, 'f) bridge_env \<Rightarrow> sidecar set \<Rightarrow> bool" where
  "sidecar_laws E S \<longleftrightarrow> (\<forall>sc \<in> S. \<exists>t. be_ser_sidecar E sc = utf8 t \<and> valid_str t \<and> be_parse_sidecar E t = Some sc)"

context lawful_fs
begin

lemma create_parent_ok:
  assumes "be_fs E = fs" "ok (st_disk st)"
  shows "\<exists>s'. create_parent E p st = (Inr (), st\<lparr>st_disk := s'\<rparr>) \<and> ok s' \<and> files s' = files (st_disk st)
    \<and> (\<forall>q. room (st_disk st) q \<longrightarrow> room s' q)"
proof (cases "path_parent p")
  case None
  then have "create_parent E p st = (Inr (), st\<lparr>st_disk := st_disk st\<rparr>)" by (simp add: create_parent_def returnE_def)
  then show ?thesis using assms(2) by blast
next
  case (Some d)
  obtain s' where s': "fs_create_dir_all fs d (st_disk st) = (Inr (), s')" "ok s'" "files s' = files (st_disk st)"
    using create_dir_all_law [OF assms(2), of d] by (auto simp: ok_step_def)
  then show ?thesis
    using Some room_dirs [OF assms(2) s'(1)] by (auto simp: create_parent_def std_io_def errE_def on_disk_def assms(1))
qed

lemma write_rename_ok:
  assumes fs: "be_fs E = fs" "ok (st_disk st)" and p: "okp temp" "okp p" "room (st_disk st) temp" "temp \<noteq> p"
  shows "\<exists>s'. bindE (std_io (fs_write (be_fs E) temp b)) (\<lambda>_. rename_or_clean E temp p) st = (Inr (), st\<lparr>st_disk := s'\<rparr>)
    \<and> ok s' \<and> files s' = (files (st_disk st))(temp := None, p \<mapsto> b)"
proof -
  obtain s1 where s1: "fs_write fs temp b (st_disk st) = (Inr (), s1)" "ok s1" "files s1 = (files (st_disk st))(temp \<mapsto> b)"
    using write_law [OF fs(2) p(1,3), of b] by (auto simp: ok_step_def)
  have "files s1 temp = Some b" using s1(3) by simp
  then obtain s2 where s2: "fs_rename fs temp p s1 = (Inr (), s2)" "ok s2" "files s2 = (files s1)(temp := None, p \<mapsto> b)"
    using rename_law [OF s1(2) _ p(2,4)] by (auto simp: ok_step_def)
  then show ?thesis
    using s1 by (auto simp: bindE_def std_io_def errE_def on_disk_def rename_or_clean_def fs(1))
qed

lemma sidecar_store_ok:
  fixes E :: "('s, 'd, 'v, 'f) bridge_env"
  assumes fs: "be_fs E = fs" "ok (st_disk st)"
    and p: "okp (sidecar_path m k)" "okp (temp_of (sidecar_path m k))" "room (st_disk st) (temp_of (sidecar_path m k))"
      "temp_of (sidecar_path m k) \<noteq> sidecar_path m k"
  shows "\<exists>s'. sidecar_store E m k sc st = (Inr (), st\<lparr>st_disk := s'\<rparr>) \<and> ok s'
    \<and> files s' = (files (st_disk st))(temp_of (sidecar_path m k) := None, sidecar_path m k \<mapsto> be_ser_sidecar E sc)"
proof -
  obtain s1 where s1: "create_parent E (sidecar_path m k) st = (Inr (), st\<lparr>st_disk := s1\<rparr>)" "ok s1"
    "files s1 = files (st_disk st)" "room s1 (temp_of (sidecar_path m k))"
    using create_parent_ok [OF fs, of "sidecar_path m k"] p(3) by blast
  show ?thesis
    using write_rename_ok [of E "st\<lparr>st_disk := s1\<rparr>", OF fs(1) _ p(2,1) _ p(4)] s1
    by (simp add: sidecar_store_def Let_def)
qed

lemma sidecar_load_ok:
  fixes E :: "('s, 'd, 'v, 'f) bridge_env"
  assumes "be_fs E = fs" "ok (st_disk st)" "sidecar_laws E S" "sc \<in> S"
  shows "files (st_disk st) (sidecar_path m k) = None \<Longrightarrow> sidecar_load E m k st = (Inr None, st)"
    "files (st_disk st) (sidecar_path m k) = Some (be_ser_sidecar E sc) \<Longrightarrow> sidecar_load E m k st = (Inr (Some sc), st)"
proof -
  show "files (st_disk st) (sidecar_path m k) = None \<Longrightarrow> sidecar_load E m k st = (Inr None, st)"
    using read_to_string_ok [OF assms(2), of "sidecar_path m k"] by (simp add: sidecar_load_def on_disk_def assms(1))
  obtain t where "be_ser_sidecar E sc = utf8 t" "valid_str t" "be_parse_sidecar E t = Some sc"
    using assms(3,4) unfolding sidecar_laws_def by blast
  then show "files (st_disk st) (sidecar_path m k) = Some (be_ser_sidecar E sc) \<Longrightarrow> sidecar_load E m k st = (Inr (Some sc), st)"
    using read_to_string_ok [OF assms(2), of "sidecar_path m k"] by (simp add: sidecar_load_def on_disk_def assms(1))
qed

end

end
