(* ===== verification/Store_View.thy ===== *)
theory Store_View
  imports Store_History
begin

text \<open>
  What an application reads from a store (\<open>roam-storage/src/store.rs\<close>, \<open>roam-crdt/src/doc.rs\<close>): texts and
  entries, the version list of a text, the map keys a sync moved, reverting a text, and the bytes a
  vault takes on disk. The calls of loro on the history of a document are the parameter \<open>loro_hist\<close>.
\<close>

section \<open>Texts and entries\<close>

definition store_text :: "('s, 'd, 'v, 'f) vault_env \<Rightarrow> ustr \<Rightarrow> ('s, 'd, 'v) store \<Rightarrow> ustr" where
  "store_text V i st = doc_text (ve_loro V) i (st_doc st)"

definition get_entry :: "('s, 'd, 'v, 'f) vault_env \<Rightarrow> ustr \<Rightarrow> ustr \<Rightarrow> ('s, 'd, 'v) store \<Rightarrow> ustr option" where
  "get_entry V m k st = doc_get_entry (ve_loro V) m k (st_doc st)"

definition store_entries :: "('s, 'd, 'v, 'f) vault_env \<Rightarrow> ustr \<Rightarrow> ('s, 'd, 'v) store \<Rightarrow> (ustr \<times> ustr) list" where
  "store_entries V m st = doc_entries (ve_loro V) m (st_doc st)"

section \<open>Changes of a document\<close>

datatype container_type = TextContainer | MapContainer | OtherContainer

datatype loro_container = RootContainer ustr container_type | NormalContainer peer nat

datatype text_span = SpanRetain nat | SpanInsert ustr | SpanDelete nat

text \<open>An updated key maps to its new value, or to nothing when it was deleted.\<close>

datatype loro_diff = DiffText "text_span list" | DiffMap "(ustr \<times> loro_value option) list" | DiffOther

type_synonym diff_batch = "(loro_container \<times> loro_diff) list"

record loro_change =
  ch_peer :: peer
  ch_counter :: "32 word"
  ch_op_len :: nat
  ch_lamport :: "32 word"
  ch_timestamp :: "64 word"
  ch_containers :: "loro_container list"

record ('d, 'v, 'f) loro_hist =
  lh_text_id :: "ustr \<Rightarrow> loro_container"
  lh_diff :: "'f \<Rightarrow> 'f \<Rightarrow> ('d, unit, diff_batch) op"
  lh_known :: "'f \<Rightarrow> 'd \<Rightarrow> bool"
  lh_apply_diff :: "diff_batch \<Rightarrow> ('d, unit, unit) op"
  lh_changes :: "'v \<Rightarrow> 'd \<Rightarrow> loro_change list"
  lh_frontier :: "peer \<Rightarrow> 32 word \<Rightarrow> 'f"
  lh_empty :: 'f

definition spans_of :: "loro_container \<Rightarrow> loro_container \<times> loro_diff \<Rightarrow> text_span list" where
  "spans_of target c = (if fst c \<noteq> target then [] else case snd c of DiffText ds \<Rightarrow> ds | _ \<Rightarrow> [])"

definition text_delta :: "('d, 'v, 'f) loro_hist \<Rightarrow> ustr \<Rightarrow> 'f \<Rightarrow> 'f \<Rightarrow> ('d, crdt_error, text_span list) op" where
  "text_delta H i from to =
     bindE (loro_call (lh_diff H from to)) (\<lambda>batch. returnE (concat (map (spans_of (lh_text_id H i)) batch)))"

record map_change =
  mc_container :: ustr
  mc_key :: ustr
  mc_value :: "ustr option"

definition string_value :: "loro_value option \<Rightarrow> ustr option" where
  "string_value v = (case v of Some (LString s) \<Rightarrow> Some s | _ \<Rightarrow> None)"

definition map_changes_of :: "loro_container \<times> loro_diff \<Rightarrow> map_change list" where
  "map_changes_of c =
     (case c of
        (RootContainer name MapContainer, DiffMap updated) \<Rightarrow>
          map (\<lambda>(k, v). \<lparr>mc_container = name, mc_key = k, mc_value = string_value v\<rparr>) updated
      | _ \<Rightarrow> [])"

definition map_delta :: "('d, 'v, 'f) loro_hist \<Rightarrow> 'f \<Rightarrow> 'f \<Rightarrow> ('d, crdt_error, map_change list) op" where
  "map_delta H from to =
     bindE (loro_call (lh_diff H from to)) (\<lambda>batch. returnE (concat (map map_changes_of batch)))"

definition store_map_delta :: "('d, 'v, 'f) loro_hist \<Rightarrow> 'f \<Rightarrow> 'f \<Rightarrow> (('s, 'd, 'v) store, storage_error, map_change list) op" where
  "store_map_delta H from to = on_doc (map_delta H from to)"

definition store_frontier :: "('s, 'd, 'v, 'f) vault_env \<Rightarrow> ('s, 'd, 'v) store \<Rightarrow> 'f" where
  "store_frontier V st = lo_oplog_frontiers (ve_loro V) (st_doc st)"

section \<open>Version lists\<close>

record 'f change_info =
  ci_frontier :: 'f
  ci_ts_ms :: "64 word"
  ci_author_peer :: peer

definition change_info_of :: "('d, 'v, 'f) loro_hist \<Rightarrow> loro_change \<Rightarrow> 'f change_info" where
  "change_info_of H c =
     \<lparr>ci_frontier = lh_frontier H (ch_peer c) (ch_counter c + of_nat (ch_op_len c) - 1),
      ci_ts_ms = ch_timestamp c * 1000, ci_author_peer = ch_peer c\<rparr>"

definition text_changes :: "('d, 'v, 'f) loro \<Rightarrow> ('d, 'v, 'f) loro_hist \<Rightarrow> ustr \<Rightarrow> 'd \<Rightarrow> 'f change_info list" where
  "text_changes L H i d =
     (let touching = filter (\<lambda>c. lh_text_id H i \<in> set (ch_containers c)) (lh_changes H (lo_oplog_vv L d) d) in
      map snd (sort_key fst (map (\<lambda>c. (ch_lamport c, change_info_of H c)) touching)))"

datatype version_kind = Created | Edited

record 'f text_version =
  tv_frontier :: 'f
  tv_ts_ms :: "64 word"
  tv_author_peer :: peer
  tv_author_key :: "bytes option"
  tv_kind :: version_kind
  tv_diff :: "text_span list"

text \<open>The loop over the changes, oldest first: each version shows the difference to the one before it.\<close>

fun version_loop :: "('d, 'v, 'f) loro_hist \<Rightarrow> (peer \<Rightarrow> bytes option) \<Rightarrow> ustr \<Rightarrow> version_kind \<Rightarrow> 'f \<Rightarrow> 'f change_info list
    \<Rightarrow> ('d, crdt_error, 'f text_version list) op" where
  "version_loop H key_of i kind prev [] = returnE []"
| "version_loop H key_of i kind prev (info # infos) =
     bindE (text_delta H i prev (ci_frontier info)) (\<lambda>diff.
     bindE (version_loop H key_of i Edited (ci_frontier info) infos) (\<lambda>vs.
       returnE (\<lparr>tv_frontier = ci_frontier info, tv_ts_ms = ci_ts_ms info, tv_author_peer = ci_author_peer info,
                 tv_author_key = key_of (ci_author_peer info), tv_kind = kind, tv_diff = diff\<rparr> # vs)))"

definition roster_keys :: "('s, 'd, 'v, 'f) vault_env \<Rightarrow> ('s, 'd, 'v) store \<Rightarrow> peer \<Rightarrow> bytes option" where
  "roster_keys V st p =
     (case map_of (rev (map (\<lambda>r. (pr_peer_id r, pr_verifying_key r)) (st_peers st))) p of
        Some k \<Rightarrow> Some k
      | None \<Rightarrow> if p = self_id st then Some (self_key V st) else None)"

definition text_history :: "('s, 'd, 'v, 'f) vault_env \<Rightarrow> ('d, 'v, 'f) loro_hist \<Rightarrow> ustr
    \<Rightarrow> (('s, 'd, 'v) store, storage_error, 'f text_version list) op" where
  "text_history V H i st =
     bindE (on_doc (version_loop H (roster_keys V st) i Created (lh_empty H) (text_changes (ve_loro V) H i (st_doc st))))
       (\<lambda>vs. returnE (rev vs)) st"

section \<open>Reverting a text\<close>

definition revert_container :: "('d, 'v, 'f) loro \<Rightarrow> ('d, 'v, 'f) loro_hist \<Rightarrow> ustr \<Rightarrow> 'f \<Rightarrow> ('d, crdt_error, unit) op" where
  "revert_container L H i target d =
     (if \<not> lh_known H target d then (Inl FrontierNotRetained, d)
      else bindE (loro_call (lh_diff H (lo_oplog_frontiers L d) target)) (\<lambda>batch.
           bindE (loro_call (lh_apply_diff H (filter (\<lambda>c. fst c = lh_text_id H i) batch))) (\<lambda>_ d.
             (Inr (), lo_commit L d))) d)"

definition revert_text :: "('s, 'd, 'v, 'f) vault_env \<Rightarrow> ('d, 'v, 'f) loro_hist \<Rightarrow> ustr \<Rightarrow> 'f
    \<Rightarrow> (('s, 'd, 'v) store, storage_error, unit) op" where
  "revert_text V H i target =
     bindE (on_doc (revert_container (ve_loro V) H i target)) (\<lambda>_. persist_new_ops V)"

section \<open>Bytes on disk\<close>

record data_size =
  dz_blobs :: u64
  dz_oplog :: u64
  dz_meta :: u64
  dz_total :: u64

definition len64 :: "('s, io_kind, nat) op \<Rightarrow> ('s, storage_error, u64) op" where
  "len64 m = bindE (errE Io m) (\<lambda>n. returnE (of_nat n))"

definition dir_or_none :: "'s vault_fs \<Rightarrow> path \<Rightarrow> (path list \<Rightarrow> ('s, storage_error, u64) op) \<Rightarrow> ('s, storage_error, u64) op" where
  "dir_or_none fs p f s =
     (case fs_read_dir fs p s of
        (Inl NotFound, s') \<Rightarrow> (Inr 0, s')
      | (Inl e, s') \<Rightarrow> (Inl (Io e), s')
      | (Inr entries, s') \<Rightarrow> f entries s')"

fun sum_entries :: "(path \<Rightarrow> ('s, storage_error, u64) op) \<Rightarrow> u64 \<Rightarrow> path list \<Rightarrow> ('s, storage_error, u64) op" where
  "sum_entries f acc [] = returnE acc"
| "sum_entries f acc (e # es) = bindE (f e) (\<lambda>n. sum_entries f (sat_add64 acc n) es)"

text \<open>The recursion into directories is bounded by the fuel; a walk that exceeds it is an error.\<close>

fun dir_size :: "'s vault_fs \<Rightarrow> nat \<Rightarrow> path \<Rightarrow> ('s, storage_error, u64) op" where
  "dir_size fs 0 p = failE Invalid"
| "dir_size fs (Suc fuel) p =
     dir_or_none fs p (sum_entries (\<lambda>e s. if fs_is_dir fs e s then dir_size fs fuel e s else len64 (fs_file_len fs e) s) 0)"

definition root_file_bytes :: "'s vault_fs \<Rightarrow> path \<Rightarrow> ('s, storage_error, u64) op" where
  "root_file_bytes fs p =
     dir_or_none fs p (sum_entries (\<lambda>e s. if fs_is_dir fs e s then (Inr 0, s) else len64 (fs_file_len fs e) s) 0)"

definition store_data_size :: "'s vault_fs \<Rightarrow> nat \<Rightarrow> path \<Rightarrow> ('s, storage_error, data_size) op" where
  "store_data_size fs fuel root =
     bindE (dir_size fs fuel (sub_path root ''assets'')) (\<lambda>blobs.
     bindE (dir_size fs fuel (sub_path root ''ops'')) (\<lambda>ops.
     bindE (dir_size fs fuel (sub_path root ''snapshots'')) (\<lambda>snapshots.
     bindE (dir_size fs fuel (sub_path root ''roster'')) (\<lambda>roster.
     bindE (dir_size fs fuel (sub_path root ''keylog'')) (\<lambda>keylog.
     bindE (dir_size fs fuel (sub_path root ''history'')) (\<lambda>history.
     bindE (root_file_bytes fs root) (\<lambda>bare.
       let oplog = sat_add64 ops snapshots; meta = sat_add64 (sat_add64 (sat_add64 roster keylog) history) bare in
       returnE \<lparr>dz_blobs = blobs, dz_oplog = oplog, dz_meta = meta, dz_total = sat_add64 (sat_add64 blobs oplog) meta\<rparr>)))))))"

section \<open>The shape of a version list\<close>

lemma version_loop_shape:
  assumes "version_loop H key_of i kind prev infos d = (Inr vs, d')"
  shows "map tv_frontier vs = map ci_frontier infos"
    "map tv_kind vs = (case infos of [] \<Rightarrow> [] | _ # rest \<Rightarrow> kind # replicate (length rest) Edited)"
  using assms
proof (induction infos arbitrary: kind prev d vs)
  case (Cons info infos)
  case 1
  then show ?case using Cons.IH(1) by (auto simp: bindE_Inr_iff)
next
  case (Cons info infos)
  case 2
  then show ?case using Cons.IH(2) by (fastforce simp: bindE_Inr_iff split: list.splits)
qed simp_all

text \<open>
  A version list shows the changes that touch the text, newest first, and only the oldest one is
  listed as a creation.
\<close>

lemma text_history_newest_first:
  assumes "text_history V H i st = (Inr vs, st')"
  shows "map tv_frontier (rev vs) = map ci_frontier (text_changes (ve_loro V) H i (st_doc st))"
    "vs \<noteq> [] \<Longrightarrow> map tv_kind vs = replicate (length vs - 1) Edited @ [Created]"
proof -
  obtain ws d' where ws: "version_loop H (roster_keys V st) i Created (lh_empty H) (text_changes (ve_loro V) H i (st_doc st)) (st_doc st)
      = (Inr ws, d')" "vs = rev ws"
    using assms by (auto simp: text_history_def bindE_Inr_iff on_doc_def split: prod.splits)
  show "map tv_frontier (rev vs) = map ci_frontier (text_changes (ve_loro V) H i (st_doc st))"
    using version_loop_shape(1) [OF ws(1)] ws(2) by simp
  have "map tv_kind ws = Created # replicate (length ws - 1) Edited" if "ws \<noteq> []"
    using version_loop_shape [OF ws(1)] that by (cases "text_changes (ve_loro V) H i (st_doc st)") (auto dest: map_eq_imp_length_eq)
  then show "vs \<noteq> [] \<Longrightarrow> map tv_kind vs = replicate (length vs - 1) Edited @ [Created]"
    using ws(2) by (simp add: rev_map [symmetric])
qed

end
