(* ===== verification/Folder_Bridge.thy ===== *)
theory Folder_Bridge
  imports Sidecar Store_View
begin

text \<open>
  The folder bridge (\<open>roam-files/src/bridge.rs\<close>): it carries edits of vault files into the document and
  the document's texts and blobs onto disk. Every operation takes the store; the bridge itself is two
  directories and a retention threshold.
\<close>

record sync_outcome =
  so_ops_applied :: nat
  so_changed :: bool
  so_conflicts :: "conflict list"

definition unchanged_outcome :: sync_outcome where
  "unchanged_outcome = \<lparr>so_ops_applied = 0, so_changed = False, so_conflicts = []\<rparr>"

definition changed_no_ops :: sync_outcome where
  "changed_no_ops = \<lparr>so_ops_applied = 0, so_changed = True, so_conflicts = []\<rparr>"

record folder_bridge =
  fb_vault_root :: path
  fb_meta_dir :: path
  fb_single_version_threshold :: "u64 option"

definition bridge_new :: "path \<Rightarrow> path \<Rightarrow> folder_bridge" where
  "bridge_new vault_root meta_dir =
     \<lparr>fb_vault_root = vault_root, fb_meta_dir = meta_dir, fb_single_version_threshold = None\<rparr>"

definition with_single_version_threshold :: "folder_bridge \<Rightarrow> u64 \<Rightarrow> folder_bridge" where
  "with_single_version_threshold B n = B\<lparr>fb_single_version_threshold := Some n\<rparr>"

definition SIDECAR_VERSION :: u32 where "SIDECAR_VERSION = 1"

definition in_store :: "(('s, 'd, 'v) store, storage_error, 'a) op \<Rightarrow> ('s, 'd, 'v, 'a) files_op" where
  "in_store m = errE FilesStorage m"

abbreviation text_of :: "('s, 'd, 'v, 'f) bridge_env \<Rightarrow> ustr \<Rightarrow> ('s, 'd, 'v) store \<Rightarrow> ustr" where
  "text_of E k st \<equiv> store_text (be_vault E) k st"

abbreviation container_of :: "('s, 'd, 'v, 'f) bridge_env \<Rightarrow> folder_bridge \<Rightarrow> path \<Rightarrow> (files_error, ustr) res" where
  "container_of E B file \<equiv> container_id (be_nfc E) (fb_vault_root B) file"

section \<open>Hex and version checkpoints\<close>

definition hex_digit :: "nat \<Rightarrow> uchar" where
  "hex_digit n = (if n < 10 then 48 + n else 87 + n)"

definition hex_encode :: "bytes \<Rightarrow> ustr" where
  "hex_encode b = concat (map (\<lambda>w. [hex_digit (unat w div 16), hex_digit (unat w mod 16)]) b)"

definition hex_value :: "uchar \<Rightarrow> nat option" where
  "hex_value c =
     (if 48 \<le> c \<and> c \<le> 57 then Some (c - 48)
      else if 97 \<le> c \<and> c \<le> 102 then Some (c - 87)
      else if 65 \<le> c \<and> c \<le> 70 then Some (c - 55)
      else None)"

text \<open>\<open>u8::from_str_radix\<close> on two ASCII characters: a leading plus sign is accepted.\<close>

definition radix16 :: "uchar \<Rightarrow> uchar \<Rightarrow> byte option" where
  "radix16 a b =
     (if a = 43 then map_option of_nat (hex_value b)
      else Option.bind (hex_value a) (\<lambda>x. map_option (\<lambda>y. of_nat (16 * x + y)) (hex_value b)))"

text \<open>
  The slices of two bytes, from left to right until one is not a number. The outer \<open>None\<close> is a slice
  that does not start and end at a character (a panic).
\<close>

fun hex_pairs :: "ustr \<Rightarrow> bytes option option" where
  "hex_pairs [] = Some (Some [])"
| "hex_pairs (a # s) =
     (if a < 128 then
        (case s of
           [] \<Rightarrow> None
         | b # s' \<Rightarrow>
             if b < 128 then
               (case radix16 a b of
                  None \<Rightarrow> Some None
                | Some w \<Rightarrow> map_option (map_option (\<lambda>ws. w # ws)) (hex_pairs s'))
             else None)
      else if a < 2048 then Some None
      else None)"

definition hex_decode :: "ustr \<Rightarrow> bytes option option" where
  "hex_decode s = (if str_len s mod 2 \<noteq> 0 then Some None else hex_pairs s)"

record gc_context =
  gc_self_peer :: peer
  gc_trusted_peers :: "peer list"
  gc_acked_versions :: "(peer \<times> bytes) list"

definition acked_dominates :: "('d, 'v, 'f) loro \<Rightarrow> gc_context \<Rightarrow> bytes \<Rightarrow> peer \<Rightarrow> bool" where
  "acked_dominates L g vv p \<longleftrightarrow>
     p = gc_self_peer g \<or> (case map_of (gc_acked_versions g) p of Some acked \<Rightarrow> version_dominates L acked vv | None \<Rightarrow> False)"

definition tombstone_is_stable :: "('d, 'v, 'f) loro \<Rightarrow> gc_context \<Rightarrow> file_entry \<Rightarrow> bool option" where
  "tombstone_is_stable L g e =
     (if gc_trusted_peers g = [] then Some False
      else case fe_tombstoned_at e of
             None \<Rightarrow> Some False
           | Some hex \<Rightarrow>
               (case hex_decode hex of
                  None \<Rightarrow> None
                | Some None \<Rightarrow> Some False
                | Some (Some vv) \<Rightarrow> Some (list_all (acked_dominates L g vv) (gc_trusted_peers g))))"

section \<open>Helpers\<close>

definition current_entry :: "('s, 'd, 'v, 'f) bridge_env \<Rightarrow> ustr \<Rightarrow> ('s, 'd, 'v) store \<Rightarrow> file_entry option" where
  "current_entry E k st = Option.bind (get_entry (be_vault E) FILESET_MAP_ID k st) (be_parse_entry E)"

definition put_entry :: "('s, 'd, 'v, 'f) bridge_env \<Rightarrow> ustr \<Rightarrow> file_entry \<Rightarrow> ('s, 'd, 'v, unit) files_op" where
  "put_entry E k e = in_store (set_entry (be_vault E) FILESET_MAP_ID k (be_ser_entry E e))"

definition live_text :: "ustr \<Rightarrow> file_entry" where
  "live_text h = \<lparr>fe_kind = TextEntry, fe_status = Live, fe_content_hash = h, fe_renamed_from = None, fe_tombstoned_at = None\<rparr>"

definition hash_referenced :: "('s, 'd, 'v, 'f) bridge_env \<Rightarrow> ustr \<Rightarrow> ('s, 'd, 'v) store \<Rightarrow> bool" where
  "hash_referenced E h st =
     list_ex (\<lambda>(k, v). case be_parse_entry E v of Some e \<Rightarrow> fe_content_hash e = h | None \<Rightarrow> False)
       (store_entries (be_vault E) FILESET_MAP_ID st)"

definition atomic_write :: "('s, 'd, 'v, 'f) bridge_env \<Rightarrow> path \<Rightarrow> bytes \<Rightarrow> ('s, 'd, 'v, unit) files_op" where
  "atomic_write E p b st =
     (let temp = temp_of p in
      case std_io (fs_write (be_fs E) temp b) st of
        (Inl e, st') \<Rightarrow> (Inl e, snd (std_io (fs_remove_file (be_fs E) temp) st'))
      | (Inr _, st') \<Rightarrow> rename_or_clean E temp p st')"

definition live_case_collision :: "('s, 'd, 'v, 'f) bridge_env \<Rightarrow> ustr \<Rightarrow> ('s, 'd, 'v) store \<Rightarrow> ustr option" where
  "live_case_collision E incoming st =
     map_option fst (find (\<lambda>(k, v). k \<noteq> incoming \<and> eq_ignore_ascii_case k incoming
         \<and> (case be_parse_entry E v of Some e \<Rightarrow> fe_status e = Live | None \<Rightarrow> False))
       (store_entries (be_vault E) FILESET_MAP_ID st))"

definition tombstone :: "entry_kind \<Rightarrow> ustr \<Rightarrow> ustr option \<Rightarrow> file_entry" where
  "tombstone kind h at = \<lparr>fe_kind = kind, fe_status = Tombstoned, fe_content_hash = h, fe_renamed_from = None, fe_tombstoned_at = at\<rparr>"

definition write_tombstone :: "('s, 'd, 'v, 'f) bridge_env \<Rightarrow> ustr \<Rightarrow> entry_kind \<Rightarrow> ustr \<Rightarrow> ('s, 'd, 'v, unit) files_op" where
  "write_tombstone E k kind h =
     bindE (put_entry E k (tombstone kind h None)) (\<lambda>_ st.
       put_entry E k (tombstone kind h (Some (hex_encode (doc_version_bytes (be_vault E) st)))) st)"

definition blob_marker_path :: "path \<Rightarrow> ustr \<Rightarrow> path" where
  "blob_marker_path meta_dir k = meta_path ''blobmarkers'' ''.roamblob'' meta_dir k"

definition write_blob_marker :: "('s, 'd, 'v, 'f) bridge_env \<Rightarrow> path \<Rightarrow> ustr \<Rightarrow> ('s, 'd, 'v, unit) files_op" where
  "write_blob_marker E meta_dir k =
     (let p = blob_marker_path meta_dir k in
      bindE (create_parent E p) (\<lambda>_. std_io (fs_write (be_fs E) p [])))"

definition remove_if_present :: "('s, 'd, 'v, 'f) bridge_env \<Rightarrow> path \<Rightarrow> ('s, 'd, 'v, unit) files_op" where
  "remove_if_present E p st =
     (case std_io (fs_remove_file (be_fs E) p) st of
        (Inl (FilesIo NotFound), st') \<Rightarrow> (Inr (), st')
      | r \<Rightarrow> r)"

definition path_exists :: "('s, 'd, 'v, 'f) bridge_env \<Rightarrow> path \<Rightarrow> ('s, 'd, 'v) store \<Rightarrow> bool" where
  "path_exists E p st = fs_exists (be_fs E) p (st_disk st)"

definition is_hidden :: "path \<Rightarrow> bool" where
  "is_hidden p = (case file_name p of Some n \<Rightarrow> n \<noteq> [] \<and> hd n = dot | None \<Rightarrow> False)"

definition name_ends_with :: "ustr \<Rightarrow> ustr \<Rightarrow> bool" where
  "name_ends_with n s \<longleftrightarrow> length s \<le> length n \<and> drop (length n - length s) n = s"

definition is_internal_sidecar :: "path \<Rightarrow> bool" where
  "is_internal_sidecar p =
     (case file_name p of
        Some n \<Rightarrow> name_ends_with n (lit ''.roammeta'') \<or> name_ends_with n (lit ''.roamblob'')
      | None \<Rightarrow> False)"

text \<open>One entry of a directory at a time; \<open>walk\<close> descends into a directory.\<close>

fun collect_entries :: "('s, 'd, 'v, 'f) bridge_env \<Rightarrow> (path \<Rightarrow> ('s, 'd, 'v, path list) files_op) \<Rightarrow> path list
    \<Rightarrow> ('s, 'd, 'v, path list) files_op" where
  "collect_entries E walk [] st = (Inr [], st)"
| "collect_entries E walk (p # ps) st =
     (case be_file_type E p (st_disk st) of
        Inl e \<Rightarrow> (Inl (FilesIo e), st)
      | Inr Symlink \<Rightarrow> collect_entries E walk ps st
      | Inr ft \<Rightarrow>
          if is_hidden p then collect_entries E walk ps st
          else if ft = Directory then
            bindE (walk p) (\<lambda>xs. bindE (collect_entries E walk ps) (\<lambda>ys. returnE (xs @ ys))) st
          else if \<not> is_internal_sidecar p then
            bindE (collect_entries E walk ps) (\<lambda>ys. returnE (p # ys)) st
          else collect_entries E walk ps st)"

text \<open>The fuel bounds the depth of the walk.\<close>

fun collect_vault_files :: "('s, 'd, 'v, 'f) bridge_env \<Rightarrow> nat \<Rightarrow> path \<Rightarrow> ('s, 'd, 'v, path list) files_op" where
  "collect_vault_files E 0 dir st = (Inl FilesPanic, st)"
| "collect_vault_files E (Suc fuel) dir st =
     (case on_disk (fs_read_dir (be_fs E) dir) st of
        (Inl NotFound, st') \<Rightarrow> (Inr [], st')
      | (Inl e, st') \<Rightarrow> (Inl (FilesIo e), st')
      | (Inr entries, st') \<Rightarrow> collect_entries E (collect_vault_files E fuel) entries st')"

section \<open>Import\<close>

definition synced_sidecar :: "('s, 'd, 'v, 'f) bridge_env \<Rightarrow> ustr \<Rightarrow> ustr \<Rightarrow> sidecar" where
  "synced_sidecar E k t = \<lparr>sc_version = SIDECAR_VERSION, sc_doc_id = k, sc_last_synced_hash = text_hash E t, sc_last_synced_text = t\<rparr>"

definition reconcile_sidecar :: "('s, 'd, 'v, 'f) bridge_env \<Rightarrow> path \<Rightarrow> ustr \<Rightarrow> ustr \<Rightarrow> ustr \<Rightarrow> ustr \<Rightarrow> nat \<Rightarrow> files_error option
    \<Rightarrow> ('s, 'd, 'v, sync_outcome) files_op" where
  "reconcile_sidecar E meta_dir k file_text expected actual ops_applied apply_err =
     (if apply_err = None \<and> actual = expected then
        bindE (sidecar_store E meta_dir k (synced_sidecar E k file_text)) (\<lambda>_.
          returnE \<lparr>so_ops_applied = ops_applied, so_changed = True, so_conflicts = []\<rparr>)
      else
        bindE (sidecar_store E meta_dir k (synced_sidecar E k actual)) (\<lambda>_.
          failE (case apply_err of Some e \<Rightarrow> e | None \<Rightarrow> Desync)))"

fun store_text_op :: "('s, 'd, 'v, 'f) bridge_env \<Rightarrow> ustr \<Rightarrow> text_op \<Rightarrow> ('s, 'd, 'v, unit) files_op" where
  "store_text_op E k (OpInsert pos s) = in_store (edit_text (be_vault E) k pos s)"
| "store_text_op E k (OpDelete pos len) = in_store (delete_text (be_vault E) k pos len)"

text \<open>The loop stops at the first failing operation and keeps its error.\<close>

fun apply_store_ops :: "('s, 'd, 'v, 'f) bridge_env \<Rightarrow> ustr \<Rightarrow> text_op list \<Rightarrow> ('s, 'd, 'v) store
    \<Rightarrow> files_error option \<times> ('s, 'd, 'v) store" where
  "apply_store_ops E k [] st = (None, st)"
| "apply_store_ops E k (x # xs) st =
     (case store_text_op E k x st of
        (Inl e, st') \<Rightarrow> (Some e, st')
      | (Inr _, st') \<Rightarrow> apply_store_ops E k xs st')"

definition merged_text :: "differ \<Rightarrow> ustr \<Rightarrow> ustr \<Rightarrow> ustr \<Rightarrow> (ustr \<times> conflict list) option" where
  "merged_text D baseline file_text remote_text =
     (if remote_text = baseline then Some (file_text, [])
      else merge_local_onto_remote D baseline file_text remote_text)"

definition apply_merge :: "('s, 'd, 'v, 'f) bridge_env \<Rightarrow> folder_bridge \<Rightarrow> ustr \<Rightarrow> ustr \<Rightarrow> ustr \<Rightarrow> conflict list \<Rightarrow> text_op list
    \<Rightarrow> ('s, 'd, 'v, sync_outcome) files_op" where
  "apply_merge E B k file_text expected conflicts ops st =
     (case apply_store_ops E k ops st of
        (apply_err, st') \<Rightarrow>
          bindE (reconcile_sidecar E (fb_meta_dir B) k file_text expected (text_of E k st') (length ops) apply_err) (\<lambda>outcome.
          bindE (put_entry E k (live_text (text_hash E file_text))) (\<lambda>_.
            returnE (outcome\<lparr>so_conflicts := conflicts\<rparr>))) st')"

definition import_text :: "('s, 'd, 'v, 'f) bridge_env \<Rightarrow> folder_bridge \<Rightarrow> ustr \<Rightarrow> ustr \<Rightarrow> ('s, 'd, 'v, sync_outcome) files_op" where
  "import_text E B k file_text =
     bindE (sidecar_load E (fb_meta_dir B) k) (\<lambda>sidecar st.
       let remote_text = text_of E k st;
           baseline = (case sidecar of Some s \<Rightarrow> sc_last_synced_text s | None \<Rightarrow> remote_text) in
       case merged_text (be_differ E) baseline file_text remote_text of
         None \<Rightarrow> (Inl FilesPanic, st)
       | Some (expected, conflicts) \<Rightarrow>
           let ops = diff_to_ops (be_differ E) remote_text expected in
           if ops = [] then (Inr unchanged_outcome, st)
           else apply_merge E B k file_text expected conflicts ops st)"

definition release_superseded :: "('s, 'd, 'v, 'f) bridge_env \<Rightarrow> folder_bridge \<Rightarrow> bytes \<Rightarrow> ustr option \<Rightarrow> ustr
    \<Rightarrow> ('s, 'd, 'v, unit) files_op" where
  "release_superseded E B b prior_hash hash st =
     (case (fb_single_version_threshold B, prior_hash) of
        (Some threshold, Some prev) \<Rightarrow>
          if of_nat (length b) > threshold \<and> prev \<noteq> hash \<and> \<not> hash_referenced E prev st
          then in_store (on_disk (blob_remove (store_blobs (be_vault E) st) prev)) st
          else (Inr (), st)
      | _ \<Rightarrow> (Inr (), st))"

definition live_blob_entry :: "ustr \<Rightarrow> file_entry" where
  "live_blob_entry h = \<lparr>fe_kind = BlobEntry, fe_status = Live, fe_content_hash = h, fe_renamed_from = None, fe_tombstoned_at = None\<rparr>"

definition track_blob :: "('s, 'd, 'v, 'f) bridge_env \<Rightarrow> folder_bridge \<Rightarrow> ustr \<Rightarrow> bytes \<Rightarrow> ustr option \<Rightarrow> ustr
    \<Rightarrow> ('s, 'd, 'v, sync_outcome) files_op" where
  "track_blob E B k b prior_hash hash st =
     (if get_entry (be_vault E) FILESET_MAP_ID k st = Some (be_ser_entry E (live_blob_entry hash)) then (Inr unchanged_outcome, st)
      else bindE (put_entry E k (live_blob_entry hash)) (\<lambda>_.
           bindE (release_superseded E B b prior_hash hash) (\<lambda>_. returnE changed_no_ops)) st)"

definition import_blob :: "('s, 'd, 'v, 'f) bridge_env \<Rightarrow> folder_bridge \<Rightarrow> ustr \<Rightarrow> bytes \<Rightarrow> ('s, 'd, 'v, sync_outcome) files_op" where
  "import_blob E B k b st =
     (let prior_hash = map_option fe_content_hash (current_entry E k st) in
      bindE (in_store (on_disk (blob_put (be_hash E) (store_blobs (be_vault E) st) b))) (\<lambda>hash st.
        case current_entry E k st of
          Some e \<Rightarrow>
            if fe_status e = Tombstoned \<and> fe_kind e = BlobEntry \<and> fe_content_hash e = hash then (Inr unchanged_outcome, st)
            else track_blob E B k b prior_hash hash st
        | None \<Rightarrow> track_blob E B k b prior_hash hash st) st)"

definition import_content :: "('s, 'd, 'v, 'f) bridge_env \<Rightarrow> folder_bridge \<Rightarrow> ustr \<Rightarrow> bytes \<Rightarrow> ('s, 'd, 'v, sync_outcome) files_op" where
  "import_content E B k b =
     (case from_utf8 b of
        Some file_text \<Rightarrow> import_text E B k file_text
      | None \<Rightarrow>
          bindE (import_blob E B k b) (\<lambda>outcome.
          bindE (write_blob_marker E (fb_meta_dir B) k) (\<lambda>_. returnE outcome)))"

definition import_file :: "('s, 'd, 'v, 'f) bridge_env \<Rightarrow> folder_bridge \<Rightarrow> path \<Rightarrow> ('s, 'd, 'v, sync_outcome) files_op" where
  "import_file E B file st =
     (if \<not> may_write st then (Inl ReadOnly, st)
      else bindE (liftE (container_of E B file)) (\<lambda>k st.
             case live_case_collision E k st of
               Some existing \<Rightarrow> (Inl (CaseCollision existing k), st)
             | None \<Rightarrow> bindE (std_io (fs_read (be_fs E) file)) (import_content E B k) st) st)"

section \<open>Delete\<close>

definition delete_entry :: "('s, 'd, 'v, 'f) bridge_env \<Rightarrow> folder_bridge \<Rightarrow> ustr \<Rightarrow> ('s, 'd, 'v, unit) files_op" where
  "delete_entry E B k st =
     (let existing = current_entry E k st;
          kind = (case existing of Some e \<Rightarrow> fe_kind e | None \<Rightarrow> TextEntry) in
      case kind of
        BlobEntry \<Rightarrow>
          (let hash = (case existing of Some e \<Rightarrow> fe_content_hash e | None \<Rightarrow> text_hash E (text_of E k st)) in
           bindE (write_tombstone E k BlobEntry hash) (\<lambda>_. remove_if_present E (blob_marker_path (fb_meta_dir B) k)) st)
      | TextEntry \<Rightarrow>
          bindE (sidecar_load E (fb_meta_dir B) k) (\<lambda>sidecar st.
            write_tombstone E k TextEntry
              (case sidecar of Some s \<Rightarrow> sc_last_synced_hash s | None \<Rightarrow> text_hash E (text_of E k st)) st) st)"

definition delete_file :: "('s, 'd, 'v, 'f) bridge_env \<Rightarrow> folder_bridge \<Rightarrow> path \<Rightarrow> ('s, 'd, 'v, sync_outcome) files_op" where
  "delete_file E B file st =
     (if \<not> may_write st then (Inl ReadOnly, st)
      else bindE (liftE (container_of E B file)) (\<lambda>k.
           bindE (delete_entry E B k) (\<lambda>_.
           bindE (remove_if_present E file) (\<lambda>_.
           bindE (remove_if_present E (sidecar_path (fb_meta_dir B) k)) (\<lambda>_.
             returnE changed_no_ops)))) st)"

section \<open>Projection\<close>

function resolve_ancestor :: "('s, 'd, 'v, 'f) bridge_env \<Rightarrow> path \<Rightarrow> 's \<Rightarrow> path option" where
  "resolve_ancestor E p s =
     (case be_canonicalize E p s of
        Some real \<Rightarrow> Some real
      | None \<Rightarrow> (case path_parent p of None \<Rightarrow> None | Some q \<Rightarrow> resolve_ancestor E q s))"
  by auto
termination
  by (relation "measure (\<lambda>(E, p, s). length p)") (auto simp: path_parent_def split: if_splits)

declare resolve_ancestor.simps [simp del]

definition ensure_within_vault :: "('s, 'd, 'v, 'f) bridge_env \<Rightarrow> folder_bridge \<Rightarrow> path \<Rightarrow> ('s, 'd, 'v) store \<Rightarrow> (files_error, unit) res" where
  "ensure_within_vault E B file st =
     (case be_canonicalize E (fb_vault_root B) (st_disk st) of
        None \<Rightarrow> Inl (PathEscapesVault file)
      | Some root \<Rightarrow>
          (case resolve_ancestor E file (st_disk st) of
             None \<Rightarrow> Inl (PathEscapesVault file)
           | Some real \<Rightarrow> if strip_prefix root real \<noteq> None then Inr () else Inl (PathEscapesVault file)))"

definition checked_within :: "('s, 'd, 'v, 'f) bridge_env \<Rightarrow> folder_bridge \<Rightarrow> path \<Rightarrow> ('s, 'd, 'v, unit) files_op" where
  "checked_within E B file st = (ensure_within_vault E B file st, st)"

text \<open>The text of a file: \<open>None\<close> when there is no file or it is not text.\<close>

definition read_text :: "('s, 'd, 'v, 'f) bridge_env \<Rightarrow> path \<Rightarrow> ('s, 'd, 'v, ustr option) files_op" where
  "read_text E file st =
     (case std_io (fs_read (be_fs E) file) st of
        (Inr b, st') \<Rightarrow> (Inr (from_utf8 b), st')
      | (Inl (FilesIo NotFound), st') \<Rightarrow> (Inr None, st')
      | (Inl e, st') \<Rightarrow> (Inl e, st'))"

definition edited_since_sync :: "ustr option \<Rightarrow> ustr \<Rightarrow> sidecar option \<Rightarrow> bool" where
  "edited_since_sync disk t sidecar =
     (case disk of
        None \<Rightarrow> False
      | Some x \<Rightarrow> x \<noteq> t \<and> (case sidecar of Some s \<Rightarrow> x \<noteq> sc_last_synced_text s | None \<Rightarrow> True))"

definition write_projection :: "('s, 'd, 'v, 'f) bridge_env \<Rightarrow> folder_bridge \<Rightarrow> ustr \<Rightarrow> path \<Rightarrow> ustr \<Rightarrow> ('s, 'd, 'v, sync_outcome) files_op" where
  "write_projection E B k file t =
     bindE (checked_within E B file) (\<lambda>_.
     bindE (create_parent E file) (\<lambda>_.
     bindE (atomic_write E file (utf8 t)) (\<lambda>_.
     bindE (sidecar_store E (fb_meta_dir B) k (synced_sidecar E k t)) (\<lambda>_. returnE changed_no_ops))))"

definition project_file_inner :: "('s, 'd, 'v, 'f) bridge_env \<Rightarrow> folder_bridge \<Rightarrow> bool \<Rightarrow> path \<Rightarrow> ('s, 'd, 'v, sync_outcome) files_op" where
  "project_file_inner E B force file =
     bindE (liftE (container_of E B file)) (\<lambda>k st.
       let t = text_of E k st in
       bindE (read_text E file) (\<lambda>disk.
       bindE (sidecar_load E (fb_meta_dir B) k) (\<lambda>sidecar.
         if disk = Some t \<and> map_option sc_last_synced_text sidecar = Some t then returnE unchanged_outcome
         else if \<not> force \<and> edited_since_sync disk t sidecar then failE (DirtyFile file)
         else write_projection E B k file t)) st)"

definition project_file :: "('s, 'd, 'v, 'f) bridge_env \<Rightarrow> folder_bridge \<Rightarrow> path \<Rightarrow> ('s, 'd, 'v, sync_outcome) files_op" where
  "project_file E B file = project_file_inner E B False file"

definition project_file_forced :: "('s, 'd, 'v, 'f) bridge_env \<Rightarrow> folder_bridge \<Rightarrow> path \<Rightarrow> ('s, 'd, 'v, sync_outcome) files_op" where
  "project_file_forced E B file = project_file_inner E B True file"

definition project_blob :: "('s, 'd, 'v, 'f) bridge_env \<Rightarrow> folder_bridge \<Rightarrow> path \<Rightarrow> ustr \<Rightarrow> ('s, 'd, 'v, sync_outcome) files_op" where
  "project_blob E B file content_hash =
     bindE (checked_within E B file) (\<lambda>_ st.
     bindE (in_store (on_disk (blob_get (be_hash E) (store_blobs (be_vault E) st) content_hash))) (\<lambda>found st.
       case found of
         None \<Rightarrow> (Inr unchanged_outcome, st)
       | Some b \<Rightarrow>
           if path_exists E file st then (Inr unchanged_outcome, st)
           else bindE (create_parent E file) (\<lambda>_.
                bindE (atomic_write E file b) (\<lambda>_.
                bindE (liftE (container_of E B file)) (\<lambda>k.
                bindE (write_blob_marker E (fb_meta_dir B) k) (\<lambda>_. returnE changed_no_ops)))) st) st)"

section \<open>Scan\<close>

type_synonym outcomes = "(path \<times> sync_outcome) list"

fun gather :: "('x \<Rightarrow> ('s, 'd, 'v, outcomes) files_op) \<Rightarrow> 'x list \<Rightarrow> ('s, 'd, 'v, outcomes) files_op" where
  "gather f [] = returnE []"
| "gather f (x # xs) = bindE (f x) (\<lambda>os. bindE (gather f xs) (\<lambda>os'. returnE (os @ os')))"

fun present_ids :: "('s, 'd, 'v, 'f) bridge_env \<Rightarrow> folder_bridge \<Rightarrow> path list \<Rightarrow> (files_error, ustr list) res" where
  "present_ids E B [] = Inr []"
| "present_ids E B (f # fs) = bind_r (container_of E B f) (\<lambda>k. bind_r (present_ids E B fs) (\<lambda>ks. Inr (List.insert k ks)))"

text \<open>Step 1 on a writable store and on a read-only one.\<close>

definition import_step :: "('s, 'd, 'v, 'f) bridge_env \<Rightarrow> folder_bridge \<Rightarrow> path \<Rightarrow> ('s, 'd, 'v, outcomes) files_op" where
  "import_step E B file = bindE (import_file E B file) (\<lambda>outcome. returnE [(file, outcome)])"

definition report_changed :: "path \<Rightarrow> sync_outcome \<Rightarrow> outcomes" where
  "report_changed file outcome = (if so_changed outcome then [(file, outcome)] else [])"

definition revert_step :: "('s, 'd, 'v, 'f) bridge_env \<Rightarrow> folder_bridge \<Rightarrow> path \<Rightarrow> ('s, 'd, 'v, outcomes) files_op" where
  "revert_step E B file st =
     (case on_disk (fs_read (be_fs E) file) st of
        (r, st') \<Rightarrow>
          if (case r of Inr b \<Rightarrow> from_utf8 b \<noteq> None | Inl _ \<Rightarrow> False)
          then bindE (project_file_forced E B file) (\<lambda>outcome. returnE (report_changed file outcome)) st'
          else (Inr [], st'))"

text \<open>Step 1b: a present text file without an entry gets one.\<close>

definition heal_step :: "('s, 'd, 'v, 'f) bridge_env \<Rightarrow> folder_bridge \<Rightarrow> ustr \<Rightarrow> ('s, 'd, 'v, outcomes) files_op" where
  "heal_step E B k st =
     (if get_entry (be_vault E) FILESET_MAP_ID k st \<noteq> None then (Inr [], st)
      else if \<not> path_exists E (sidecar_path (fb_meta_dir B) k) st then (Inr [], st)
      else bindE (put_entry E k (live_text (text_hash E (text_of E k st)))) (\<lambda>_. returnE []) st)"

definition from_value :: "('s, 'd, 'v, 'f) bridge_env \<Rightarrow> ustr \<Rightarrow> (files_error, file_entry) res" where
  "from_value E v = ok_or EntryError (be_parse_entry E v)"

text \<open>Step 2: a live entry whose file is gone although this device had it.\<close>

definition last_synced_hash :: "('s, 'd, 'v, 'f) bridge_env \<Rightarrow> folder_bridge \<Rightarrow> ustr \<Rightarrow> ('s, 'd, 'v, ustr) files_op" where
  "last_synced_hash E B k st =
     (case sidecar_load E (fb_meta_dir B) k st of
        (Inr (Some s), st') \<Rightarrow> (Inr (sc_last_synced_hash s), st')
      | (_, st') \<Rightarrow> (Inr (text_hash E (text_of E k st')), st'))"

definition deletion_step :: "('s, 'd, 'v, 'f) bridge_env \<Rightarrow> folder_bridge \<Rightarrow> ustr list \<Rightarrow> ustr \<times> ustr \<Rightarrow> ('s, 'd, 'v, outcomes) files_op" where
  "deletion_step E B present kv =
     bindE (liftE (from_value E (snd kv))) (\<lambda>entry st.
       let k = fst kv; file = key_to_path (fb_vault_root B) k;
           marker = blob_marker_path (fb_meta_dir B) k; sidecar = sidecar_path (fb_meta_dir B) k in
       if fe_status entry \<noteq> Live \<or> k \<in> set present then (Inr [], st)
       else if fe_kind entry = BlobEntry then
         if path_exists E marker st then
           bindE (write_tombstone E k BlobEntry (fe_content_hash entry)) (\<lambda>_.
           bindE (remove_if_present E marker) (\<lambda>_. returnE [(file, changed_no_ops)])) st
         else (Inr [], st)
       else if \<not> path_exists E sidecar st then (Inr [], st)
       else bindE (last_synced_hash E B k) (\<lambda>hash.
            bindE (write_tombstone E k (fe_kind entry) hash) (\<lambda>_.
            bindE (remove_if_present E sidecar) (\<lambda>_. returnE [(file, changed_no_ops)]))) st)"

text \<open>Step 3: live entries are projected, tombstoned ones removed unless a later edit revives them.\<close>

definition keep_dirty :: "outcomes \<Rightarrow> ('s, 'd, 'v, outcomes) files_op \<Rightarrow> ('s, 'd, 'v, outcomes) files_op" where
  "keep_dirty os m st = (case m st of (Inl (DirtyFile _), st') \<Rightarrow> (Inr os, st') | r \<Rightarrow> r)"

definition live_step :: "('s, 'd, 'v, 'f) bridge_env \<Rightarrow> folder_bridge \<Rightarrow> bool \<Rightarrow> ustr \<Rightarrow> path \<Rightarrow> file_entry \<Rightarrow> ('s, 'd, 'v, outcomes) files_op" where
  "live_step E B file_present k file entry st =
     (if fe_kind entry = BlobEntry then
        bindE (project_blob E B file (fe_content_hash entry)) (\<lambda>outcome. returnE (report_changed file outcome)) st
      else if \<not> file_present \<and> \<not> path_exists E (sidecar_path (fb_meta_dir B) k) st then
        bindE (project_file E B file) (\<lambda>outcome. returnE [(file, outcome)]) st
      else if file_present then
        keep_dirty [] (bindE (project_file E B file) (\<lambda>outcome. returnE (report_changed file outcome))) st
      else (Inr [], st))"

definition tombstone_step :: "('s, 'd, 'v, 'f) bridge_env \<Rightarrow> folder_bridge \<Rightarrow> bool \<Rightarrow> ustr \<Rightarrow> path \<Rightarrow> file_entry \<Rightarrow> ('s, 'd, 'v, outcomes) files_op" where
  "tombstone_step E B file_present k file entry st =
     (let sidecar = sidecar_path (fb_meta_dir B) k; current_hash = text_hash E (text_of E k st) in
      if fe_kind entry = BlobEntry then
        bindE (if file_present then remove_if_present E file else returnE ()) (\<lambda>_.
        bindE (remove_if_present E (blob_marker_path (fb_meta_dir B) k)) (\<lambda>_.
        bindE (remove_if_present E sidecar) (\<lambda>_.
          returnE (if file_present then [(file, changed_no_ops)] else [])))) st
      else if \<not> file_present then bindE (remove_if_present E sidecar) (\<lambda>_. returnE []) st
      else if current_hash = fe_content_hash entry then
        bindE (remove_if_present E file) (\<lambda>_.
        bindE (remove_if_present E sidecar) (\<lambda>_. returnE [(file, changed_no_ops)])) st
      else
        bindE (put_entry E k \<lparr>fe_kind = fe_kind entry, fe_status = Live, fe_content_hash = current_hash,
                              fe_renamed_from = None, fe_tombstoned_at = None\<rparr>) (\<lambda>_.
        keep_dirty [(file, changed_no_ops)] (bindE (project_file E B file) (\<lambda>outcome. returnE [(file, outcome)]))) st)"

definition remote_step :: "('s, 'd, 'v, 'f) bridge_env \<Rightarrow> folder_bridge \<Rightarrow> ustr list \<Rightarrow> ustr \<times> ustr \<Rightarrow> ('s, 'd, 'v, outcomes) files_op" where
  "remote_step E B present kv =
     bindE (liftE (from_value E (snd kv))) (\<lambda>entry st.
       let k = fst kv; file = key_to_path (fb_vault_root B) k; file_present = k \<in> set present in
       case ensure_within_vault E B file st of
         Inl _ \<Rightarrow> (Inr [], st)
       | Inr _ \<Rightarrow>
           (case fe_status entry of
              Live \<Rightarrow> live_step E B file_present k file entry st
            | Tombstoned \<Rightarrow> tombstone_step E B file_present k file entry st))"

definition over_entries :: "('s, 'd, 'v, 'f) bridge_env \<Rightarrow> (ustr \<times> ustr \<Rightarrow> ('s, 'd, 'v, outcomes) files_op) \<Rightarrow> ('s, 'd, 'v, outcomes) files_op" where
  "over_entries E f st = gather f (store_entries (be_vault E) FILESET_MAP_ID st) st"

text \<open>The parameter of the retired sweep is accepted and ignored.\<close>

definition scan_gc :: "('s, 'd, 'v, 'f) bridge_env \<Rightarrow> folder_bridge \<Rightarrow> nat \<Rightarrow> path list option \<Rightarrow> gc_context option
    \<Rightarrow> ('s, 'd, 'v, outcomes) files_op" where
  "scan_gc E B fuel hint gc =
     bindE (collect_vault_files E fuel (fb_vault_root B)) (\<lambda>found.
       let files = sort found in
       bindE (liftE (present_ids E B files)) (\<lambda>present st.
         let to_import = (case hint of None \<Rightarrow> files | Some hs \<Rightarrow> filter (\<lambda>f. f \<in> set hs) files) in
         if may_write st then
           bindE (gather (import_step E B) to_import) (\<lambda>os1.
           bindE (gather (heal_step E B) (be_order E present)) (\<lambda>_.
           bindE (over_entries E (deletion_step E B present)) (\<lambda>os2.
           bindE (over_entries E (remote_step E B present)) (\<lambda>os3. returnE (os1 @ os2 @ os3))))) st
         else
           bindE (gather (revert_step E B) to_import) (\<lambda>os1.
           bindE (over_entries E (remote_step E B present)) (\<lambda>os3. returnE (os1 @ os3))) st))"

definition scan_hinted :: "('s, 'd, 'v, 'f) bridge_env \<Rightarrow> folder_bridge \<Rightarrow> nat \<Rightarrow> path list option \<Rightarrow> ('s, 'd, 'v, outcomes) files_op" where
  "scan_hinted E B fuel hint = scan_gc E B fuel hint None"

definition scan :: "('s, 'd, 'v, 'f) bridge_env \<Rightarrow> folder_bridge \<Rightarrow> nat \<Rightarrow> ('s, 'd, 'v, outcomes) files_op" where
  "scan E B fuel = scan_gc E B fuel None None"

section \<open>Restore, rename, revert\<close>

definition list_deleted :: "('s, 'd, 'v, 'f) bridge_env \<Rightarrow> folder_bridge \<Rightarrow> ('s, 'd, 'v) store \<Rightarrow> path list" where
  "list_deleted E B st =
     List.map_filter (\<lambda>(k, v). case be_parse_entry E v of
         Some e \<Rightarrow> if fe_status e = Tombstoned then Some (key_to_path (fb_vault_root B) k) else None
       | None \<Rightarrow> None)
       (store_entries (be_vault E) FILESET_MAP_ID st)"

definition resurrect :: "('s, 'd, 'v, 'f) bridge_env \<Rightarrow> folder_bridge \<Rightarrow> path \<Rightarrow> ('s, 'd, 'v, sync_outcome) files_op" where
  "resurrect E B file st =
     (if \<not> may_write st then (Inl ReadOnly, st)
      else bindE (liftE (container_of E B file)) (\<lambda>k st.
           bindE (liftE (ok_or (FilesNotFound file) (get_entry (be_vault E) FILESET_MAP_ID k st))) (\<lambda>v.
           bindE (liftE (from_value E v)) (\<lambda>entry.
             let live = to_live entry in
             bindE (put_entry E k live) (\<lambda>_.
               case fe_kind live of
                 BlobEntry \<Rightarrow> project_blob E B file (fe_content_hash live)
               | TextEntry \<Rightarrow> project_file E B file))) st) st)"

definition restore_paths :: "('s, 'd, 'v, 'f) bridge_env \<Rightarrow> folder_bridge \<Rightarrow> path list \<Rightarrow> ('s, 'd, 'v, outcomes) files_op" where
  "restore_paths E B files st =
     (if \<not> may_write st then (Inl ReadOnly, st)
      else gather (\<lambda>file. bindE (resurrect E B file) (\<lambda>outcome. returnE [(file, outcome)])) files st)"

definition restore_all :: "('s, 'd, 'v, 'f) bridge_env \<Rightarrow> folder_bridge \<Rightarrow> ('s, 'd, 'v, outcomes) files_op" where
  "restore_all E B st =
     (if \<not> may_write st then (Inl ReadOnly, st) else restore_paths E B (list_deleted E B st) st)"

definition move_text :: "('s, 'd, 'v, 'f) bridge_env \<Rightarrow> folder_bridge \<Rightarrow> path \<Rightarrow> path \<Rightarrow> ustr \<Rightarrow> ustr \<Rightarrow> ('s, 'd, 'v, sync_outcome) files_op" where
  "move_text E B from to from_k to_k st =
     (let t = text_of E from_k st; hash = text_hash E t in
      bindE (if t \<noteq> [] then in_store (edit_text (be_vault E) to_k 0 t) else returnE ()) (\<lambda>_.
      bindE (put_entry E to_k ((live_text hash)\<lparr>fe_renamed_from := Some from_k\<rparr>)) (\<lambda>_.
      bindE (write_tombstone E from_k TextEntry hash) (\<lambda>_.
      bindE (project_file E B to) (\<lambda>_.
      bindE (remove_if_present E from) (\<lambda>_.
      bindE (remove_if_present E (sidecar_path (fb_meta_dir B) from_k)) (\<lambda>_. returnE changed_no_ops)))))) st)"

definition rename_file :: "('s, 'd, 'v, 'f) bridge_env \<Rightarrow> folder_bridge \<Rightarrow> path \<Rightarrow> path \<Rightarrow> ('s, 'd, 'v, sync_outcome) files_op" where
  "rename_file E B from to st =
     (if \<not> may_write st then (Inl ReadOnly, st)
      else bindE (liftE (container_of E B from)) (\<lambda>from_k.
           bindE (liftE (container_of E B to)) (\<lambda>to_k st.
             if from_k = to_k then (Inr unchanged_outcome, st)
             else bindE (if path_exists E from st then import_file E B from else returnE unchanged_outcome) (\<lambda>_. move_text E B from to from_k to_k) st)) st)"

definition restore_blob_version :: "('s, 'd, 'v, 'f) bridge_env \<Rightarrow> folder_bridge \<Rightarrow> path \<Rightarrow> int \<Rightarrow> ('s, 'd, 'v, sync_outcome) files_op" where
  "restore_blob_version E B file before_ts st =
     (if \<not> may_write st then (Inl ReadOnly, st)
      else bindE (liftE (container_of E B file)) (\<lambda>k.
           bindE (in_store (historical_entry (be_vault E) (be_hist E) FILESET_MAP_ID k before_ts)) (\<lambda>found.
           bindE (liftE (ok_or (NoBlobHistory file) found)) (\<lambda>v.
           bindE (liftE (from_value E v)) (\<lambda>entry st.
             if fe_kind entry \<noteq> BlobEntry then (Inl (NoBlobHistory file), st)
             else if \<not> blob_has (store_blobs (be_vault E) st) (fe_content_hash entry) (st_disk st) then (Inl (NoBlobHistory file), st)
             else let live = to_live entry in
                  bindE (put_entry E k live) (\<lambda>_. project_blob E B file (fe_content_hash live)) st)))) st)"

definition revert_file :: "('s, 'd, 'v, 'f) bridge_env \<Rightarrow> ('d, 'v, 'f) loro_hist \<Rightarrow> folder_bridge \<Rightarrow> path \<Rightarrow> 'f
    \<Rightarrow> ('s, 'd, 'v, sync_outcome) files_op" where
  "revert_file E H B file target st =
     (if \<not> may_write st then (Inl ReadOnly, st)
      else bindE (liftE (container_of E B file)) (\<lambda>k.
           bindE (in_store (revert_text (be_vault E) H k target)) (\<lambda>_. project_file E B file)) st)"

end
