(* ===== verification/Bridge_Guard.thy ===== *)
theory Bridge_Guard
  imports Folder_Bridge
begin

text \<open>
  Which parts of a bridge operation touch the document. Projection, the read-only scan and all metadata
  writes change the disk of the store and nothing else; the exception is a tombstone that a later edit
  revives.
\<close>

named_theorems disk_at_rules

text \<open>From this state the operation changes nothing but the disk.\<close>

definition disk_at :: "(('s, 'd, 'v) store, 'e, 'a) op \<Rightarrow> ('s, 'd, 'v) store \<Rightarrow> bool" where
  "disk_at m st \<longleftrightarrow> (\<exists>s'. snd (m st) = st\<lparr>st_disk := s'\<rparr>)"

lemma disk_at_same: "snd (m st) = st \<Longrightarrow> disk_at m st"
  unfolding disk_at_def by (metis store.surjective store.update_convs(1))

lemma disk_at_basic [disk_at_rules]:
  "disk_at (returnE a) st" "disk_at (failE e) st" "disk_at (liftE r) st" "disk_at (on_disk c) st" "disk_at (std_io d) st"
  by (simp_all add: disk_at_same)
     (auto simp: disk_at_def on_disk_def std_io_def errE_def split: prod.splits)

lemma disk_at_err [disk_at_rules]: "disk_at m st \<Longrightarrow> disk_at (in_store m) st"
  by (auto simp: disk_at_def in_store_def errE_def split: prod.splits)

lemma disk_at_bind [disk_at_rules]:
  assumes "disk_at m st" "\<And>a s'. disk_at (f a) (st\<lparr>st_disk := s'\<rparr>)"
  shows "disk_at (bindE m f) st"
proof -
  obtain r s where m: "m st = (r, st\<lparr>st_disk := s\<rparr>)" using assms(1) by (metis disk_at_def prod.collapse)
  show ?thesis
  proof (cases r)
    case (Inl e)
    then show ?thesis using m by (auto simp: disk_at_def bindE_def)
  next
    case (Inr a)
    obtain s' where "snd (f a (st\<lparr>st_disk := s\<rparr>)) = st\<lparr>st_disk := s'\<rparr>"
      using assms(2) [of a s] by (auto simp: disk_at_def)
    then show ?thesis using m Inr by (auto simp: disk_at_def bindE_def)
  qed
qed

lemma disk_at_if [disk_at_rules]: "disk_at m st \<Longrightarrow> disk_at n st \<Longrightarrow> disk_at (if c then m else n) st"
  by simp

lemma disk_at_D: "disk_at m st \<Longrightarrow> m st = (r, st') \<Longrightarrow> \<exists>s'. st' = st\<lparr>st_disk := s'\<rparr>"
  by (auto simp: disk_at_def)

text \<open>A projection of the store that ignores the disk.\<close>

lemma disk_update_views [simp]:
  "text_of E k (st\<lparr>st_disk := s\<rparr>) = text_of E k st"
  "get_entry V m k (st\<lparr>st_disk := s\<rparr>) = get_entry V m k st"
  "store_entries V m (st\<lparr>st_disk := s\<rparr>) = store_entries V m st"
  "may_write (st\<lparr>st_disk := s\<rparr>) = may_write st"
  by (simp_all add: store_text_def get_entry_def store_entries_def may_write_def self_role_def role_of_def find_peer_def self_id_def)

section \<open>Operations that only touch the disk\<close>

lemma on_disk_eq: "on_disk m st = (fst (m (st_disk st)), st\<lparr>st_disk := snd (m (st_disk st))\<rparr>)"
  by (simp add: on_disk_def split: prod.splits)

lemma disk_at_upd: "disk_at m (st\<lparr>st_disk := s\<rparr>) \<Longrightarrow> \<exists>s'. snd (m (st\<lparr>st_disk := s\<rparr>)) = st\<lparr>st_disk := s'\<rparr>"
  by (auto simp: disk_at_def)

lemma std_io_eq: "std_io m st = (map_err FilesIo (fst (m (st_disk st))), st\<lparr>st_disk := snd (m (st_disk st))\<rparr>)"
  by (simp add: std_io_def errE_def on_disk_def split: prod.splits)

lemma rename_or_clean_disk [disk_at_rules]: "disk_at (rename_or_clean E t p) st"
  by (auto simp: disk_at_def rename_or_clean_def std_io_def errE_def on_disk_def split: prod.splits sum.splits)

lemma create_parent_disk [disk_at_rules]: "disk_at (create_parent E p) st"
  by (cases "path_parent p") (simp_all add: create_parent_def disk_at_rules)

lemma sidecar_store_disk [disk_at_rules]: "disk_at (sidecar_store E m k sc) st"
  unfolding sidecar_store_def Let_def by (intro disk_at_rules)

lemma sidecar_load_disk [disk_at_rules]: "disk_at (sidecar_load E m k) st"
  by (auto simp: disk_at_def sidecar_load_def on_disk_def split: prod.splits sum.splits option.splits io_kind.splits)

lemma remove_if_present_disk [disk_at_rules]: "disk_at (remove_if_present E p) st"
  by (auto simp: disk_at_def remove_if_present_def std_io_def errE_def on_disk_def
      split: prod.splits sum.splits files_error.splits io_kind.splits)

lemma atomic_write_disk [disk_at_rules]: "disk_at (atomic_write E p b) st"
proof -
  let ?s = "snd (fs_write (be_fs E) (temp_of p) b (st_disk st))"
  obtain s' where "snd (rename_or_clean E (temp_of p) p (st\<lparr>st_disk := ?s\<rparr>)) = st\<lparr>st_disk := s'\<rparr>"
    using rename_or_clean_disk [of E "temp_of p" p "st\<lparr>st_disk := ?s\<rparr>"] by (auto simp: disk_at_def)
  then show ?thesis
    by (auto simp: disk_at_def atomic_write_def Let_def std_io_eq split: sum.splits)
qed

lemma write_blob_marker_disk [disk_at_rules]: "disk_at (write_blob_marker E m k) st"
  unfolding write_blob_marker_def Let_def by (intro disk_at_rules)

lemma checked_within_disk [disk_at_rules]: "disk_at (checked_within E B f) st"
  by (simp add: disk_at_same checked_within_def)

lemma read_text_disk [disk_at_rules]: "disk_at (read_text E f) st"
  by (auto simp: disk_at_def read_text_def std_io_def errE_def on_disk_def
      split: prod.splits sum.splits files_error.splits io_kind.splits)

lemma write_projection_disk [disk_at_rules]: "disk_at (write_projection E B k f t) st"
  unfolding write_projection_def by (intro disk_at_rules)

lemma project_file_disk [disk_at_rules]: "disk_at (project_file_inner E B force f) st"
proof -
  let ?body = "\<lambda>k t. bindE (read_text E f) (\<lambda>disk. bindE (sidecar_load E (fb_meta_dir B) k) (\<lambda>sidecar.
         if disk = Some t \<and> map_option sc_last_synced_text sidecar = Some t then returnE unchanged_outcome
         else if \<not> force \<and> edited_since_sync disk t sidecar then failE (DirtyFile f)
         else write_projection E B k f t))"
  have "disk_at (?body k t) st" for k t and st :: "('a, 'b, 'c) store" by (intro disk_at_rules)
  then have "disk_at (\<lambda>st. let t = text_of E k st in ?body k t st) st" for k and st :: "('a, 'b, 'c) store"
    by (simp add: disk_at_def Let_def)
  then show ?thesis unfolding project_file_inner_def by (intro disk_at_rules)
qed

lemma project_blob_disk [disk_at_rules]: "disk_at (project_blob E B f h) st"
proof -
  let ?w = "\<lambda>b. bindE (create_parent E f) (\<lambda>_. bindE (atomic_write E f b) (\<lambda>_. bindE (liftE (container_of E B f)) (\<lambda>k.
      bindE (write_blob_marker E (fb_meta_dir B) k) (\<lambda>_. returnE changed_no_ops))))"
  have w: "disk_at (?w b) st" for b st by (intro disk_at_rules)
  have "disk_at (\<lambda>st. case found of None \<Rightarrow> (Inr unchanged_outcome, st)
       | Some b \<Rightarrow> if path_exists E f st then (Inr unchanged_outcome, st) else ?w b st) st" for found and st :: "('a, 'b, 'c) store"
    using w [of _ st] by (cases found) (auto simp: disk_at_def intro: exI [of _ "st_disk st"])
  then have "disk_at (\<lambda>st. bindE (in_store (on_disk (blob_get (be_hash E) (store_blobs (be_vault E) st) h))) (\<lambda>found st.
       case found of None \<Rightarrow> (Inr unchanged_outcome, st)
       | Some b \<Rightarrow> if path_exists E f st then (Inr unchanged_outcome, st) else ?w b st) st) st" for st :: "('a, 'b, 'c) store"
    using disk_at_bind [OF disk_at_err [OF disk_at_basic(4)]] unfolding disk_at_def by fast
  then show ?thesis unfolding project_blob_def by (intro disk_at_rules)
qed

lemma collect_entries_disk:
  assumes "\<And>p st. disk_at (walk p) st"
  shows "disk_at (collect_entries E walk ps) st"
proof (induction ps arbitrary: st)
  case Nil
  then show ?case by (simp add: disk_at_same)
next
  case (Cons p ps)
  have "disk_at (bindE (walk p) (\<lambda>xs. bindE (collect_entries E walk ps) (\<lambda>ys. returnE (xs @ ys)))) st"
    "disk_at (bindE (collect_entries E walk ps) (\<lambda>ys. returnE (p # ys))) st"
    by (intro disk_at_rules assms Cons)+
  then show ?case
    using Cons [of st] disk_at_same [of "\<lambda>st. (Inl _, st)" st]
    by (auto simp: disk_at_def split: sum.splits file_type.splits)
qed

lemma collect_vault_files_disk [disk_at_rules]: "disk_at (collect_vault_files E fuel dir) st"
proof (induction fuel arbitrary: dir st)
  case 0
  then show ?case by (simp add: disk_at_same)
next
  case (Suc fuel)
  have "disk_at (collect_entries E (collect_vault_files E fuel) es) st'" for es st'
    by (rule collect_entries_disk) (rule Suc)
  from disk_at_upd [OF this]
  have "\<exists>s'. snd (collect_entries E (collect_vault_files E fuel) es (st'\<lparr>st_disk := s\<rparr>)) = st'\<lparr>st_disk := s'\<rparr>" for es st' s .
  then show ?case by (auto simp: disk_at_def on_disk_eq split: sum.splits io_kind.splits)
qed

lemma gather_disk:
  assumes "\<And>x s'. x \<in> set xs \<Longrightarrow> disk_at (f x) (st\<lparr>st_disk := s'\<rparr>)"
  shows "disk_at (gather f xs) st"
  using assms
proof (induction xs arbitrary: st)
  case Nil
  then show ?case by (simp add: disk_at_same)
next
  case (Cons x xs)
  have "disk_at (f x) st" using Cons.prems [of x "st_disk st"] by simp
  moreover have "disk_at (gather f xs) (st\<lparr>st_disk := s'\<rparr>)" for s'
    using Cons.IH [of "st\<lparr>st_disk := s'\<rparr>"] Cons.prems by simp
  ultimately show ?case by (auto intro!: disk_at_rules)
qed

lemma keep_dirty_disk: "disk_at m st \<Longrightarrow> disk_at (keep_dirty os m) st"
  by (auto simp: disk_at_def keep_dirty_def split: prod.splits sum.splits files_error.splits)

lemma revert_step_disk: "disk_at (revert_step E B f) st"
proof -
  have "disk_at (bindE (project_file_forced E B f) (\<lambda>o'. returnE (report_changed f o'))) st'" for st'
    unfolding project_file_forced_def by (intro disk_at_rules)
  from disk_at_upd [OF this] show ?thesis by (auto simp: disk_at_def revert_step_def on_disk_eq)
qed

lemma live_step_disk: "disk_at (live_step E B pres k f e) st"
proof -
  have "disk_at (bindE (project_blob E B f (fe_content_hash e)) (\<lambda>o'. returnE (report_changed f o'))) st"
    "disk_at (bindE (project_file E B f) (\<lambda>o'. returnE [(f, o')])) st"
    "disk_at (keep_dirty [] (bindE (project_file E B f) (\<lambda>o'. returnE (report_changed f o')))) st"
    unfolding project_file_def by (intro disk_at_rules keep_dirty_disk)+
  then show ?thesis using disk_at_same [of "\<lambda>st. (Inr [], st)" st] by (auto simp: live_step_def disk_at_def)
qed

text \<open>A tombstone whose text was not edited afterwards.\<close>

definition settled :: "('s, 'd, 'v, 'f) bridge_env \<Rightarrow> ('s, 'd, 'v) store \<Rightarrow> ustr \<times> ustr \<Rightarrow> bool" where
  "settled E st kv =
     (case be_parse_entry E (snd kv) of
        Some e \<Rightarrow> fe_status e = Live \<or> fe_kind e = BlobEntry \<or> fe_content_hash e = text_hash E (text_of E (fst kv) st)
      | None \<Rightarrow> True)"

lemma tombstone_step_disk:
  assumes "fe_kind e = BlobEntry \<or> fe_content_hash e = text_hash E (text_of E k st)"
  shows "disk_at (tombstone_step E B pres k f e) st"
proof -
  let ?s = "sidecar_path (fb_meta_dir B) k"
  have "disk_at (bindE (if pres then remove_if_present E f else returnE ()) (\<lambda>_.
      bindE (remove_if_present E (blob_marker_path (fb_meta_dir B) k)) (\<lambda>_. bindE (remove_if_present E ?s) (\<lambda>_.
        returnE (if pres then [(f, changed_no_ops)] else []))))) st"
    "disk_at (bindE (remove_if_present E ?s) (\<lambda>_. returnE [])) st"
    "disk_at (bindE (remove_if_present E f) (\<lambda>_. bindE (remove_if_present E ?s) (\<lambda>_. returnE [(f, changed_no_ops)]))) st"
    by (intro disk_at_rules)+
  then show ?thesis using assms by (auto simp: tombstone_step_def Let_def disk_at_def)
qed

lemma remote_step_disk:
  assumes "settled E st kv"
  shows "disk_at (remote_step E B present kv) st"
proof (cases "be_parse_entry E (snd kv)")
  case None
  then show ?thesis by (simp add: remote_step_def from_value_def disk_at_same bindE_def)
next
  case (Some e)
  let ?f = "key_to_path (fb_vault_root B) (fst kv)" and ?p = "fst kv \<in> set present"
  have "disk_at (case fe_status e of Live \<Rightarrow> live_step E B ?p (fst kv) ?f e | Tombstoned \<Rightarrow> tombstone_step E B ?p (fst kv) ?f e) st"
    using assms Some live_step_disk [of E B ?p "fst kv" ?f e st] tombstone_step_disk [of e E "fst kv" st B ?p ?f]
    by (cases "fe_status e") (auto simp: settled_def)
  then show ?thesis
    using Some disk_at_same [of "\<lambda>st. (Inr [], st)" st]
    by (auto simp: remote_step_def from_value_def bindE_def disk_at_def Let_def split: sum.splits entry_status.splits)
qed

section \<open>Read-only devices\<close>

text \<open>
  C25: a device without a write role only projects. When no deleted text was edited after its
  deletion, a scan on such a device changes the disk and nothing else: the document, the operations
  it has persisted, the roster and the identity stay as they are, whatever the user did to the files
  of the vault and whether or not the scan succeeds.
\<close>

theorem reader_scan_only_projects:
  assumes "\<not> may_write st" "list_all (settled E st) (store_entries (be_vault E) FILESET_MAP_ID st)"
  shows "\<exists>s'. snd (scan_gc E B fuel hint gc st) = st\<lparr>st_disk := s'\<rparr>"
proof -
  have remote: "disk_at (over_entries E (remote_step E B present)) (st\<lparr>st_disk := s\<rparr>)" for present s
  proof -
    have "disk_at (remote_step E B present kv) (st\<lparr>st_disk := s'\<rparr>)"
      if "kv \<in> set (store_entries (be_vault E) FILESET_MAP_ID st)" for kv s'
      using assms(2) that by (intro remote_step_disk) (auto simp: list_all_iff settled_def split: option.splits)
    then have "disk_at (gather (remote_step E B present) (store_entries (be_vault E) FILESET_MAP_ID st)) (st\<lparr>st_disk := s\<rparr>)"
      by (intro gather_disk) simp
    then show ?thesis by (simp add: disk_at_def over_entries_def)
  qed
  let ?tail = "\<lambda>files present. bindE (gather (revert_step E B) files) (\<lambda>os1.
      bindE (over_entries E (remote_step E B present)) (\<lambda>os3. returnE (os1 @ os3)))"
  have tail: "disk_at (?tail files present) (st\<lparr>st_disk := s\<rparr>)" for files present s
    using remote by (auto intro!: disk_at_rules gather_disk revert_step_disk)
  have body: "disk_at (bindE (liftE (present_ids E B files)) (\<lambda>present st.
         let to_import = (case hint of None \<Rightarrow> files | Some hs \<Rightarrow> filter (\<lambda>f. f \<in> set hs) files) in
         if may_write st then
           bindE (gather (import_step E B) to_import) (\<lambda>os1.
           bindE (gather (heal_step E B) (be_order E present)) (\<lambda>_.
           bindE (over_entries E (deletion_step E B present)) (\<lambda>os2.
           bindE (over_entries E (remote_step E B present)) (\<lambda>os3. returnE (os1 @ os2 @ os3))))) st
         else ?tail to_import present st)) (st\<lparr>st_disk := s\<rparr>)" for files s
    using tail assms(1) by (intro disk_at_bind disk_at_basic) (simp add: disk_at_def Let_def)
  have "disk_at (scan_gc E B fuel hint gc) st"
    unfolding scan_gc_def Let_def by (rule disk_at_bind [OF collect_vault_files_disk]) (rule body [unfolded Let_def])
  then show ?thesis by (simp add: disk_at_def)
qed

end
