(* ===== verification/Bridge_Edits.thy ===== *)
theory Bridge_Edits
  imports Bridge_Guard Checkpoint
begin

text \<open>
  Edits of vault files: what an import and a projection do to a text on disk. A projection never
  overwrites a text that was not brought into the document before, and it settles; an edit that the
  document already contains is the one case in which the file and the document stay apart. The lemmas
  are stated for every lawful file system and used for the in-memory one.
\<close>

section \<open>Reading the two sides\<close>

context lawful_fs
begin

lemma std_read_ok:
  assumes "be_fs E = fs" "ok (st_disk st)"
  shows "std_io (fs_read (be_fs E) p) st = (map_err FilesIo (ok_or NotFound (files (st_disk st) p)), st)"
  using read_law [OF assms(2), of p] by (simp add: std_io_eq assms(1))

lemma read_text_ok:
  assumes "be_fs E = fs" "ok (st_disk st)"
  shows "read_text E p st = (Inr (Option.bind (files (st_disk st) p) from_utf8), st)"
  using std_read_ok [OF assms, of p] by (cases "files (st_disk st) p") (simp_all add: read_text_def)

lemma sidecar_load_pure:
  assumes "be_fs E = fs" "ok (st_disk st)"
  shows "\<exists>r. sidecar_load E m k st = (r, st)"
  using read_to_string_ok [OF assms(2), of "sidecar_path m k"]
  by (auto simp: sidecar_load_def on_disk_eq assms(1) split: option.splits sum.splits io_kind.splits)

text \<open>The three cases of a projection.\<close>

lemma project_file_cases:
  assumes "be_fs E = fs" "ok (st_disk st)" "container_of E B file = Inr k" "sidecar_load E (fb_meta_dir B) k st = (Inr sc, st)"
  defines "disk \<equiv> Option.bind (files (st_disk st) file) from_utf8" and "t \<equiv> text_of E k st"
  shows "project_file_inner E B force file st =
    (if disk = Some t \<and> map_option sc_last_synced_text sc = Some t then (Inr unchanged_outcome, st)
     else if \<not> force \<and> edited_since_sync disk t sc then (Inl (DirtyFile file), st)
     else write_projection E B k file t st)"
  using read_text_ok [OF assms(1,2), of "file"] assms(3,4)
  by (cases sc) (simp_all add: project_file_inner_def Let_def disk_def t_def)

lemma projection_keeps_edits:
  assumes "be_fs E = fs" "ok (st_disk st)" "container_of E B file = Inr k"
    "files (st_disk st) file = Some b" "from_utf8 b = Some l"
    "files (st_disk (snd (project_file E B file st))) file \<noteq> Some b"
  shows "l = text_of E k st \<or> (\<exists>s. sidecar_load E (fb_meta_dir B) k st = (Inr (Some s), st) \<and> l = sc_last_synced_text s)"
proof -
  obtain r where r: "sidecar_load E (fb_meta_dir B) k st = (r, st)"
    using sidecar_load_pure [OF assms(1,2), of "fb_meta_dir B" k] by blast
  show ?thesis
  proof (cases r)
    case (Inl e)
    then have "snd (project_file E B file st) = st"
      using read_text_ok [OF assms(1,2), of "file"] assms(3) r by (simp add: project_file_def project_file_inner_def Let_def)
    then show ?thesis using assms(4,6) by simp
  next
    case (Inr sc)
    then show ?thesis
      using project_file_cases [OF assms(1-3), of sc False] r assms(4-6)
      by (auto simp: project_file_def edited_since_sync_def split: if_splits option.splits)
  qed
qed

text \<open>The document already contains the local edit.\<close>

lemma import_subsumed:
  fixes E :: "('s, 'd, 'v, 'f) bridge_env"
  assumes fs: "be_fs E = fs" "ok (st_disk st)" "sidecar_laws E S" "sc \<in> S"
    and ids: "may_write st" "container_of E B file = Inr k" "live_case_collision E k st = None"
    and disk: "files (st_disk st) file = Some (utf8 l)" "valid_str l"
      "files (st_disk st) (sidecar_path (fb_meta_dir B) k) = Some (be_ser_sidecar E sc)"
    and sides: "text_of E k st \<noteq> sc_last_synced_text sc"
      "merge_local_onto_remote (be_differ E) (sc_last_synced_text sc) l (text_of E k st) = Some (text_of E k st, cs)"
      "diff_to_ops (be_differ E) (text_of E k st) (text_of E k st) = []"
  shows "import_file E B file st = (Inr unchanged_outcome, st)"
proof -
  have "sidecar_load E (fb_meta_dir B) k st = (Inr (Some sc), st)" using sidecar_load_ok(2) [OF fs disk(3)] .
  then have "import_text E B k l st = (Inr unchanged_outcome, st)"
    using sides by (simp add: import_text_def Let_def merged_text_def)
  then show ?thesis
    using ids disk std_read_ok [OF fs(1,2), of "file"] by (simp add: import_file_def import_content_def)
qed

lemma project_dirty:
  fixes E :: "('s, 'd, 'v, 'f) bridge_env"
  assumes fs: "be_fs E = fs" "ok (st_disk st)" "sidecar_laws E S" "sc \<in> S" and k: "container_of E B file = Inr k"
    and disk: "files (st_disk st) file = Some (utf8 l)" "valid_str l"
      "files (st_disk st) (sidecar_path (fb_meta_dir B) k) = Some (be_ser_sidecar E sc)"
    and l: "l \<noteq> text_of E k st" "l \<noteq> sc_last_synced_text sc"
  shows "project_file E B file st = (Inl (DirtyFile file), st)"
  using project_file_cases [OF fs(1,2) k sidecar_load_ok(2) [OF fs disk(3)], of False] disk l
  by (simp add: project_file_def edited_since_sync_def)

end

section \<open>Projection never loses an edit\<close>

text \<open>
  C22: a projection overwrites a text file only with consent. If projecting a file changes what is
  on disk, then the text that was there is either the text of the document or the text recorded at the
  last synchronisation, so nothing the user wrote since is lost.
\<close>

theorem project_file_keeps_edits:
  assumes "be_fs E = mem_fs" "mem_ok (st_disk st)" "container_of E B file = Inr k"
    "mem_file (st_disk st) file = Some b" "from_utf8 b = Some l"
    "mem_file (st_disk (snd (project_file E B file st))) file \<noteq> Some b"
  shows "l = text_of E k st \<or> (\<exists>s. sidecar_load E (fb_meta_dir B) k st = (Inr (Some s), st) \<and> l = sc_last_synced_text s)"
  using assms by (rule mem.projection_keeps_edits)

text \<open>
  C39: an edit that the document already contains blocks its file. Suppose a file was edited on disk
  since the last synchronisation, and the document meanwhile received the same edit among others, so
  that merging adds nothing to it. The import then reports no change and does not record the text on
  disk, the projection refuses to overwrite the file as if its edit had not been imported, and the
  projection step of a scan passes over it. All three leave the store as it was, so every further scan
  does the same and the file never receives the other changes.
\<close>

theorem subsumed_edit_blocks_file:
  assumes "be_fs E = mem_fs" "mem_ok (st_disk st)" "sidecar_laws E S" "sc \<in> S"
    and "may_write st" "container_of E B file = Inr k" "live_case_collision E k st = None"
    and "mem_file (st_disk st) file = Some (utf8 l)" "valid_str l"
      "mem_file (st_disk st) (sidecar_path (fb_meta_dir B) k) = Some (be_ser_sidecar E sc)"
    and "merge_local_onto_remote (be_differ E) (sc_last_synced_text sc) l (text_of E k st) = Some (text_of E k st, cs)"
      "diff_to_ops (be_differ E) (text_of E k st) (text_of E k st) = []"
    and "text_of E k st \<noteq> sc_last_synced_text sc" "l \<noteq> text_of E k st" "l \<noteq> sc_last_synced_text sc" "fe_kind e = TextEntry"
  shows "import_file E B file st = (Inr unchanged_outcome, st) \<and> project_file E B file st = (Inl (DirtyFile file), st)
    \<and> live_step E B True k file e st = (Inr [], st)"
proof -
  have p: "project_file E B file st = (Inl (DirtyFile file), st)"
    by (rule mem.project_dirty [OF assms(1-4,6,8-10,14,15)])
  moreover have "import_file E B file st = (Inr unchanged_outcome, st)"
    by (rule mem.import_subsumed [OF assms(1-10,13,11,12)])
  ultimately show ?thesis using assms(16) by (simp add: live_step_def keep_dirty_def bindE_def)
qed

section \<open>A projection settles\<close>

definition paths_apart :: "folder_bridge \<Rightarrow> ustr \<Rightarrow> path \<Rightarrow> bool" where
  "paths_apart B k file \<longleftrightarrow>
     (let side = sidecar_path (fb_meta_dir B) k in
      temp_of file \<noteq> file \<and> temp_of side \<noteq> side \<and> file \<noteq> side \<and> file \<noteq> temp_of side)"

lemma temp_of_name:
  assumes "path_ok p" "comp_ok (Normal n)"
  shows "temp_of (p @ [Normal n]) = p @ [Normal (n @ lit ''.tmp'')]"
proof -
  have n: "comp_ok (Normal (n @ lit ''.tmp''))"
    by (rule comp_ok_suffix [OF assms(2)]) (simp_all add: lit_def slash_def valid_str_def scalar_def)
  have "path_to_str (p @ [Normal n]) @ lit ''.tmp'' = path_to_str (p @ [Normal (n @ lit ''.tmp'')])"
    using path_to_str_snoc [OF assms] path_to_str_snoc [OF assms(1) n] assms(2) by (auto simp: str_push_def hd_append)
  then show ?thesis unfolding temp_of_def using path_of_to_str [OF path_ok_name [OF assms(1) n]] by simp
qed

text \<open>The bridge keeps its metadata outside the vault, so no path of a sidecar is a vault file.\<close>

lemma paths_apart_vault:
  assumes "path_ok (p @ [Normal n])" "path_ok (fb_meta_dir B)" "clean_key k" "strip_prefix (fb_meta_dir B) (p @ [Normal n]) = None"
  shows "paths_apart B k (p @ [Normal n])"
proof -
  let ?m = "fb_meta_dir B"
  obtain ns x where k: "k = str_join [slash] (ns @ [x])" "list_all (\<lambda>n. comp_ok (Normal n)) (ns @ [x])"
    using assms(3) unfolding clean_key_def by (metis append_butlast_last_id)
  have sub: "comp_ok (Normal (lit ''sidecars''))" by (simp add: lit_def slash_def dot_def valid_str_def scalar_def)
  have x: "comp_ok (Normal (x @ lit ''.roammeta''))"
    by (rule comp_ok_suffix) (use k(2) in \<open>simp_all add: lit_def slash_def valid_str_def scalar_def del: comp_ok.simps\<close>)
  have side: "sidecar_path ?m k = (?m @ Normal (lit ''sidecars'') # map Normal ns) @ [Normal (x @ lit ''.roammeta'')]"
    unfolding sidecar_path_def using meta_path_names [OF assms(2) k(2) sub x] k(1) by simp
  have q: "path_ok (?m @ Normal (lit ''sidecars'') # map Normal ns)"
    using push_names [OF path_ok_name [OF assms(2) sub], of ns] k(2) by simp
  have p: "path_ok p" "comp_ok (Normal n)" using assms(1) by (cases p; auto simp: path_ok_def)+
  have "p @ [Normal n] \<noteq> ?m @ r" for r using assms(4) by (metis option.distinct(1) strip_prefix_Some)
  then have "p @ [Normal n] \<noteq> sidecar_path ?m k" "p @ [Normal n] \<noteq> temp_of (sidecar_path ?m k)"
    unfolding side temp_of_name [OF q x] by (metis append.assoc)+
  moreover have "temp_of (sidecar_path ?m k) \<noteq> sidecar_path ?m k" unfolding side temp_of_name [OF q x] by (simp add: lit_def)
  ultimately show ?thesis using temp_of_name [OF p] by (simp add: paths_apart_def Let_def lit_def)
qed

context lawful_fs
begin

lemma atomic_write_ok:
  assumes "be_fs E = fs" "ok (st_disk st)" "okp (temp_of p)" "okp p" "room (st_disk st) (temp_of p)" "temp_of p \<noteq> p"
  shows "\<exists>s'. atomic_write E p b st = (Inr (), st\<lparr>st_disk := s'\<rparr>) \<and> ok s' \<and> files s' = (files (st_disk st))(temp_of p := None, p \<mapsto> b)"
proof -
  obtain s1 where "fs_write fs (temp_of p) b (st_disk st) = (Inr (), s1)"
    using write_law [OF assms(2,3,5), of b] by (auto simp: ok_step_def)
  then have "std_io (fs_write (be_fs E) (temp_of p) b) st = (Inr (), st\<lparr>st_disk := s1\<rparr>)" by (simp add: std_io_eq assms(1))
  then show ?thesis using write_rename_ok [OF assms, of b] by (simp add: atomic_write_def Let_def)
qed

lemma write_projection_runs:
  fixes E :: "('s, 'd, 'v, 'f) bridge_env"
  assumes fs: "be_fs E = fs" "ok (st_disk st)" "\<And>p. okp p" "\<And>s p. ok s \<Longrightarrow> room s p" and apart: "paths_apart B k file"
    and within: "ensure_within_vault E B file st = Inr ()"
  shows "\<exists>s'. write_projection E B k file t st = (Inr changed_no_ops, st\<lparr>st_disk := s'\<rparr>) \<and> ok s' \<and> files s' file = Some (utf8 t)
    \<and> files s' (sidecar_path (fb_meta_dir B) k) = Some (be_ser_sidecar E (synced_sidecar E k t))"
proof -
  let ?side = "sidecar_path (fb_meta_dir B) k"
  have "checked_within E B file st = (Inr (), st)" using within by (simp add: checked_within_def)
  moreover obtain s1 where s1: "create_parent E file st = (Inr (), st\<lparr>st_disk := s1\<rparr>)" "ok s1"
    using create_parent_ok [OF fs(1,2), of "file"] by blast
  moreover obtain s2 where s2: "atomic_write E file (utf8 t) (st\<lparr>st_disk := s1\<rparr>) = (Inr (), st\<lparr>st_disk := s2\<rparr>)" "ok s2"
    "files s2 file = Some (utf8 t)"
    using atomic_write_ok [of E "st\<lparr>st_disk := s1\<rparr>" "file" "utf8 t"] s1(2) fs apart by (auto simp: paths_apart_def Let_def)
  moreover obtain s3 where s3: "sidecar_store E (fb_meta_dir B) k (synced_sidecar E k t) (st\<lparr>st_disk := s2\<rparr>) = (Inr (), st\<lparr>st_disk := s3\<rparr>)" "ok s3"
    "files s3 = (files s2)(temp_of ?side := None, ?side \<mapsto> be_ser_sidecar E (synced_sidecar E k t))"
    using sidecar_store_ok [of E "st\<lparr>st_disk := s2\<rparr>" "fb_meta_dir B" k "synced_sidecar E k t"] s2(2) fs apart by (auto simp: paths_apart_def Let_def)
  ultimately have "write_projection E B k file t st = (Inr changed_no_ops, st\<lparr>st_disk := s3\<rparr>)" by (simp add: write_projection_def)
  then show ?thesis using s2(3) s3 apart by (auto simp: paths_apart_def Let_def)
qed

lemma write_projection_within: "write_projection E B k file t st = (Inr r, st') \<Longrightarrow> ensure_within_vault E B file st = Inr ()"
  by (auto simp: write_projection_def checked_within_def bindE_def split: sum.splits)

lemma project_file_effect:
  fixes E :: "('s, 'd, 'v, 'f) bridge_env"
  assumes fs: "be_fs E = fs" "ok (st_disk st)" "\<And>p. okp p" "\<And>s p. ok s \<Longrightarrow> room s p"
    and laws: "sidecar_laws E S" "synced_sidecar E k (text_of E k st) \<in> S" "valid_str (text_of E k st)"
    and cont: "container_of E B file = Inr k" "paths_apart B k file" and p: "project_file E B file st = (Inr r, st')"
  shows "Option.bind (files (st_disk st') file) from_utf8 = Some (text_of E k st) \<and> project_file E B file st' = (Inr unchanged_outcome, st')
    \<and> ok (st_disk st') \<and> (\<exists>s'. st' = st\<lparr>st_disk := s'\<rparr>)"
proof -
  let ?t = "text_of E k st" and ?disk = "Option.bind (files (st_disk st) file) from_utf8"
  obtain sc where sc: "sidecar_load E (fb_meta_dir B) k st = (Inr sc, st)"
    using p sidecar_load_pure [OF fs(1,2), of "fb_meta_dir B" k] read_text_ok [OF fs(1,2), of "file"] cont(1)
    by (auto simp: project_file_def project_file_inner_def Let_def bindE_def split: sum.splits)
  note cases = project_file_cases [OF fs(1,2) cont(1) sc, of False]
  show ?thesis
  proof (cases "?disk = Some ?t \<and> map_option sc_last_synced_text sc = Some ?t")
    case True
    then have "st' = st" using p cases by (simp add: project_file_def)
    then show ?thesis using True cases fs(2) by (auto simp: project_file_def intro: exI [of _ "st_disk st"])
  next
    case False
    then have w: "write_projection E B k file ?t st = (Inr r, st')"
      using p cases by (auto simp: project_file_def split: if_splits)
    obtain s' where st': "st' = st\<lparr>st_disk := s'\<rparr>" "ok s'" "files s' file = Some (utf8 ?t)"
      "files s' (sidecar_path (fb_meta_dir B) k) = Some (be_ser_sidecar E (synced_sidecar E k ?t))"
      using write_projection_runs [OF fs cont(2) write_projection_within [OF w], of ?t] w by auto
    have "sidecar_load E (fb_meta_dir B) k st' = (Inr (Some (synced_sidecar E k ?t)), st')"
      by (rule sidecar_load_ok(2) [OF fs(1) _ laws(1,2)]) (use st' in simp_all)
    then show ?thesis
      using project_file_cases [OF fs(1) _ cont(1), of st' _ False] st' laws(3)
      by (auto simp: project_file_def synced_sidecar_def)
  qed
qed

end

text \<open>
  C23: projecting settles. After a projection that succeeds, the file holds the text of the
  document, and projecting again finds nothing to do; a scan that only projects is therefore
  idempotent.
\<close>

theorem project_file_settles:
  assumes "be_fs E = mem_fs" "mem_ok (st_disk st)" "sidecar_laws E S"
    and "container_of E B file = Inr k" "clean_key k" "synced_sidecar E k (text_of E k st) \<in> S" "valid_str (text_of E k st)"
    and "file = p @ [Normal n]" "path_ok file" "path_ok (fb_meta_dir B)" "strip_prefix (fb_meta_dir B) file = None"
    and "project_file E B file st = (Inr r, st')"
  shows "Option.bind (mem_file (st_disk st') file) from_utf8 = Some (text_of E k st)
    \<and> project_file E B file st' = (Inr unchanged_outcome, st')"
proof -
  have "paths_apart B k file" using paths_apart_vault assms(5,8-11) by simp
  then show ?thesis
    using mem.project_file_effect [OF assms(1,2) _ _ assms(3,6,7,4) _ assms(12)] by simp
qed

section \<open>A small vault\<close>

text \<open>An admin device with the vault file \<open>a\<close> and the sidecar of its last synchronisation. The text of every
  container is fixed, and a sidecar is stored as its text.\<close>

definition ex_sidecar :: "ustr \<Rightarrow> sidecar" where
  "ex_sidecar t = \<lparr>sc_version = 1, sc_doc_id = lit ''a'', sc_last_synced_hash = [], sc_last_synced_text = t\<rparr>"

definition ex_benv :: "ustr \<Rightarrow> (mem_state, unit, unit, unit) bridge_env" where
  "ex_benv t = \<lparr>be_vault = ex_mem_vault\<lparr>ve_loro := toy_loro\<lparr>lo_text := \<lambda>_ _. t\<rparr>\<rparr>, be_hist = ex_codec, be_differ = toy_diff,
     be_nfc = \<lambda>s. s, be_hash = \<lambda>_. [], be_parse_entry = \<lambda>_. None, be_ser_entry = \<lambda>_. [],
     be_parse_sidecar = \<lambda>t. Some (ex_sidecar t), be_ser_sidecar = \<lambda>s. utf8 (sc_last_synced_text s),
     be_canonicalize = \<lambda>p _. Some p, be_file_type = \<lambda>p s. Inr (if mem_is_dir p s then Directory else RegularFile),
     be_order = \<lambda>ks. ks\<rparr>"

definition ex_bridge :: folder_bridge where
  "ex_bridge = bridge_new ex_root [RootDir, Normal (lit ''meta'')]"

definition ex_file :: path where "ex_file = ex_root @ [Normal (lit ''a'')]"

definition ex_side_file :: path where
  "ex_side_file = [RootDir, Normal (lit ''meta''), Normal (lit ''sidecars''), Normal (lit ''a.roammeta'')]"

definition ex_bstore :: "ustr \<Rightarrow> ustr \<Rightarrow> (mem_state, unit, unit) store" where
  "ex_bstore l a = ex_mem_store\<lparr>st_disk := \<lparr>mem_files = bt_insert ex_file (utf8 l) (bt_insert ex_side_file (utf8 a) []), mem_dirs = [],
       mem_owner_only = []\<rparr>,
     st_peers := [\<lparr>pr_peer_id = id_peer_id ex_id, pr_verifying_key = [], pr_status = Active, pr_role = Admin, pr_name = None\<rparr>]\<rparr>"

lemma ex_key: "clean_key (lit ''a'')" "str_join [slash] [lit ''a''] = lit ''a''" "comp_ok (Normal (lit ''a''))"
  by (auto simp: clean_key_def lit_def slash_def dot_def valid_str_def scalar_def intro!: exI [of _ "[[97]]"])

lemma ex_side_file_eq: "sidecar_path (fb_meta_dir ex_bridge) (lit ''a'') = ex_side_file"
proof -
  have "path_ok [RootDir, Normal (lit ''meta'')]" by (simp add: path_ok_def lit_def slash_def dot_def valid_str_def scalar_def)
  then show ?thesis
    using meta_path_names [of "[RootDir, Normal (lit ''meta'')]" "[]" "lit ''a''" "''sidecars''" "''.roammeta''"]
    by (simp add: sidecar_path_def ex_bridge_def bridge_new_def ex_side_file_def lit_def slash_def dot_def valid_str_def scalar_def)
qed

lemma ex_container: "container_of (ex_benv t) ex_bridge ex_file = Inr (lit ''a'')"
  by (simp add: container_id_def ex_benv_def ex_bridge_def bridge_new_def ex_root_def ex_file_def path_join_def path_push_def
      lexical_normalize_def path_is_absolute_def lit_def dot_def FILESET_MAP_ID_def Let_def)

lemma ex_disk: "mem_ok (st_disk (ex_bstore l a))" "mem_file (st_disk (ex_bstore l a)) ex_file = Some (utf8 l)"
  "mem_file (st_disk (ex_bstore l a)) ex_side_file = Some (utf8 a)"
  by (simp_all add: ex_bstore_def mem_ok_def mem_file_def btree_simps ex_file_def ex_side_file_def ex_root_def lit_def)

lemma ex_benv_simps [simp]:
  "be_fs (ex_benv t) = mem_fs" "text_of (ex_benv t) k st = t" "be_differ (ex_benv t) = toy_diff"
  "be_ser_sidecar (ex_benv t) s = utf8 (sc_last_synced_text s)" "be_parse_sidecar (ex_benv t) u = Some (ex_sidecar u)"
  by (simp_all add: ex_benv_def ex_mem_vault_def store_text_def doc_text_def)

lemma ex_benv_quiet: "live_case_collision (ex_benv t) k st = None" "may_write (ex_bstore l a)"
  by (simp_all add: live_case_collision_def ex_benv_def ex_mem_vault_def store_entries_def doc_entries_def toy_loro_def map_filter_simps
      ex_bstore_def may_write_def self_role_def role_of_def find_peer_def self_id_def ex_mem_store_def)

lemma ex_sidecar_laws: "sidecar_laws (ex_benv t) (ex_sidecar ` {u. valid_str u})"
  by (auto simp: sidecar_laws_def ex_sidecar_def)

theorem subsumed_edit_blocks_file_witness:
  "project_file (ex_benv (lit ''xab'')) ex_bridge ex_file (ex_bstore (lit ''ab'') (lit ''abc''))
     = (Inl (DirtyFile ex_file), ex_bstore (lit ''ab'') (lit ''abc''))"
proof -
  let ?e = "live_text []"
  have valid: "valid_str (lit ''ab'')" "valid_str (lit ''abc'')" by (simp_all add: lit_def valid_str_def scalar_def)
  have merge: "\<exists>cs. merge_local_onto_remote toy_diff (lit ''abc'') (lit ''ab'') (lit ''xab'') = Some (lit ''xab'', cs)"
    by (simp add: merge_local_onto_remote_def lit_def local_edits_def position_map_def Let_def remove_edit_def insert_edit_def)
  then obtain cs where cs: "merge_local_onto_remote toy_diff (lit ''abc'') (lit ''ab'') (lit ''xab'') = Some (lit ''xab'', cs)" by blast
  have same: "diff_to_ops toy_diff (lit ''xab'') (lit ''xab'') = []"
    by (simp add: diff_to_ops_def diff_to_ops_bounded_def DIFF_MAX_CHARS_def lit_def Let_def flush_insert_def flush_delete_def)
  show ?thesis
    using subsumed_edit_blocks_file [of "ex_benv (lit ''xab'')" "ex_bstore (lit ''ab'') (lit ''abc'')" "ex_sidecar ` {u. valid_str u}"
      "ex_sidecar (lit ''abc'')" ex_bridge ex_file "lit ''a''" "lit ''ab''" cs ?e] cs same valid
    by (simp add: ex_disk ex_sidecar_laws ex_container ex_side_file_eq ex_benv_quiet) (simp add: ex_sidecar_def live_text_def lit_def)
qed

text \<open>The file still holds the text of the last synchronisation, and the document has moved on.\<close>

lemma ex_projects:
  "\<exists>st'. project_file (ex_benv (lit ''xab'')) ex_bridge ex_file (ex_bstore (lit ''ab'') (lit ''ab'')) = (Inr changed_no_ops, st')
     \<and> mem_file (st_disk st') ex_file = Some (utf8 (lit ''xab''))"
proof -
  let ?E = "ex_benv (lit ''xab'')" and ?st = "ex_bstore (lit ''ab'') (lit ''ab'')"
  have valid: "valid_str (lit ''ab'')" by (simp add: lit_def valid_str_def scalar_def)
  have load: "sidecar_load ?E (fb_meta_dir ex_bridge) (lit ''a'') ?st = (Inr (Some (ex_sidecar (lit ''ab''))), ?st)"
    by (rule mem.sidecar_load_ok(2) [OF _ _ ex_sidecar_laws]) (use valid in \<open>simp_all add: ex_disk ex_side_file_eq ex_sidecar_def\<close>)
  have "paths_apart ex_bridge (lit ''a'') ex_file"
    unfolding ex_file_def
    by (rule paths_apart_vault [OF _ _ ex_key(1)])
       (simp_all add: ex_root_def ex_bridge_def bridge_new_def path_ok_def lit_def slash_def dot_def valid_str_def scalar_def)
  moreover have "ensure_within_vault ?E ex_bridge ex_file ?st = Inr ()"
    by (simp add: ensure_within_vault_def ex_benv_def resolve_ancestor.simps ex_bridge_def bridge_new_def ex_file_def strip_prefix_Some)
  ultimately obtain s' where "write_projection ?E ex_bridge (lit ''a'') ex_file (lit ''xab'') ?st = (Inr changed_no_ops, ?st\<lparr>st_disk := s'\<rparr>)"
    "mem_file s' ex_file = Some (utf8 (lit ''xab''))"
    using mem.write_projection_runs [of ?E ?st ex_bridge "lit ''a''" ex_file "lit ''xab''"] by (auto simp: ex_disk)
  then show ?thesis
    using mem.project_file_cases [of ?E ?st ex_bridge ex_file "lit ''a''", OF _ _ ex_container load, of False] valid
    by (simp add: ex_disk project_file_def edited_since_sync_def) (simp add: ex_sidecar_def lit_def)
qed

theorem project_file_keeps_edits_witness:
  "\<exists>s. sidecar_load (ex_benv (lit ''xab'')) (fb_meta_dir ex_bridge) (lit ''a'') (ex_bstore (lit ''ab'') (lit ''ab''))
         = (Inr (Some s), ex_bstore (lit ''ab'') (lit ''ab'')) \<and> lit ''ab'' = sc_last_synced_text s"
proof -
  let ?E = "ex_benv (lit ''xab'')" and ?st = "ex_bstore (lit ''ab'') (lit ''ab'')"
  have "from_utf8 (utf8 (lit ''ab'')) = Some (lit ''ab'')" by (rule from_utf8_utf8) (simp add: lit_def valid_str_def scalar_def)
  moreover have "utf8 (lit ''xab'') \<noteq> utf8 (lit ''ab'')" by (simp add: lit_def utf8_def)
  then have "mem_file (st_disk (snd (project_file ?E ex_bridge ex_file ?st))) ex_file \<noteq> Some (utf8 (lit ''ab''))" using ex_projects by auto
  ultimately show ?thesis
    using project_file_keeps_edits [of ?E ?st ex_bridge ex_file "lit ''a''" "utf8 (lit ''ab'')" "lit ''ab''"]
    by (simp add: ex_disk ex_container) (simp add: lit_def)
qed

theorem project_file_settles_witness:
  "\<exists>st'. project_file (ex_benv (lit ''xab'')) ex_bridge ex_file (ex_bstore (lit ''ab'') (lit ''ab'')) = (Inr changed_no_ops, st')
     \<and> project_file (ex_benv (lit ''xab'')) ex_bridge ex_file st' = (Inr unchanged_outcome, st')"
proof -
  let ?E = "ex_benv (lit ''xab'')" and ?st = "ex_bstore (lit ''ab'') (lit ''ab'')"
  obtain st' where st': "project_file ?E ex_bridge ex_file ?st = (Inr changed_no_ops, st')" using ex_projects by blast
  have sc: "synced_sidecar ?E (lit ''a'') (lit ''xab'') \<in> ex_sidecar ` {u. valid_str u}"
    by (simp add: synced_sidecar_def ex_sidecar_def SIDECAR_VERSION_def text_hash_def ex_benv_def image_iff)
       (simp add: lit_def valid_str_def scalar_def)
  have "path_ok ex_file" "path_ok (fb_meta_dir ex_bridge)" "strip_prefix (fb_meta_dir ex_bridge) ex_file = None"
    "valid_str (lit ''xab'')"
    by (simp_all add: ex_file_def ex_root_def ex_bridge_def bridge_new_def path_ok_def lit_def slash_def dot_def valid_str_def scalar_def)
  then show ?thesis
    using project_file_settles [of ?E ?st "ex_sidecar ` {u. valid_str u}" ex_bridge ex_file "lit ''a''" ex_root "lit ''a''"
        changed_no_ops st'] st' sc
    by (simp add: ex_disk ex_sidecar_laws ex_container ex_key) (simp add: ex_file_def)
qed

end
