(* ===== verification/Bridge_Files.thy ===== *)
theory Bridge_Files
  imports Bridge_Edits
begin

text \<open>
  Deleting and renaming vault files: the version a tombstone is stamped with, what renaming does to a
  binary file, and the one write a read-only device makes.
\<close>

section \<open>Tombstones and their version\<close>

lemma hex_digit_value: "n < 16 \<Longrightarrow> hex_value (hex_digit n) = Some n \<and> hex_digit n < 128 \<and> hex_digit n \<noteq> 43"
  by (auto simp: hex_value_def hex_digit_def)

lemma byte_div_mod: "unat (w :: byte) div 16 < 16" "unat w mod 16 < 16" "16 * (unat w div 16) + unat w mod 16 = unat w"
proof -
  have "unat w < 256" using unsigned_less [of w] by simp
  then show "unat w div 16 < 16" "unat w mod 16 < 16" "16 * (unat w div 16) + unat w mod 16 = unat w" by auto
qed

lemma hex_decode_encode: "hex_decode (hex_encode b) = Some (Some b)"
proof -
  have "hex_pairs (hex_encode b) = Some (Some b)"
  proof (induction b)
    case (Cons w b)
    have "radix16 (hex_digit (unat w div 16)) (hex_digit (unat w mod 16)) = Some w"
      using hex_digit_value [OF byte_div_mod(1) [of w]] hex_digit_value [OF byte_div_mod(2) [of w]]
      by (simp add: radix16_def byte_div_mod(3) del: of_nat_add of_nat_mult)
    then show ?case
      using Cons hex_digit_value [OF byte_div_mod(1) [of w]] hex_digit_value [OF byte_div_mod(2) [of w]]
      by (simp add: hex_encode_def)
  qed (simp add: hex_encode_def)
  moreover have "str_len (hex_encode b) mod 2 = 0"
  proof (induction b)
    case (Cons w b)
    then show ?case
      using hex_digit_value [OF byte_div_mod(1) [of w]] hex_digit_value [OF byte_div_mod(2) [of w]]
      by (simp add: hex_encode_def str_len_def utf8_def utf8_char.simps)
  qed (simp add: hex_encode_def str_len_def utf8_def)
  ultimately show ?thesis by (simp add: hex_decode_def)
qed

lemma stable_stamp:
  "tombstone_is_stable L g (tombstone kind h (Some (hex_encode vv))) = Some True \<longleftrightarrow>
     gc_trusted_peers g \<noteq> [] \<and> (\<forall>p \<in> set (gc_trusted_peers g). acked_dominates L g vv p)"
  by (simp add: tombstone_is_stable_def tombstone_def hex_decode_encode list_all_iff)

text \<open>
  C27: a tombstone counts as seen by everybody only when it is. A deletion writes the tombstone and
  then stamps it with a version of the document; the version is the one right after the tombstone
  was written. The stamped entry is reported stable exactly when there is a trusted peer and every
  trusted peer other than this device has acknowledged a version that includes that one. A peer that
  never reported a version is enough to keep the tombstone.
\<close>

theorem tombstone_stable_when_all_acked:
  assumes "write_tombstone E k kind h st = (Inr (), st2)"
  shows "\<exists>st1 e. put_entry E k (tombstone kind h None) st = (Inr (), st1) \<and> put_entry E k e st1 = (Inr (), st2)
    \<and> fe_status e = Tombstoned \<and> fe_kind e = kind \<and> fe_content_hash e = h
    \<and> (\<forall>g. tombstone_is_stable (ve_loro (be_vault E)) g e = Some True \<longleftrightarrow>
         gc_trusted_peers g \<noteq> [] \<and>
         (\<forall>p. p \<in> set (gc_trusted_peers g) \<and> p \<noteq> gc_self_peer g \<longrightarrow>
            (\<exists>v. map_of (gc_acked_versions g) p = Some v \<and> version_dominates (ve_loro (be_vault E)) v (doc_version_bytes (be_vault E) st1))))"
proof -
  obtain st1 where st1: "put_entry E k (tombstone kind h None) st = (Inr (), st1)"
    "put_entry E k (tombstone kind h (Some (hex_encode (doc_version_bytes (be_vault E) st1)))) st1 = (Inr (), st2)"
    using assms by (auto simp: write_tombstone_def bindE_Inr_iff)
  let ?e = "tombstone kind h (Some (hex_encode (doc_version_bytes (be_vault E) st1)))"
  have "fe_status ?e = Tombstoned" "fe_kind ?e = kind" "fe_content_hash ?e = h" by (simp_all add: tombstone_def)
  moreover have "tombstone_is_stable (ve_loro (be_vault E)) g ?e = Some True \<longleftrightarrow>
         gc_trusted_peers g \<noteq> [] \<and>
         (\<forall>p. p \<in> set (gc_trusted_peers g) \<and> p \<noteq> gc_self_peer g \<longrightarrow>
            (\<exists>v. map_of (gc_acked_versions g) p = Some v \<and> version_dominates (ve_loro (be_vault E)) v (doc_version_bytes (be_vault E) st1)))" for g
    unfolding stable_stamp by (auto simp: acked_dominates_def split: option.splits)
  ultimately show ?thesis using st1 by blast
qed

section \<open>Placid operations\<close>

text \<open>Writing entries leaves every text alone.\<close>

definition map_keeps_text :: "('d, 'v, 'f) loro \<Rightarrow> bool" where
  "map_keeps_text L \<longleftrightarrow>
     (\<forall>m k v d i. lo_text L i (snd (lo_map_insert L m k v d)) = lo_text L i d)
     \<and> (\<forall>d i. lo_text L i (lo_commit L d) = lo_text L i d)
     \<and> (\<forall>v d i. lo_text L i (snd (lo_export_updates L v d)) = lo_text L i d)"

named_theorems placid_rules

text \<open>From this state the operation keeps the disk in order and every text.\<close>

definition placid :: "(mem_state, 'd, 'v, 'f) bridge_env \<Rightarrow> ((mem_state, 'd, 'v) store, 'e, 'a) op \<Rightarrow> (mem_state, 'd, 'v) store \<Rightarrow> bool" where
  "placid E m st \<longleftrightarrow> (mem_ok (st_disk st) \<longrightarrow>
     mem_ok (st_disk (snd (m st))) \<and> (\<forall>k. text_of E k (snd (m st)) = text_of E k st))"

lemma placid_same: "snd (m st) = st \<Longrightarrow> placid E m st"
  by (simp add: placid_def)

lemma placid_basic [placid_rules]: "placid E (returnE a) st" "placid E (failE e) st" "placid E (liftE r) st"
  by (simp_all add: placid_def)

lemma placid_bind [placid_rules]:
  assumes "placid E m st" "\<And>a st'. placid E (f a) st'"
  shows "placid E (bindE m f) st"
proof (cases "m st")
  case (Pair r st')
  then show ?thesis
  proof (cases r)
    case (Inr a)
    then show ?thesis using Pair assms(1) assms(2) [of a st'] by (auto simp: placid_def)
  qed (use assms in \<open>auto simp: placid_def\<close>)
qed

lemma placid_err [placid_rules]: "placid E m st \<Longrightarrow> placid E (in_store m) st"
  by (auto simp: placid_def in_store_def errE_def split: prod.splits)

lemma placid_disk: "(\<And>s. mem_ok s \<Longrightarrow> mem_ok (snd (m s))) \<Longrightarrow> placid E (on_disk m) st"
  by (simp add: placid_def on_disk_eq)

lemma placid_std: "(\<And>s. mem_ok s \<Longrightarrow> mem_ok (snd (m s))) \<Longrightarrow> placid E (std_io m) st"
  by (simp add: placid_def std_io_eq)

lemma mem_keeps [simp]:
  "mem_ok s \<Longrightarrow> mem_ok (snd (fs_write mem_fs p b s))"
  "mem_ok s \<Longrightarrow> mem_ok (snd (fs_append_sync mem_fs p b s))"
  "mem_ok s \<Longrightarrow> mem_ok (snd (fs_create_dir_all mem_fs p s))"
  "mem_ok s \<Longrightarrow> mem_ok (snd (fs_rename mem_fs p q s))"
  "mem_ok s \<Longrightarrow> mem_ok (snd (fs_remove_file mem_fs p s))"
  "snd (fs_read mem_fs p s) = s"
  by (auto simp: mem_fs_def mem_defs mem_ok_def btree_simps Let_def split: option.splits)

lemma keeps_bind:
  assumes "mem_ok s" "\<And>s. mem_ok s \<Longrightarrow> mem_ok (snd (m s))" "\<And>a s. mem_ok s \<Longrightarrow> mem_ok (snd (f a s))"
  shows "mem_ok (snd (bindE m f s))"
  using assms(1) assms(2) [of s] assms(3) by (cases "m s"; cases "fst (m s)") (auto simp: bindE_def split: sum.splits)

lemma keeps_err: "mem_ok (snd (m s)) \<Longrightarrow> mem_ok (snd (errE g m s))"
  by (auto simp: errE_def split: prod.splits)

lemma oplog_append_keeps: "ol_fs ol = mem_fs \<Longrightarrow> mem_ok s \<Longrightarrow> mem_ok (snd (oplog_append F ser ol i u s))"
  unfolding oplog_append_def
  by (rule keeps_bind) (auto simp: ensure_parent_def append_json_def keeps_err split: option.splits)

lemma snd_loro_call: "snd (loro_call m d) = snd (m d)"
  by (simp add: loro_call_def errE_def split: prod.splits)

lemma put_entry_placid [placid_rules]:
  fixes E :: "(mem_state, 'd, 'v, 'f) bridge_env"
  assumes "be_fs E = mem_fs" "map_keeps_text (ve_loro (be_vault E))"
  shows "placid E (put_entry E k e) st"
proof -
  let ?V = "be_vault E"
  have doc: "placid E (on_doc m) st" if "\<And>d i. lo_text (ve_loro ?V) i (snd (m d)) = lo_text (ve_loro ?V) i d"
    for m :: "('d, crdt_error, 'x) op" and st :: "(mem_state, 'd, 'v) store"
    using that [of _ "st_doc st"] by (cases "m (st_doc st)") (simp add: placid_def on_doc_def store_text_def doc_text_def)
  have log: "placid E (on_disk (oplog_append (ve_env ?V) (ve_ser_op ?V) (own_op_log ?V st') (st_identity st') u)) st" for st' u st
    using assms(1) by (intro placid_disk oplog_append_keeps) (simp add: own_op_log_def oplog_new_def)
  have app: "placid E (\<lambda>st. bindE (on_disk (oplog_append (ve_env ?V) (ve_ser_op ?V) (own_op_log ?V st) (st_identity st) delta))
      (\<lambda>_ st. (Inr (), st\<lparr>st_persisted := v\<rparr>)) st) st" for delta v st
    using placid_bind [OF log [of st delta st], of "\<lambda>_ st. (Inr (), st\<lparr>st_persisted := v\<rparr>)"]
    by (simp add: placid_def store_text_def)
  have ex: "placid E (bindE (on_doc (doc_export_from (ve_loro ?V) w)) (\<lambda>delta st.
      bindE (on_disk (oplog_append (ve_env ?V) (ve_ser_op ?V) (own_op_log ?V st) (st_identity st) delta))
        (\<lambda>_ st. (Inr (), st\<lparr>st_persisted := v\<rparr>)) st)) st" for w v st
    using assms(2) by (intro placid_bind doc app) (simp add: doc_export_from_def snd_loro_call map_keeps_text_def)
  have "placid E (export_and_append ?V) st" for st
    using ex [of "st_persisted st"] by (simp add: export_and_append_def Let_def placid_def)
  then have "placid E (persist_new_ops ?V) st" for st
    using assms(2) by (simp add: persist_new_ops_def placid_def map_keeps_text_def store_text_def doc_text_def)
  then show ?thesis
    unfolding put_entry_def set_entry_def using assms(2)
    by (intro placid_err placid_bind doc)
       (simp_all add: doc_set_entry_def snd_loro_call map_keeps_text_def)
qed

lemma write_tombstone_placid:
  assumes "be_fs E = mem_fs" "map_keeps_text (ve_loro (be_vault E))"
  shows "placid E (write_tombstone E k kind h) st"
  using put_entry_placid [OF assms] unfolding write_tombstone_def by (intro placid_bind) (simp_all add: placid_def)

lemma create_parent_placid: "be_fs E = mem_fs \<Longrightarrow> placid E (create_parent E p) st"
  by (cases "path_parent p") (simp_all add: create_parent_def placid_same placid_std)

lemma write_blob_marker_placid: "be_fs E = mem_fs \<Longrightarrow> placid E (write_blob_marker E m k) st"
  unfolding write_blob_marker_def Let_def by (intro placid_bind create_parent_placid placid_std) simp_all

lemma blob_put_keeps: "bs_fs bs = mem_fs \<Longrightarrow> mem_ok s \<Longrightarrow> mem_ok (snd (blob_put H bs b s))"
proof -
  assume fs: "bs_fs bs = mem_fs" "mem_ok s"
  have "mem_ok (snd (case fs_rename mem_fs t p s of (Inr _, s') \<Rightarrow> (Inr h, s') | (Inl e, s') \<Rightarrow> (Inl (Io e), snd (fs_remove_file mem_fs t s'))))"
    if "mem_ok s" for t p s and h :: ustr
    using mem_keeps(4) [OF that, of t p] by (auto split: prod.splits sum.splits)
  then show ?thesis
    using fs by (auto simp: blob_put_def Let_def intro!: keeps_bind keeps_err)
qed

lemma blob_remove_keeps: "bs_fs bs = mem_fs \<Longrightarrow> mem_ok s \<Longrightarrow> mem_ok (snd (blob_remove bs h s))"
proof -
  assume fs: "bs_fs bs = mem_fs" "mem_ok s"
  have "mem_ok (snd (remove_tolerant mem_fs p s))" if "mem_ok s" for p s
    using mem_keeps(5) [OF that, of p] by (auto simp: remove_tolerant_def split: prod.splits sum.splits io_kind.splits)
  then show ?thesis using fs unfolding blob_remove_def by (intro keeps_bind) simp_all
qed

lemma import_blob_placid:
  assumes "be_fs E = mem_fs" "map_keeps_text (ve_loro (be_vault E))"
  shows "placid E (import_blob E B k b) st"
proof -
  have release: "placid E (release_superseded E B b prior hash) st" for prior hash st
  proof -
    have "placid E (in_store (on_disk (blob_remove (store_blobs (be_vault E) st') prev))) st" for prev st' st
      using assms(1) by (intro placid_err placid_disk blob_remove_keeps) (simp_all add: store_blobs_def)
    then show ?thesis by (auto simp: release_superseded_def placid_def split: option.splits)
  qed
  have "placid E (bindE (put_entry E k (live_blob_entry hash)) (\<lambda>_. bindE (release_superseded E B b prior hash) (\<lambda>_. returnE changed_no_ops))) st"
    for prior hash st
    by (intro placid_bind put_entry_placid [OF assms] release placid_basic)
  then have track: "placid E (track_blob E B k b prior hash) st" for prior hash st
    by (simp add: track_blob_def placid_def)
  have "placid E (\<lambda>st. case current_entry E k st of
          Some e \<Rightarrow> if fe_status e = Tombstoned \<and> fe_kind e = BlobEntry \<and> fe_content_hash e = hash then (Inr unchanged_outcome, st)
                     else track_blob E B k b prior hash st
        | None \<Rightarrow> track_blob E B k b prior hash st) st" for prior hash st
    using track [of prior hash st] by (auto simp: placid_def split: option.splits)
  moreover have "placid E (in_store (on_disk (blob_put (be_hash E) (store_blobs (be_vault E) st') b))) st" for st' st
    using assms(1) by (intro placid_err placid_disk blob_put_keeps) (simp_all add: store_blobs_def)
  ultimately have "placid E (bindE (in_store (on_disk (blob_put (be_hash E) (store_blobs (be_vault E) st) b))) (\<lambda>hash st.
        case current_entry E k st of
          Some e \<Rightarrow> if fe_status e = Tombstoned \<and> fe_kind e = BlobEntry \<and> fe_content_hash e = hash then (Inr unchanged_outcome, st)
                     else track_blob E B k b (map_option fe_content_hash (current_entry E k st0)) hash st
        | None \<Rightarrow> track_blob E B k b (map_option fe_content_hash (current_entry E k st0)) hash st)) st" for st0
    by (intro placid_bind)
  from this [of st] show ?thesis by (simp add: import_blob_def placid_def Let_def)
qed

section \<open>Renaming\<close>

context lawful_fs
begin

lemma remove_if_present_ok:
  assumes "be_fs E = fs" "ok (st_disk st)"
  shows "\<exists>s'. remove_if_present E p st = (Inr (), st\<lparr>st_disk := s'\<rparr>) \<and> ok s' \<and> files s' = (files (st_disk st))(p := None)"
proof (cases "files (st_disk st) p")
  case None
  then have "fs_remove_file fs p (st_disk st) = (Inl NotFound, st_disk st)" using remove_missing [OF assms(2)] by simp
  then show ?thesis using None assms(2) by (auto simp: remove_if_present_def std_io_eq assms(1) fun_eq_iff intro!: exI [of _ "st_disk st"])
next
  case (Some b)
  then show ?thesis using remove_file_law [OF assms(2)] by (fastforce simp: ok_step_def remove_if_present_def std_io_eq assms(1))
qed

end

lemma sidecar_path_outside:
  assumes "path_ok m" "clean_key k" "strip_prefix m f = None"
  shows "f \<noteq> sidecar_path m k"
proof -
  obtain ns x where k: "k = str_join [slash] (ns @ [x])" "list_all (\<lambda>n. comp_ok (Normal n)) (ns @ [x])"
    using assms(2) unfolding clean_key_def by (metis append_butlast_last_id)
  have "comp_ok (Normal (lit ''sidecars''))" by (simp add: lit_def slash_def dot_def valid_str_def scalar_def)
  moreover have "comp_ok (Normal (x @ lit ''.roammeta''))"
    by (rule comp_ok_suffix) (use k(2) in \<open>simp_all add: lit_def slash_def valid_str_def scalar_def del: comp_ok.simps\<close>)
  ultimately have "\<exists>r. sidecar_path m k = m @ r"
    unfolding sidecar_path_def using meta_path_names [OF assms(1) k(2)] k(1) by blast
  then show ?thesis using assms(3) by (metis option.distinct(1) strip_prefix_Some)
qed

lemma from_utf8_empty: "from_utf8 b = Some [] \<Longrightarrow> b = []"
  by (cases b) (auto simp: from_utf8.simps split: option.splits prod.splits)

lemma import_binary_placid:
  assumes "be_fs E = mem_fs" "map_keeps_text (ve_loro (be_vault E))" "mem_ok (st_disk st)"
    "mem_file (st_disk st) f = Some b" "from_utf8 b = None" "import_file E B f st = (r, st1)"
  shows "mem_ok (st_disk st1) \<and> (\<forall>k. text_of E k st1 = text_of E k st)"
proof -
  have "placid E (import_content E B k b) st" for k
    using assms(5) unfolding import_content_def
    by (simp, intro placid_bind import_blob_placid assms(1,2) write_blob_marker_placid placid_basic)
  then have "mem_ok (st_disk (snd (import_file E B f st))) \<and> (\<forall>k. text_of E k (snd (import_file E B f st)) = text_of E k st)"
    using assms(3,4) mem.std_read_ok [OF assms(1,3), of f]
    by (auto simp: import_file_def bindE_def placid_def split: sum.splits option.splits)
  then show ?thesis using assms(6) by simp
qed

text \<open>
  C38: renaming a binary file empties it. A file whose bytes are not text has an entry that refers
  to its bytes, and its text container is empty. Renaming it copies the empty text to the new
  path, writes an empty file there, and removes the old file, so after a rename that reports success
  no file of the vault holds the content.
\<close>

theorem rename_empties_binary_file:
  assumes env: "be_fs E = mem_fs" "map_keeps_text (ve_loro (be_vault E))" "sidecar_laws E S" "synced_sidecar E to_k [] \<in> S"
    and ids: "container_of E B from = Inr from_k" "container_of E B to = Inr to_k" "from_k \<noteq> to_k" "clean_key from_k" "clean_key to_k"
    and paths: "to = p @ [Normal n]" "path_ok to" "path_ok (fb_meta_dir B)" "strip_prefix (fb_meta_dir B) to = None"
    and disk: "mem_ok (st_disk st)" "mem_file (st_disk st) from = Some b" "from_utf8 b = None"
    and texts: "text_of E from_k st = []" "text_of E to_k st = []"
    and run: "rename_file E B from to st = (Inr r, st')"
  shows "mem_file (st_disk st') to = Some [] \<and> mem_file (st_disk st') from = None"
proof -
  have apart: "paths_apart B to_k to" using paths_apart_vault ids(5) paths by simp
  have ne: "to \<noteq> sidecar_path (fb_meta_dir B) from_k" "to \<noteq> from"
    using sidecar_path_outside [OF paths(3) ids(4) paths(4)] ids(1-3) by auto
  have "path_exists E from st" using mem.exists_law [OF disk(1)] disk(2) env(1) by (simp add: path_exists_def)
  then obtain o1 st1 where i: "import_file E B from st = (Inr o1, st1)" "move_text E B from to from_k to_k st1 = (Inr r, st')"
    using run ids by (auto simp: rename_file_def bindE_Inr_iff split: if_splits)
  have one: "mem_ok (st_disk st1)" "text_of E from_k st1 = []" "text_of E to_k st1 = []"
    using import_binary_placid [OF env(1,2) disk i(1)] texts by simp_all
  obtain st2 st3 o4 st4 where m: "put_entry E to_k ((live_text (text_hash E []))\<lparr>fe_renamed_from := Some from_k\<rparr>) st1 = (Inr (), st2)"
    "write_tombstone E from_k TextEntry (text_hash E []) st2 = (Inr (), st3)" "project_file E B to st3 = (Inr o4, st4)"
    "bindE (remove_if_present E from) (\<lambda>_. bindE (remove_if_present E (sidecar_path (fb_meta_dir B) from_k)) (\<lambda>_. returnE changed_no_ops)) st4 = (Inr r, st')"
    using i(2) one(2) by (auto simp: move_text_def Let_def bindE_Inr_iff returnE_def)
  have three: "mem_ok (st_disk st3)" "text_of E to_k st3 = []"
    using put_entry_placid [OF env(1,2)] write_tombstone_placid [OF env(1,2)] m(1,2) one unfolding placid_def by (metis snd_conv)+
  have four: "Option.bind (mem_file (st_disk st4) to) from_utf8 = Some []" "mem_ok (st_disk st4)"
    using mem.project_file_effect [OF env(1) three(1) _ _ env(3), of to_k] env(4) three(2) ids(2) apart m(3) by auto
  then have "mem_file (st_disk st4) to = Some []" by (auto simp: bind_eq_Some_conv dest: from_utf8_empty)
  moreover obtain s5 where s5: "remove_if_present E from st4 = (Inr (), st4\<lparr>st_disk := s5\<rparr>)" "mem_ok s5"
    "mem_file s5 = (mem_file (st_disk st4))(from := None)"
    using mem.remove_if_present_ok [OF env(1) four(2), of "from"] by blast
  moreover obtain s6 where "remove_if_present E (sidecar_path (fb_meta_dir B) from_k) (st4\<lparr>st_disk := s5\<rparr>) = (Inr (), st4\<lparr>st_disk := s6\<rparr>)"
    "mem_file s6 = (mem_file s5)(sidecar_path (fb_meta_dir B) from_k := None)"
    using mem.remove_if_present_ok [of E "st4\<lparr>st_disk := s5\<rparr>" "sidecar_path (fb_meta_dir B) from_k"] env(1) s5(2) by auto
  ultimately show ?thesis using m(4) ne by auto
qed

lemma bindE_returnE: "bindE (returnE a) f = f a"
  by (rule ext) (simp add: bindE_def)

lemma snd_bind_return: "snd (bindE m (\<lambda>x. returnE (f x)) st) = snd (m st)"
  by (auto simp: bindE_def split: prod.splits sum.splits)

section \<open>A read-only device that writes\<close>

text \<open>
  C40: a read-only device does author an operation. On a device without a write role, a scan
  with no changed files that meets a deleted text whose content was edited after the deletion, while
  the file is still present, sets the entry of the file in its own document and appends the operation
  to its own log, although the scan is described as never changing the document of such a device.
\<close>

theorem reader_scan_sets_entry:
  assumes "\<not> may_write st" "store_entries (be_vault E) FILESET_MAP_ID st = [(k, v)]" "be_parse_entry E v = Some e"
    and "fe_status e = Tombstoned" "fe_kind e = TextEntry" "fe_content_hash e \<noteq> text_hash E (text_of E k st)"
    and "collect_vault_files E fuel (fb_vault_root B) st = (Inr found, st0)" "present_ids E B (sort found) = Inr present" "k \<in> set present"
    and "\<And>s. ensure_within_vault E B (key_to_path (fb_vault_root B) k) (st\<lparr>st_disk := s\<rparr>) = Inr ()"
  shows "\<exists>s s'. snd (scan_gc E B fuel (Some []) gc st) =
    (snd (set_entry (be_vault E) FILESET_MAP_ID k (be_ser_entry E (live_text (text_hash E (text_of E k st)))) (st\<lparr>st_disk := s\<rparr>)))\<lparr>st_disk := s'\<rparr>"
proof -
  let ?f = "key_to_path (fb_vault_root B) k" and ?live = "live_text (text_hash E (text_of E k st))"
  obtain s where st0: "st0 = st\<lparr>st_disk := s\<rparr>"
    using disk_at_D [OF collect_vault_files_disk assms(7)] by blast
  let ?tail = "keep_dirty [(?f, changed_no_ops)] (bindE (project_file E B ?f) (\<lambda>outcome. returnE [(?f, outcome)]))"
  have tail: "disk_at ?tail st''" for st'' unfolding project_file_def by (intro keep_dirty_disk disk_at_rules)
  have "remote_step E B present (k, v) st0 = bindE (put_entry E k ?live) (\<lambda>_. ?tail) st0"
    using assms(3-6,9,10) by (simp add: remote_step_def from_value_def st0 Let_def tombstone_step_def live_text_def)
  then have "\<exists>s'. snd (remote_step E B present (k, v) st0) = (snd (put_entry E k ?live st0))\<lparr>st_disk := s'\<rparr>"
    using tail unfolding disk_at_def
    by (cases "put_entry E k ?live st0"; cases "fst (put_entry E k ?live st0)")
       (auto simp: bindE_def intro: exI [of _ "st_disk (snd (put_entry E k ?live st0))"])
  moreover have "snd (put_entry E k ?live st0) = snd (set_entry (be_vault E) FILESET_MAP_ID k (be_ser_entry E ?live) st0)"
    by (simp add: put_entry_def in_store_def errE_def split: prod.splits)
  moreover have "snd (scan_gc E B fuel (Some []) gc st) = snd (remote_step E B present (k, v) st0)"
    using assms(1,2,7,8) by (simp add: scan_gc_def st0 Let_def bindE_returnE snd_bind_return over_entries_def del: op_simps(1))
  ultimately show ?thesis using st0 by metis
qed

section \<open>Examples\<close>

text \<open>One file set entry, a deleted text, and a device without a role whose vault holds the file.\<close>

definition ex_tomb_env :: "ustr \<Rightarrow> (mem_state, unit, unit, unit) bridge_env" where
  "ex_tomb_env h = (ex_benv [])\<lparr>be_vault := ex_mem_vault\<lparr>ve_loro := toy_loro\<lparr>lo_map_keys := \<lambda>_ _. [lit ''a''],
     lo_map_get := \<lambda>_ _ _. Some (LString [])\<rparr>\<rparr>, be_parse_entry := \<lambda>_. Some (tombstone TextEntry h None)\<rparr>"

definition ex_reader :: "(mem_state, unit, unit) store" where
  "ex_reader = ex_mem_store\<lparr>st_disk := \<lparr>mem_files = [(ex_file, [])], mem_dirs = [ex_root], mem_owner_only = []\<rparr>\<rparr>"

lemma ex_reader_role: "\<not> may_write ex_reader"
  by (simp add: ex_reader_def may_write_def self_role_def role_of_def find_peer_def ex_mem_store_def)

lemma ex_tomb_entries: "store_entries (be_vault (ex_tomb_env h)) FILESET_MAP_ID st = [(lit ''a'', [])]"
  by (simp add: store_entries_def doc_entries_def doc_get_entry_def ex_tomb_env_def map_filter_simps)

lemma ex_tomb_text: "text_of (ex_tomb_env h) k st = []" "text_hash (ex_tomb_env h) t = []"
  by (simp_all add: store_text_def doc_text_def ex_tomb_env_def toy_loro_def text_hash_def ex_benv_def)

lemma ex_tomb_parse: "be_parse_entry (ex_tomb_env h) v = Some (tombstone TextEntry h None)"
  by (simp add: ex_tomb_env_def)

theorem reader_scan_only_projects_witness:
  "\<exists>s'. snd (scan_gc (ex_tomb_env []) ex_bridge 1 None None ex_reader) = ex_reader\<lparr>st_disk := s'\<rparr>"
  by (rule reader_scan_only_projects [OF ex_reader_role])
     (simp add: ex_tomb_entries settled_def ex_tomb_text ex_tomb_parse tombstone_def)

lemma ex_tomb_container: "container_of (ex_tomb_env h) ex_bridge ex_file = Inr (lit ''a'')"
  using ex_container [of "[]"] by (simp add: ex_tomb_env_def)

lemma ex_collect: "collect_vault_files (ex_tomb_env h) 1 ex_root ex_reader = (Inr [ex_file], ex_reader)"
  by (simp add: on_disk_eq ex_tomb_env_def ex_benv_def ex_mem_vault_def mem_fs_def mem_defs ex_reader_def child_of_def ex_file_def
      ex_root_def path_join_def path_push_def is_hidden_def is_internal_sidecar_def name_ends_with_def file_name_def map_filter_simps lit_def dot_def
      bs_of_def bt_keys_def)

theorem reader_scan_sets_entry_witness:
  "\<exists>s s'. snd (scan_gc (ex_tomb_env [1]) ex_bridge 1 (Some []) None ex_reader) =
     (snd (set_entry (be_vault (ex_tomb_env [1])) FILESET_MAP_ID (lit ''a'') (be_ser_entry (ex_tomb_env [1]) (live_text []))
        (ex_reader\<lparr>st_disk := s\<rparr>)))\<lparr>st_disk := s'\<rparr>"
proof -
  let ?E = "ex_tomb_env [1]"
  have "key_to_path ex_root (lit ''a'') = ex_file"
    using key_to_path_names [of "[lit ''a'']" ex_root] ex_key by (simp add: ex_file_def del: comp_ok.simps)
  then have within: "ensure_within_vault ?E ex_bridge (key_to_path (fb_vault_root ex_bridge) (lit ''a'')) st = Inr ()" for st
    by (simp add: ensure_within_vault_def ex_tomb_env_def ex_benv_def resolve_ancestor.simps ex_bridge_def bridge_new_def ex_file_def strip_prefix_Some)
  have "collect_vault_files ?E 1 (fb_vault_root ex_bridge) ex_reader = (Inr [ex_file], ex_reader)"
    using ex_collect by (simp add: ex_bridge_def bridge_new_def)
  moreover have "present_ids ?E ex_bridge (sort [ex_file]) = Inr [lit ''a'']" by (simp add: ex_tomb_container)
  ultimately show ?thesis
    using reader_scan_sets_entry [OF ex_reader_role ex_tomb_entries, of "[1]" "tombstone TextEntry [1] None" 1 ex_bridge "[ex_file]" ex_reader
        "[lit ''a'']" None] within
    by (simp add: ex_tomb_text ex_tomb_parse tombstone_def)
qed

theorem tombstone_stable_when_all_acked_witness:
  "\<exists>e. fe_status e = Tombstoned
     \<and> tombstone_is_stable (ve_loro ex_mem_vault) \<lparr>gc_self_peer = 1, gc_trusted_peers = [1, 2], gc_acked_versions = [(2, [])]\<rparr> e = Some True
     \<and> tombstone_is_stable (ve_loro ex_mem_vault) \<lparr>gc_self_peer = 1, gc_trusted_peers = [1, 2, 3], gc_acked_versions = [(2, [])]\<rparr> e \<noteq> Some True"
proof -
  let ?E = "(ex_benv [])\<lparr>be_vault := ex_mem_vault\<rparr>"
  have run: "write_tombstone ?E (lit ''a'') TextEntry [] ex_reader = (Inr (), ex_reader)"
    by (simp add: write_tombstone_def put_entry_def in_store_def set_entry_def ex_mem_vault_def toy_loro_def on_doc_def doc_set_entry_def
        loro_call_def errE_def bindE_def persist_new_ops_def export_and_append_def)
  have dom: "version_dominates (ve_loro ex_mem_vault) a b" for a b by (simp add: version_dominates_def ex_mem_vault_def toy_loro_def)
  obtain e where e: "fe_status e = Tombstoned" "\<And>g. tombstone_is_stable (ve_loro ex_mem_vault) g e = Some True \<longleftrightarrow>
      gc_trusted_peers g \<noteq> [] \<and> (\<forall>p. p \<in> set (gc_trusted_peers g) \<and> p \<noteq> gc_self_peer g \<longrightarrow> map_of (gc_acked_versions g) p \<noteq> None)"
    using tombstone_stable_when_all_acked [OF run] dom by auto
  show ?thesis by (intro exI [of _ e] conjI e(1)) (simp_all add: e(2) exI [of _ 3])
qed

text \<open>A binary file, renamed on an admin device.\<close>

definition ex_binary_file :: path where "ex_binary_file = ex_root @ [Normal (lit ''b'')]"

definition ex_binary :: "(mem_state, unit, unit) store" where
  "ex_binary = (ex_bstore [] [])\<lparr>st_disk := \<lparr>mem_files = [(ex_binary_file, [255])], mem_dirs = [ex_root], mem_owner_only = []\<rparr>\<rparr>"

lemma ex_binary_disk:
  "mem_ok (st_disk ex_binary)" "mem_file (st_disk ex_binary) p = (if p = ex_binary_file then Some [255] else None)"
  "from_utf8 [255] = None" "may_write ex_binary"
proof -
  show "mem_ok (st_disk ex_binary)" "mem_file (st_disk ex_binary) p = (if p = ex_binary_file then Some [255] else None)"
    by (simp_all add: ex_binary_def mem_ok_def mem_file_def btree_simps)
  show "from_utf8 [255] = None" by (simp add: from_utf8.simps utf8_step.simps)
  show "may_write ex_binary" using ex_benv_quiet(2) [of "[]" "[]"] by (simp add: ex_binary_def)
qed

lemma ex_put_entry: "put_entry (ex_benv t) k e st = (Inr (), st)" "write_tombstone (ex_benv t) k kind h st = (Inr (), st)"
proof -
  show *: "put_entry (ex_benv t) k e st = (Inr (), st)" for k e st
    by (simp add: put_entry_def in_store_def set_entry_def ex_benv_def ex_mem_vault_def toy_loro_def on_doc_def doc_set_entry_def
        loro_call_def errE_def bindE_def persist_new_ops_def export_and_append_def)
  show "write_tombstone (ex_benv t) k kind h st = (Inr (), st)" by (simp add: write_tombstone_def *)
qed

lemma ex_binary_container: "container_of (ex_benv t) ex_bridge ex_binary_file = Inr (lit ''b'')"
  by (simp add: container_id_def ex_benv_def ex_bridge_def bridge_new_def ex_root_def ex_binary_file_def path_join_def path_push_def
      lexical_normalize_def path_is_absolute_def lit_def dot_def FILESET_MAP_ID_def Let_def)

lemma ex_file_paths:
  "path_ok ex_file" "path_ok (fb_meta_dir ex_bridge)" "strip_prefix (fb_meta_dir ex_bridge) ex_file = None" "clean_key (lit ''b'')"
proof -
  show "path_ok ex_file" "path_ok (fb_meta_dir ex_bridge)" "strip_prefix (fb_meta_dir ex_bridge) ex_file = None"
    by (simp_all add: ex_file_def ex_root_def ex_bridge_def bridge_new_def path_ok_def lit_def slash_def dot_def valid_str_def scalar_def)
  show "clean_key (lit ''b'')"
    by (auto simp: clean_key_def lit_def slash_def dot_def valid_str_def scalar_def intro!: exI [of _ "[[98]]"])
qed

text \<open>Disks on which the new name is free.\<close>

definition ex_free :: "mem_state \<Rightarrow> bool" where
  "ex_free s \<longleftrightarrow> mem_ok s \<and> mem_file s ex_file = None \<and> mem_file s ex_side_file = None"

lemma ex_blob_put: "\<exists>h s. blob_put (be_hash (ex_benv [])) (store_blobs (be_vault (ex_benv [])) ex_binary) [255] (st_disk ex_binary) = (Inr h, s) \<and> ex_free s"
proof -
  let ?bs = "store_blobs (be_vault (ex_benv [])) ex_binary" and ?H = "be_hash (ex_benv [])"
  have bs: "bs_fs ?bs = mem_fs" "bs_root ?bs = [Normal (lit ''assets'')]"
    by (simp_all add: store_blobs_def ex_binary_def ex_bstore_def sub_path_def path_join_def path_push_def path_of_name lit_def slash_def dot_def)
  have hash: "?H [255] = []" by (simp add: ex_benv_def)
  let ?p = "[Normal (lit ''assets'')]" and ?t = "[Normal (lit ''assets''), Normal (lit ''.tmp'')]"
  have paths: "path_join (bs_root ?bs) (path_of_str []) = ?p" "path_join (bs_root ?bs) (path_of_str (lit ''.tmp'')) = ?t"
    unfolding bs(2) by (simp_all add: path_of_name path_join_def path_push_def lit_def slash_def dot_def) (simp add: path_of_str_def)
  have ne: "?p \<noteq> ex_binary_file" "?t \<noteq> ?p" "ex_file \<notin> {?p, ?t, ex_binary_file}" "ex_side_file \<notin> {?p, ?t, ex_binary_file}"
    by (simp_all add: ex_binary_file_def ex_file_def ex_side_file_def ex_root_def lit_def)
  have "\<not> fs_exists mem_fs ?p (st_disk ex_binary)"
    using mem.exists_law [OF ex_binary_disk(1)] ne(1) by (simp add: ex_binary_disk(2)) (simp add: ex_binary_def ex_root_def)
  moreover obtain s1 where s1: "fs_write mem_fs ?t [255] (st_disk ex_binary) = (Inr (), s1)" "mem_ok s1"
    "mem_file s1 = (mem_file (st_disk ex_binary))(?t \<mapsto> [255])"
    using mem.write_law [OF ex_binary_disk(1), of ?t "[255]"] by (auto simp: ok_step_def)
  moreover obtain s2 where s2: "fs_rename mem_fs ?t ?p s1 = (Inr (), s2)" "mem_ok s2" "mem_file s2 = (mem_file s1)(?t := None, ?p \<mapsto> [255])"
    using mem.rename_law [OF s1(2), of ?t "[255]" ?p] s1(3) ne(2) by (auto simp: ok_step_def)
  ultimately have "blob_put ?H ?bs [255] (st_disk ex_binary) = (Inr [], s2)"
    by (simp add: blob_put_def Let_def bs(1) hash paths errE_def bindE_def)
  moreover have "ex_free s2" using ne s1(3) s2 by (auto simp: ex_free_def ex_binary_disk(2))
  ultimately show ?thesis by blast
qed

lemma ex_marker_path:
  "blob_marker_path (fb_meta_dir ex_bridge) (lit ''b'') = [RootDir, Normal (lit ''meta''), Normal (lit ''blobmarkers''), Normal (lit ''b.roamblob'')]"
  using meta_path_names [OF ex_file_paths(2), of "[]" "lit ''b''" "''blobmarkers''" "''.roamblob''"]
  by (simp add: blob_marker_path_def ex_bridge_def bridge_new_def lit_def slash_def dot_def valid_str_def scalar_def)

lemma ex_import_binary: "\<exists>o' s'. import_file (ex_benv []) ex_bridge ex_binary_file ex_binary = (Inr o', ex_binary\<lparr>st_disk := s'\<rparr>) \<and> ex_free s'"
proof -
  let ?E = "ex_benv []" and ?k = "lit ''b''" and ?m = "blob_marker_path (fb_meta_dir ex_bridge) (lit ''b'')"
  obtain h s1 where put: "blob_put (be_hash ?E) (store_blobs (be_vault ?E) ex_binary) [255] (st_disk ex_binary) = (Inr h, s1)" "ex_free s1"
    using ex_blob_put by blast
  have cur: "current_entry ?E ?k st = None" "get_entry (be_vault ?E) FILESET_MAP_ID ?k st = None" for st
    by (simp_all add: current_entry_def get_entry_def doc_get_entry_def ex_benv_def toy_loro_def)
  have thr: "fb_single_version_threshold ex_bridge = None" by (simp add: ex_bridge_def bridge_new_def)
  have blob: "import_blob ?E ex_bridge ?k [255] ex_binary = (Inr changed_no_ops, ex_binary\<lparr>st_disk := s1\<rparr>)"
    using put(1) thr by (simp add: import_blob_def Let_def in_store_def errE_def on_disk_eq bindE_def cur track_blob_def ex_put_entry
        release_superseded_def)
  obtain s2 where s2: "create_parent ?E ?m (ex_binary\<lparr>st_disk := s1\<rparr>) = (Inr (), ex_binary\<lparr>st_disk := s2\<rparr>)" "mem_ok s2" "mem_file s2 = mem_file s1"
    using mem.create_parent_ok [of ?E "ex_binary\<lparr>st_disk := s1\<rparr>" ?m] put(2) by (auto simp: ex_free_def)
  obtain s3 where s3: "fs_write mem_fs ?m [] s2 = (Inr (), s3)" "mem_ok s3" "mem_file s3 = (mem_file s2)(?m \<mapsto> [])"
    using mem.write_law [OF s2(2), of ?m "[]"] by (auto simp: ok_step_def)
  have "write_blob_marker ?E (fb_meta_dir ex_bridge) ?k (ex_binary\<lparr>st_disk := s1\<rparr>) = (Inr (), ex_binary\<lparr>st_disk := s3\<rparr>)"
    using s2(1) s3(1) by (simp add: write_blob_marker_def Let_def std_io_eq)
  then have "import_content ?E ex_bridge ?k [255] ex_binary = (Inr changed_no_ops, ex_binary\<lparr>st_disk := s3\<rparr>)"
    using blob ex_binary_disk(3) by (simp add: import_content_def)
  then have "import_file ?E ex_bridge ex_binary_file ex_binary = (Inr changed_no_ops, ex_binary\<lparr>st_disk := s3\<rparr>)"
    using mem.std_read_ok [of ?E ex_binary ex_binary_file] ex_binary_disk
    by (simp add: import_file_def ex_binary_container ex_benv_quiet(1))
  moreover have "?m \<noteq> ex_file" "?m \<noteq> ex_side_file" unfolding ex_marker_path by (simp_all add: ex_file_def ex_side_file_def ex_root_def lit_def)
  then have "ex_free s3" using put(2) s2(3) s3 by (simp add: ex_free_def)
  ultimately show ?thesis by blast
qed

lemma ex_move:
  assumes "ex_free s"
  shows "\<exists>r st'. move_text (ex_benv []) ex_bridge ex_binary_file ex_file (lit ''b'') (lit ''a'') (ex_binary\<lparr>st_disk := s\<rparr>) = (Inr r, st')"
proof -
  let ?E = "ex_benv []" and ?st = "ex_binary\<lparr>st_disk := s\<rparr>" and ?side = "sidecar_path (fb_meta_dir ex_bridge) (lit ''b'')"
  have s: "mem_ok s" "mem_file s ex_file = None" "mem_file s ex_side_file = None" using assms by (simp_all add: ex_free_def)
  have load: "sidecar_load ?E (fb_meta_dir ex_bridge) (lit ''a'') ?st = (Inr None, ?st)"
    by (rule mem.sidecar_load_ok(1) [where sc = "ex_sidecar []", OF _ _ ex_sidecar_laws])
       (use s in \<open>simp_all add: ex_side_file_eq image_iff valid_str_def exI [of _ "[]"]\<close>)
  have "paths_apart ex_bridge (lit ''a'') ex_file"
    using paths_apart_vault [of ex_root "lit ''a''" ex_bridge "lit ''a''"] ex_file_paths ex_key(1) by (simp add: ex_file_def)
  moreover have "ensure_within_vault ?E ex_bridge ex_file ?st = Inr ()"
    by (simp add: ensure_within_vault_def ex_benv_def resolve_ancestor.simps ex_bridge_def bridge_new_def ex_file_def strip_prefix_Some)
  ultimately obtain s1 where "write_projection ?E ex_bridge (lit ''a'') ex_file [] ?st = (Inr changed_no_ops, ?st\<lparr>st_disk := s1\<rparr>)" "mem_ok s1"
    using mem.write_projection_runs [of ?E ?st ex_bridge "lit ''a''" ex_file "[]"] s(1) by auto
  then have p: "project_file ?E ex_bridge ex_file ?st = (Inr changed_no_ops, ex_binary\<lparr>st_disk := s1\<rparr>)"
    using mem.project_file_cases [of ?E ?st ex_bridge ex_file "lit ''a''", OF _ _ ex_container load, of False] s
    by (simp add: project_file_def edited_since_sync_def)
  obtain s2 where s2: "remove_if_present ?E ex_binary_file (ex_binary\<lparr>st_disk := s1\<rparr>) = (Inr (), ex_binary\<lparr>st_disk := s2\<rparr>)" "mem_ok s2"
    using mem.remove_if_present_ok [of ?E "ex_binary\<lparr>st_disk := s1\<rparr>" ex_binary_file] \<open>mem_ok s1\<close> by auto
  obtain s3 where "remove_if_present ?E ?side (ex_binary\<lparr>st_disk := s2\<rparr>) = (Inr (), ex_binary\<lparr>st_disk := s3\<rparr>)"
    using mem.remove_if_present_ok [of ?E "ex_binary\<lparr>st_disk := s2\<rparr>" ?side] s2(2) by auto
  then show ?thesis using p s2(1) by (simp add: move_text_def Let_def ex_put_entry)
qed

theorem rename_empties_binary_file_witness:
  "\<exists>r st'. rename_file (ex_benv []) ex_bridge ex_binary_file ex_file ex_binary = (Inr r, st')
     \<and> mem_file (st_disk st') ex_file = Some [] \<and> mem_file (st_disk st') ex_binary_file = None"
proof -
  let ?E = "ex_benv []" and ?S = "ex_sidecar ` {u. valid_str u}"
  obtain o' s' where i: "import_file ?E ex_bridge ex_binary_file ex_binary = (Inr o', ex_binary\<lparr>st_disk := s'\<rparr>)" "ex_free s'"
    using ex_import_binary by blast
  obtain r st' where m: "move_text ?E ex_bridge ex_binary_file ex_file (lit ''b'') (lit ''a'') (ex_binary\<lparr>st_disk := s'\<rparr>) = (Inr r, st')"
    using ex_move [OF i(2)] by blast
  have ne: "lit ''b'' \<noteq> lit ''a''" by (simp add: lit_def)
  have "path_exists ?E ex_binary_file ex_binary" using mem.exists_law [OF ex_binary_disk(1)] by (simp add: path_exists_def ex_binary_disk(2))
  then have run: "rename_file ?E ex_bridge ex_binary_file ex_file ex_binary = (Inr r, st')"
    using i(1) m ne ex_binary_disk(4) by (simp add: rename_file_def ex_container ex_binary_container)
  have sc: "synced_sidecar ?E (lit ''a'') [] \<in> ?S"
    by (simp add: synced_sidecar_def ex_sidecar_def SIDECAR_VERSION_def text_hash_def ex_benv_def image_iff valid_str_def)
  have "map_keeps_text (ve_loro (be_vault ?E))" by (simp add: map_keeps_text_def ex_benv_def toy_loro_def)
  then show ?thesis
    using rename_empties_binary_file [OF _ _ ex_sidecar_laws sc ex_binary_container ex_container ne ex_file_paths(4) ex_key(1) _ ex_file_paths(1-3)
        ex_binary_disk(1) _ ex_binary_disk(3) _ _ run, of ex_root "lit ''a''"] run
    by (simp add: ex_binary_disk(2) ex_file_def)
qed

end
