(* ===== verification/Spec2Isabelle.thy ===== *)
theory Spec2Isabelle
  imports Blob_Store Paper_Phrase Text_Rebase Engine_Exposure Chunk_Tracker Bridge_Files
begin

text \<open>
  roam: a verification library for the storage and sync core.

  Placeholder header, replaced as the components are added.
\<close>

end
